(* ===== verification/Prelude.thy ===== *)
theory Prelude
  imports Complex_Main "HOL-Library.Word" "HOL-Library.Monad_Syntax" "HOL-Library.Code_Target_Nat"
begin

text \<open>
  Vocabulary shared by every component of the development: the Rust standard-library
  operations the sources use (saturating arithmetic on \<open>u16\<close>, \<open>Vec::insert\<close> and
  \<open>Vec::remove\<close>, indexing that panics), the reading of a panic as \<^const>\<open>None\<close>, and the
  contract of a component whose operations never panic and keep an invariant
  (locale \<open>safe_machine\<close>), which the tab manager, the buffer store, the layout tree and
  the terminal emulator all instantiate.
\<close>

section \<open>Collections of facts\<close>

named_theorems panic_free \<open>operations that return a value under their invariant\<close>
named_theorems keeps \<open>frame facts: fields an operation does not write\<close>

section \<open>Machine integers as bounded naturals\<close>

abbreviation u16_max :: nat where "u16_max \<equiv> 65535"
abbreviation usize_max :: nat where "usize_max \<equiv> 18446744073709551615"

text \<open>\<open>u16::saturating_add\<close>, and \<open>saturating_sub\<close>, which is subtraction on \<^typ>\<open>nat\<close>.\<close>

definition sat_add :: "nat \<Rightarrow> nat \<Rightarrow> nat" where
  "sat_add a b = min u16_max (a + b)"

definition sat_sub :: "nat \<Rightarrow> nat \<Rightarrow> nat" where
  "sat_sub a b = a - b"

text \<open>Plain \<open>+\<close>, \<open>-\<close> on \<open>u16\<close>: \<^const>\<open>None\<close> where the addition or subtraction overflows
  (a panic with overflow checks, a wrong value without).\<close>

definition add16 :: "nat \<Rightarrow> nat \<Rightarrow> nat option" where
  "add16 a b = (if a + b \<le> u16_max then Some (a + b) else None)"

definition sub16 :: "nat \<Rightarrow> nat \<Rightarrow> nat option" where
  "sub16 a b = (if b \<le> a then Some (a - b) else None)"

definition clamp_nat :: "nat \<Rightarrow> nat \<Rightarrow> nat \<Rightarrow> nat" where
  "clamp_nat lo hi x = (if x < lo then lo else if hi < x then hi else x)"

lemma add16_Some [simp]: "a + b \<le> u16_max \<Longrightarrow> add16 a b = Some (a + b)"
  by (simp add: add16_def)

lemma sub16_Some [simp]: "b \<le> a \<Longrightarrow> sub16 a b = Some (a - b)"
  by (simp add: sub16_def)

lemma sat_add_le: "sat_add a b \<le> u16_max"
  by (simp add: sat_add_def)

lemma clamp_nat_bounds: "lo \<le> hi \<Longrightarrow> lo \<le> clamp_nat lo hi x \<and> clamp_nat lo hi x \<le> hi"
  by (simp add: clamp_nat_def)

section \<open>Vectors\<close>

text \<open>\<open>v[i]\<close>, \<open>v.insert(i, x)\<close> and \<open>v.remove(i)\<close>; each panics out of range.\<close>

definition vec_get :: "nat \<Rightarrow> 'a list \<Rightarrow> 'a option" where
  "vec_get i xs = (if i < length xs then Some (xs ! i) else None)"

definition vec_set :: "nat \<Rightarrow> 'a \<Rightarrow> 'a list \<Rightarrow> 'a list option" where
  "vec_set i x xs = (if i < length xs then Some (xs[i := x]) else None)"

definition vec_insert :: "nat \<Rightarrow> 'a \<Rightarrow> 'a list \<Rightarrow> 'a list option" where
  "vec_insert i x xs = (if i \<le> length xs then Some (take i xs @ x # drop i xs) else None)"

definition vec_remove :: "nat \<Rightarrow> 'a list \<Rightarrow> ('a \<times> 'a list) option" where
  "vec_remove i xs =
     (if i < length xs then Some (xs ! i, take i xs @ drop (Suc i) xs) else None)"

text \<open>\<open>Vec::resize(n, x)\<close>: truncate, or pad with clones of \<open>x\<close>.\<close>

definition vec_resize :: "nat \<Rightarrow> 'a \<Rightarrow> 'a list \<Rightarrow> 'a list" where
  "vec_resize n x xs = take n xs @ replicate (n - length xs) x"

lemma vec_get_Some [simp]: "i < length xs \<Longrightarrow> vec_get i xs = Some (xs ! i)"
  by (simp add: vec_get_def)

lemma vec_set_Some [simp]: "i < length xs \<Longrightarrow> vec_set i x xs = Some (xs[i := x])"
  by (simp add: vec_set_def)

lemma vec_insert_Some [simp]:
  "i \<le> length xs \<Longrightarrow> vec_insert i x xs = Some (take i xs @ x # drop i xs)"
  by (simp add: vec_insert_def)

lemma vec_remove_Some [simp]:
  "i < length xs \<Longrightarrow> vec_remove i xs = Some (xs ! i, take i xs @ drop (Suc i) xs)"
  by (simp add: vec_remove_def)

lemma length_vec_resize [simp]: "length (vec_resize n x xs) = n"
  by (auto simp: vec_resize_def min_def)

lemma set_vec_resize: "set (vec_resize n x xs) \<subseteq> insert x (set xs)"
  by (auto simp: vec_resize_def dest: in_set_takeD)

lemma set_take_drop_Suc: "set (take i xs @ drop (Suc i) xs) \<subseteq> set xs"
  by (auto dest: in_set_takeD in_set_dropD)

lemma take_insert_remove:
  assumes "i \<le> length xs"
  shows "take i (take i xs @ x # drop i xs) @ drop (Suc i) (take i xs @ x # drop i xs) = xs"
  using assms by (simp add: min_def)

lemma nth_insert:
  assumes "i \<le> length xs" "j \<le> length xs"
  shows "(take i xs @ x # drop i xs) ! j =
    (if j < i then xs ! j else if j = i then x else xs ! (j - 1))"
proof (cases "i < j")
  case True
  then obtain k where "j = Suc (i + k)" using less_imp_Suc_add by blast
  with assms show ?thesis by (simp add: nth_append min_def)
qed (use assms in \<open>auto simp: nth_append min_def\<close>)

lemma nth_remove:
  assumes "i < length xs" "j < length xs - 1"
  shows "(take i xs @ drop (Suc i) xs) ! j = (if j < i then xs ! j else xs ! Suc j)"
  using assms by (auto simp: nth_append min_def)

text \<open>A \<open>for _ in 0..n\<close> loop over a fallible body.\<close>

fun repeat_opt :: "nat \<Rightarrow> ('s \<Rightarrow> 's option) \<Rightarrow> 's \<Rightarrow> 's option" where
  "repeat_opt 0 f s = Some s"
| "repeat_opt (Suc n) f s = Option.bind (f s) (repeat_opt n f)"

text \<open>A \<open>for x in xs\<close> loop over a fallible body.\<close>

fun fold_opt :: "('a \<Rightarrow> 's \<Rightarrow> 's option) \<Rightarrow> 'a list \<Rightarrow> 's \<Rightarrow> 's option" where
  "fold_opt f [] s = Some s"
| "fold_opt f (x # xs) s = Option.bind (f x s) (fold_opt f xs)"

lemma repeat_opt_total:
  assumes "\<And>s. P s \<Longrightarrow> \<exists>s'. f s = Some s' \<and> P s'" and "P s"
  shows "\<exists>s'. repeat_opt n f s = Some s' \<and> P s'"
  using assms(2)
proof (induction n arbitrary: s)
  case (Suc n)
  obtain s' where "f s = Some s'" "P s'" using assms(1)[OF Suc.prems] by blast
  with Suc.IH show ?case by simp
qed simp

lemma fold_opt_total:
  assumes "\<And>x s. x \<in> set xs \<Longrightarrow> P s \<Longrightarrow> \<exists>s'. f x s = Some s' \<and> P s'" and "P s"
  shows "\<exists>s'. fold_opt f xs s = Some s' \<and> P s'"
  using assms
proof (induction xs arbitrary: s)
  case (Cons x xs)
  obtain s' where "f x s = Some s'" "P s'" using Cons.prems by (meson list.set_intros(1))
  with Cons show ?case by simp
qed simp

section \<open>Reasoning about computations that may panic\<close>

text \<open>\<open>returns m P\<close>: the computation returns a value, and it satisfies \<open>P\<close>. Sequencing is
  function composition of postconditions, loops go by an invariant.\<close>

definition returns :: "'a option \<Rightarrow> ('a \<Rightarrow> bool) \<Rightarrow> bool" where
  "returns m P \<longleftrightarrow> (\<exists>x. m = Some x \<and> P x)"

lemma returns_simps [simp]:
  "returns (Some x) P = P x" "returns None P = False"
  "returns (Option.bind m f) P = returns m (\<lambda>x. returns (f x) P)"
  by (cases m; simp add: returns_def)+

lemma returns_mono: "returns m P \<Longrightarrow> (\<And>x. P x \<Longrightarrow> Q x) \<Longrightarrow> returns m Q"
  by (auto simp: returns_def)

lemma returnsE: "returns m P \<Longrightarrow> (\<And>x. m = Some x \<Longrightarrow> P x \<Longrightarrow> thesis) \<Longrightarrow> thesis"
  by (auto simp: returns_def)

lemma returns_repeat:
  assumes "\<And>s. I s \<Longrightarrow> returns (f s) I" "I s"
  shows "returns (repeat_opt n f s) I"
  using assms repeat_opt_total[of I f s n] by (auto simp: returns_def)

lemma returns_fold:
  assumes "\<And>x s. x \<in> set xs \<Longrightarrow> I s \<Longrightarrow> returns (f x s) I" "I s"
  shows "returns (fold_opt f xs s) I"
  using assms fold_opt_total[of xs I f s] by (auto simp: returns_def)

section \<open>Components whose operations never panic\<close>

text \<open>
  The contract the event loop relies on: a command applied to a state that satisfies the
  invariant returns a new state that satisfies it. A component provides \<open>step\<close> (its
  operations as one function of a command), \<open>inv\<close>, and \<open>ok\<close> (what the caller promises of a
  command's arguments in the current state); the consequences for whole command sequences are
  proved once. \<open>admissible\<close> says that the caller keeps its promise along a run.
\<close>

fun admissible :: "('s \<Rightarrow> 'e \<Rightarrow> bool) \<Rightarrow> ('e \<Rightarrow> 's \<Rightarrow> 's option) \<Rightarrow> 'e list \<Rightarrow> 's \<Rightarrow> bool" where
  "admissible ok step [] s = True"
| "admissible ok step (e # es) s =
     (ok s e \<and> (case step e s of None \<Rightarrow> True | Some s' \<Rightarrow> admissible ok step es s'))"

lemma admissible_const: "list_all p es \<Longrightarrow> admissible (\<lambda>_. p) step es s"
  by (induction es arbitrary: s) (auto split: option.split)

lemma admissible_append:
  "admissible ok step (es @ fs) s \<longleftrightarrow>
     admissible ok step es s \<and>
     (case fold_opt step es s of None \<Rightarrow> True | Some t \<Rightarrow> admissible ok step fs t)"
  by (induction es arbitrary: s) (auto split: option.splits bind_splits)

locale safe_machine =
  fixes step :: "'e \<Rightarrow> 's \<Rightarrow> 's option"
    and inv :: "'s \<Rightarrow> bool"
    and ok :: "'s \<Rightarrow> 'e \<Rightarrow> bool"
  assumes step_safe: "inv s \<Longrightarrow> ok s e \<Longrightarrow> \<exists>s'. step e s = Some s' \<and> inv s'"
begin

lemma run_safe:
  "inv s \<Longrightarrow> admissible ok step es s \<Longrightarrow> \<exists>s'. fold_opt step es s = Some s' \<and> inv s'"
proof (induction es arbitrary: s)
  case (Cons e es)
  obtain t where "step e s = Some t" "inv t" using Cons.prems step_safe by fastforce
  with Cons show ?case by simp
qed simp

lemma run_never_stuck: "inv s \<Longrightarrow> admissible ok step es s \<Longrightarrow> fold_opt step es s \<noteq> None"
  using run_safe by fastforce

text \<open>The invariant also holds at every intermediate state of a run.\<close>

lemma run_prefix_safe:
  assumes "inv s" "admissible ok step (es @ fs) s"
  shows "\<exists>t. fold_opt step es s = Some t \<and> inv t \<and> admissible ok step fs t"
  using run_safe[of s es] assms by (auto simp: admissible_append)

end

text \<open>A contract whose operations also leave an observation unchanged.\<close>

locale observing_machine = safe_machine +
  fixes obs :: "'b \<Rightarrow> 'o"
  assumes step_obs: "inv s \<Longrightarrow> ok s e \<Longrightarrow> step e s = Some s' \<Longrightarrow> obs s' = obs s"
begin

lemma run_obs:
  "inv s \<Longrightarrow> admissible ok step es s \<Longrightarrow> fold_opt step es s = Some s' \<Longrightarrow> obs s' = obs s"
proof (induction es arbitrary: s)
  case (Cons e es)
  obtain t where t: "step e s = Some t" "inv t" using Cons.prems step_safe by fastforce
  have "obs t = obs s" using Cons.prems t step_obs[of s e t] by simp
  with t Cons.prems Cons.IH[of t] show ?case by simp
qed simp

end

section \<open>Strings\<close>

text \<open>
  A Rust \<open>str\<close> is a sequence of Unicode scalar values; it is modelled as the list of its code
  points. \<open>ascii\<close> reads a literal.
\<close>

type_synonym ustr = "nat list"

definition ascii :: "string \<Rightarrow> ustr" where
  "ascii s = map of_char s"

text \<open>\<open>char::is_whitespace\<close>: the Unicode property White_Space.\<close>

definition is_white :: "nat \<Rightarrow> bool" where
  "is_white c \<longleftrightarrow> (9 \<le> c \<and> c \<le> 13) \<or> c = 32 \<or> c = 133 \<or> c = 160 \<or> c = 5760 \<or>
     (8192 \<le> c \<and> c \<le> 8202) \<or> c = 8232 \<or> c = 8233 \<or> c = 8239 \<or> c = 8287 \<or> c = 12288"

text \<open>\<open>str::trim\<close>, \<open>str::split(c)\<close>.\<close>

definition trim :: "ustr \<Rightarrow> ustr" where
  "trim s = rev (dropWhile is_white (rev (dropWhile is_white s)))"

fun split_on :: "'a \<Rightarrow> 'a list \<Rightarrow> 'a list list" where
  "split_on c [] = [[]]"
| "split_on c (x # xs) =
     (if x = c then [] # split_on c xs
      else case split_on c xs of [] \<Rightarrow> [[x]] | w # ws \<Rightarrow> (x # w) # ws)"

lemma split_on_nonempty [simp]: "split_on c s \<noteq> []"
  by (induction s) (auto split: list.split)

lemma length_split_on: "length (split_on c s) = Suc (count_list s c)"
  by (induction s) (auto split: list.split)

text \<open>\<open>s.parse::<u32>()\<close>: an optional plus sign, then one or more decimal digits whose value
  fits in 32 bits.\<close>

fun parse_digits :: "nat \<Rightarrow> nat \<Rightarrow> ustr \<Rightarrow> nat option" where
  "parse_digits limit acc [] = Some acc"
| "parse_digits limit acc (c # cs) =
     (if 48 \<le> c \<and> c \<le> 57 \<and> acc * 10 + (c - 48) < limit
      then parse_digits limit (acc * 10 + (c - 48)) cs else None)"

definition parse_uint :: "nat \<Rightarrow> ustr \<Rightarrow> nat option" where
  "parse_uint limit s =
     (case s of [] \<Rightarrow> None
      | c # cs \<Rightarrow> if c = 43 then (if cs = [] then None else parse_digits limit 0 cs)
                 else parse_digits limit 0 s)"

text \<open>Decimal rendering of a number, \<open>format!("{}", n)\<close>.\<close>

function decimal :: "nat \<Rightarrow> ustr" where
  "decimal n = (if n < 10 then [48 + n] else decimal (n div 10) @ [48 + n mod 10])"
  by pat_completeness auto
termination by (relation "measure id") auto

declare decimal.simps [simp del]

lemma parse_digits_append:
  "parse_digits l a (xs @ ys) = Option.bind (parse_digits l a xs) (\<lambda>b. parse_digits l b ys)"
  by (induction xs arbitrary: a) auto

lemma decimal_nonempty: "decimal n \<noteq> []"
  by (subst decimal.simps) simp

lemma decimal_digits: "c \<in> set (decimal n) \<Longrightarrow> 48 \<le> c \<and> c \<le> 57"
proof (induction n rule: decimal.induct)
  case (1 n)
  show ?case
  proof (cases "n < 10")
    case True
    then show ?thesis using 1(2) by (subst (asm) decimal.simps) auto
  next
    case False
    have "n mod 10 < 10" by simp
    then have "n mod 10 \<le> 9" by linarith
    then show ?thesis using 1(1)[OF False] 1(2) False by (subst (asm) decimal.simps) auto
  qed
qed

lemma parse_digits_decimal: "n < l \<Longrightarrow> parse_digits l 0 (decimal n) = Some n"
proof (induction n rule: decimal.induct)
  case (1 n)
  show ?case
  proof (cases "n < 10")
    case True
    then show ?thesis using 1(2) by (subst decimal.simps) simp
  next
    case False
    have "n mod 10 < 10" by simp
    then have "n mod 10 \<le> 9" by linarith
    moreover have "parse_digits l 0 (decimal (n div 10)) = Some (n div 10)" using 1(1)[OF False] 1(2) False by simp
    ultimately show ?thesis using 1(2) False
      by (subst decimal.simps) (simp add: parse_digits_append)
  qed
qed

text \<open>A number printed in decimal parses back.\<close>

lemma parse_uint_decimal: "n < l \<Longrightarrow> parse_uint l (decimal n) = Some n"
proof -
  assume n: "n < l"
  obtain c cs where d: "decimal n = c # cs" using decimal_nonempty[of n] by (cases "decimal n") auto
  then have "c \<noteq> 43" using decimal_digits[of c n] by simp
  then show ?thesis using parse_digits_decimal[OF n] d by (simp add: parse_uint_def)
qed

section \<open>I/O errors\<close>

text \<open>The kinds of \<open>std::io::Error\<close> the sources create, and the errors of the operating system.\<close>

datatype 'e io_error =
    OsError 'e | InvalidInput | InvalidData | UnexpectedEof | PermissionDenied | OtherError

end
