(* ===== verification/F32.thy ===== *)
theory F32
  imports Prelude
begin

text \<open>
  The part of IEEE 754 binary32 that \<open>src/src/layout.rs\<close> computes with. A value is not a
  number, an infinity, or \<open>m \<cdot> 2\<^sup>e\<close> with integers \<open>m\<close> and \<open>e\<close>; the sign of zero, which no
  operation of the sources observes, is not kept. Every arithmetic operation rounds the exact
  result to nearest, ties to even (\<open>f32_ratio\<close>), as the standard and Rust prescribe. All of
  it computes on integers. The error bound \<open>f32_ratio_error\<close> is what the layout theory uses
  to show that equal columns stay equal.
\<close>

section \<open>Values and rounding\<close>

datatype f32 = NaN | Inf bool | Fin int int

text \<open>The bit length of a positive integer.\<close>

function bits :: "int \<Rightarrow> int" where
  "bits n = (if n \<le> 0 then 0 else 1 + bits (n div 2))"
  by pat_completeness auto
termination by (relation "measure nat") auto

declare bits.simps [simp del]

text \<open>\<open>ilog2 n d\<close> is \<open>\<lfloor>log\<^sub>2 (n / d)\<rfloor>\<close> for positive \<open>n\<close> and \<open>d\<close>, from the two bit lengths.\<close>

definition pow2_le_ratio :: "int \<Rightarrow> int \<Rightarrow> int \<Rightarrow> bool" where
  "pow2_le_ratio e n d =
     (if 0 \<le> e then d * 2 ^ nat e \<le> n else d \<le> n * 2 ^ nat (- e))"

definition ilog2 :: "int \<Rightarrow> int \<Rightarrow> int" where
  "ilog2 n d =
     (let e = bits n - bits d
      in if pow2_le_ratio e n d then e else e - 1)"

text \<open>Integer division rounding to nearest, ties to even (positive divisor).\<close>

definition div_half_even :: "int \<Rightarrow> int \<Rightarrow> int" where
  "div_half_even n d =
     (let q = n div d; r = n mod d
      in if 2 * r < d then q else if d < 2 * r then q + 1 else if even q then q else q + 1)"

text \<open>The binary32 value nearest to \<open>n / d\<close>, for \<open>0 < n\<close> and \<open>0 < d\<close>. The significand has 24
  bits, the exponent of a normal number is at least \<open>-126\<close>.\<close>

definition f32_pos_ratio :: "int \<Rightarrow> int \<Rightarrow> f32" where
  "f32_pos_ratio n d =
     (let k = max (- 126) (ilog2 n d) - 23;
          m = (if k \<le> 0 then div_half_even (n * 2 ^ nat (- k)) d
               else div_half_even n (d * 2 ^ nat k))
      in if 104 \<le> k \<and> 2 ^ 24 \<le> m * 2 ^ nat (k - 104) then Inf False else Fin m k)"

fun f32_neg :: "f32 \<Rightarrow> f32" where
  "f32_neg NaN = NaN"
| "f32_neg (Inf s) = Inf (\<not> s)"
| "f32_neg (Fin m e) = Fin (- m) e"

definition f32_ratio :: "int \<Rightarrow> int \<Rightarrow> f32" where
  "f32_ratio n d =
     (if n = 0 then Fin 0 0
      else if 0 < n then f32_pos_ratio n d else f32_neg (f32_pos_ratio (- n) d))"

definition f32_scaled :: "int \<Rightarrow> int \<Rightarrow> f32" where
  "f32_scaled m e = (if 0 \<le> e then f32_ratio (m * 2 ^ nat e) 1 else f32_ratio m (2 ^ nat (- e)))"

section \<open>Operations\<close>

text \<open>Conversions from unsigned integers: \<open>n as f32\<close>, \<open>f32::from(n)\<close>.\<close>

definition f32_of_nat :: "nat \<Rightarrow> f32" where
  "f32_of_nat n = f32_ratio (int n) 1"

fun f32_add :: "f32 \<Rightarrow> f32 \<Rightarrow> f32" where
  "f32_add (Fin m e) (Fin n f) =
     (let g = min e f
      in f32_scaled (m * 2 ^ nat (e - g) + n * 2 ^ nat (f - g)) g)"
| "f32_add (Inf s) (Inf t) = (if s = t then Inf s else NaN)"
| "f32_add (Inf s) (Fin _ _) = Inf s"
| "f32_add (Fin _ _) (Inf s) = Inf s"
| "f32_add _ _ = NaN"

fun f32_mul :: "f32 \<Rightarrow> f32 \<Rightarrow> f32" where
  "f32_mul (Fin m e) (Fin n f) = f32_scaled (m * n) (e + f)"
| "f32_mul (Inf s) (Inf t) = Inf (s \<noteq> t)"
| "f32_mul (Inf s) (Fin n _) = (if n = 0 then NaN else Inf (s \<noteq> (n < 0)))"
| "f32_mul (Fin m _) (Inf t) = (if m = 0 then NaN else Inf ((m < 0) \<noteq> t))"
| "f32_mul _ _ = NaN"

text \<open>Division, with the sign of a zero divisor taken as positive.\<close>

fun f32_div :: "f32 \<Rightarrow> f32 \<Rightarrow> f32" where
  "f32_div (Fin m e) (Fin n f) =
     (if n = 0 then (if m = 0 then NaN else Inf (m < 0))
      else f32_ratio (sgn n * m * 2 ^ nat (e - min e f)) (\<bar>n\<bar> * 2 ^ nat (f - min e f)))"
| "f32_div (Inf s) (Fin n _) = Inf (s \<noteq> (n < 0))"
| "f32_div (Fin _ _) (Inf _) = Fin 0 0"
| "f32_div _ _ = NaN"

fun f32_is_finite :: "f32 \<Rightarrow> bool" where
  "f32_is_finite (Fin _ _) = True"
| "f32_is_finite _ = False"

text \<open>\<open>f32::round\<close>: to the nearest integer, halves away from zero. Rounding a binary32 value
  to an integer gives a representable value, so no second rounding takes place.\<close>

fun f32_round_int :: "f32 \<Rightarrow> f32" where
  "f32_round_int (Fin m e) =
     (if 0 \<le> e then Fin m e
      else Fin (sgn m * ((2 * \<bar>m\<bar> + 2 ^ nat (- e)) div (2 * 2 ^ nat (- e)))) 0)"
| "f32_round_int x = x"

text \<open>\<open>x as u16\<close>: truncates towards zero, saturates, and maps NaN to 0.\<close>

fun f32_to_u16 :: "f32 \<Rightarrow> nat" where
  "f32_to_u16 NaN = 0"
| "f32_to_u16 (Inf s) = (if s then 0 else u16_max)"
| "f32_to_u16 (Fin m e) =
     (if m < 0 then 0
      else min u16_max (nat (if 0 \<le> e then m * 2 ^ nat e else m div 2 ^ nat (- e))))"

text \<open>Comparison of finite values and \<open>f32::clamp\<close>; NaN stays NaN.\<close>

fun f32_less :: "f32 \<Rightarrow> f32 \<Rightarrow> bool" where
  "f32_less (Fin m e) (Fin n f) =
     (m * 2 ^ nat (e - min e f) < n * 2 ^ nat (f - min e f))"
| "f32_less (Inf s) (Inf t) = (s \<and> \<not> t)"
| "f32_less (Inf s) (Fin _ _) = s"
| "f32_less (Fin _ _) (Inf t) = (\<not> t)"
| "f32_less _ _ = False"

definition f32_clamp :: "f32 \<Rightarrow> f32 \<Rightarrow> f32 \<Rightarrow> f32" where
  "f32_clamp lo hi x = (if f32_less x lo then lo else if f32_less hi x then hi else x)"

section \<open>Rounding error\<close>

text \<open>The rational a finite value stands for.\<close>

definition pow2 :: "int \<Rightarrow> rat" where
  "pow2 e = (if 0 \<le> e then 2 ^ nat e else 1 / 2 ^ nat (- e))"

fun val :: "f32 \<Rightarrow> rat" where
  "val (Fin m e) = of_int m * pow2 e"
| "val _ = 0"

lemma pow2_powi: "pow2 e = 2 powi e"
  by (simp add: pow2_def power_int_def inverse_eq_divide power_divide)

lemma pow2_pos [simp]: "0 < pow2 e"
  by (simp add: pow2_def)

lemma pow2_add: "pow2 (a + b) = pow2 a * pow2 b"
  by (simp add: pow2_powi power_int_add)

lemma pow2_nat: "0 \<le> e \<Longrightarrow> of_int (2 ^ nat e) = pow2 e"
  by (simp add: pow2_def)

lemma pow2_less_iff [simp]: "pow2 a < pow2 b \<longleftrightarrow> a < b"
proof -
  have "pow2 x < pow2 y" if "x < y" for x y
    unfolding pow2_powi using that by (intro power_int_strict_increasing) auto
  then show ?thesis by (metis less_asym linorder_less_linear)
qed

lemma pow2_neq_0 [simp]: "pow2 e \<noteq> 0"
  using pow2_pos[of e] by linarith

lemma bits_nonneg: "0 \<le> bits n"
proof (induction n rule: bits.induct)
  case (1 n)
  then show ?case by (subst bits.simps) auto
qed

lemma bits_rat: "0 < n \<Longrightarrow> pow2 (bits n - 1) \<le> of_int n \<and> of_int n < pow2 (bits n)"
proof (induction n rule: bits.induct)
  case (1 n)
  have b: "bits n = 1 + bits (n div 2)" using "1.prems" by (subst bits.simps) simp
  have p: "pow2 (bits n) = 2 * pow2 (bits (n div 2))"
    by (simp add: b pow2_add) (simp add: pow2_def)
  show ?case
  proof (cases "n div 2 = 0")
    case True
    then have "n = 1" using "1.prems" by auto
    moreover have "bits 1 = 1" by (simp add: bits.simps[of 1] bits.simps[of 0])
    ultimately show ?thesis by (simp add: pow2_def)
  next
    case False
    then have "0 < n div 2" using "1.prems" by linarith
    with "1.IH" "1.prems" have IH: "pow2 (bits (n div 2) - 1) \<le> of_int (n div 2)"
      "of_int (n div 2) < pow2 (bits (n div 2))" by auto
    have q: "pow2 (bits (n div 2)) = 2 * pow2 (bits (n div 2) - 1)"
      using pow2_add[of 1 "bits (n div 2) - 1"] by (simp add: pow2_def[of 1])
    have i: "of_int (2 * (n div 2)) \<le> (of_int n :: rat)" by (simp only: of_int_le_iff)
    have "n div 2 + 1 \<le> 2 ^ nat (bits (n div 2))"
    proof -
      have "of_int (n div 2) < (of_int (2 ^ nat (bits (n div 2))) :: rat)"
        using IH(2) bits_nonneg[of "n div 2"] by (simp add: pow2_def)
      then show ?thesis by (simp only: of_int_less_iff)
    qed
    then have "n < 2 * 2 ^ nat (bits (n div 2))" by linarith
    then have "of_int n < (of_int (2 * 2 ^ nat (bits (n div 2))) :: rat)"
      by (simp only: of_int_less_iff)
    then have u: "of_int n < 2 * pow2 (bits (n div 2))"
      using bits_nonneg[of "n div 2"] by (simp add: pow2_def)
    from i IH(1) have "pow2 (bits (n div 2)) \<le> of_int n" unfolding q by simp
    with u p show ?thesis by (simp add: b)
  qed
qed

lemma pow2_le_ratio_iff:
  assumes "0 < d"
  shows "pow2_le_ratio e n d \<longleftrightarrow> pow2 e \<le> of_int n / of_int d"
proof -
  have d: "(0::rat) < of_int d" using assms by simp
  show ?thesis
  proof (cases "0 \<le> e")
    case True
    have "pow2 e \<le> of_int n / of_int d \<longleftrightarrow> of_int (d * 2 ^ nat e) \<le> (of_int n :: rat)"
      using d True by (simp add: pow2_def pos_le_divide_eq mult.commute)
    then show ?thesis using True by (simp add: pow2_le_ratio_def del: of_int_mult of_int_power)
  next
    case False
    have "pow2 e \<le> of_int n / of_int d \<longleftrightarrow> of_int d \<le> (of_int (n * 2 ^ nat (- e)) :: rat)"
      using d False by (simp add: pow2_def pos_le_divide_eq pos_divide_le_eq mult.commute)
    then show ?thesis using False by (simp add: pow2_le_ratio_def del: of_int_mult of_int_power)
  qed
qed

lemma ilog2_bounds:
  assumes "0 < n" "0 < d"
  shows "pow2 (ilog2 n d) \<le> of_int n / of_int d" "of_int n / of_int d < pow2 (ilog2 n d + 1)"
proof -
  define e where "e = bits n - bits d"
  have dp: "(0::rat) < of_int d" using assms by simp
  have n1: "pow2 (bits n - 1) \<le> of_int n" and n2: "of_int n < pow2 (bits n)"
    using bits_rat[OF assms(1)] by blast+
  have d1: "pow2 (bits d - 1) \<le> of_int d" and d2: "of_int d < pow2 (bits d)"
    using bits_rat[OF assms(2)] by blast+
  have "pow2 (e - 1) * of_int d < pow2 (e - 1) * pow2 (bits d)"
    using d2 by simp
  also have "\<dots> = pow2 (bits n - 1)" by (simp add: e_def flip: pow2_add)
  also note n1
  finally have lo: "pow2 (e - 1) \<le> of_int n / of_int d"
    using dp by (simp add: pos_le_divide_eq)
  have "of_int n < pow2 (e + 1) * pow2 (bits d - 1)"
    using n2 by (simp add: e_def flip: pow2_add)
  also have "\<dots> \<le> pow2 (e + 1) * of_int d" using d1 by (simp add: mult_left_mono less_imp_le)
  finally have hi: "of_int n / of_int d < pow2 (e + 1)"
    using dp by (simp add: pos_divide_less_eq)
  have il: "ilog2 n d = (if pow2 e \<le> of_int n / of_int d then e else e - 1)"
    by (simp add: ilog2_def Let_def pow2_le_ratio_iff[OF assms(2)] flip: e_def)
  show "pow2 (ilog2 n d) \<le> of_int n / of_int d" "of_int n / of_int d < pow2 (ilog2 n d + 1)"
    using lo hi by (auto simp: il not_le)
qed

lemma div_half_even_error:
  assumes "0 < d"
  shows "\<bar>of_int (div_half_even n d) - of_int n / of_int d\<bar> \<le> (1/2 :: rat)"
proof -
  define q r where "q = n div d" and "r = n mod d"
  have r: "0 \<le> r" "r < d" using assms by (auto simp: r_def)
  have "n = q * d + r" by (simp add: q_def r_def)
  then have e: "of_int n / of_int d = of_int q + (of_int r / of_int d :: rat)"
    using assms by (simp add: field_simps)
  have f: "of_int r / of_int d \<le> (1/2 :: rat)" if "2 * r \<le> d"
  proof -
    have "of_int (2 * r) \<le> (of_int d :: rat)" using that by (simp only: of_int_le_iff)
    then show ?thesis using assms by (simp add: pos_divide_le_eq)
  qed
  have g: "1/2 \<le> (of_int r / of_int d :: rat)" if "d \<le> 2 * r"
  proof -
    have "(of_int d :: rat) \<le> of_int (2 * r)" using that by (simp only: of_int_le_iff)
    then show ?thesis using assms by (simp add: pos_le_divide_eq)
  qed
  have h: "0 \<le> (of_int r / of_int d :: rat)" "of_int r / of_int d < (1 :: rat)"
    using r assms by (auto simp: pos_divide_less_eq)
  have D: "div_half_even n d =
      (if 2 * r < d then q else if d < 2 * r then q + 1 else if even q then q else q + 1)"
    by (simp add: div_half_even_def Let_def q_def r_def)
  show ?thesis
  proof (cases "d \<le> 2 * r \<and> div_half_even n d = q + 1")
    case True
    with e g h show ?thesis by (simp add: abs_le_iff)
  next
    case False
    then have "div_half_even n d = q" "2 * r \<le> d" by (auto simp: D split: if_splits)
    with e f h show ?thesis by (simp add: abs_le_iff)
  qed
qed

text \<open>The significand before the overflow test, and its distance from the exact quotient.\<close>

lemma f32_significand_error:
  assumes "0 < n" "0 < d"
    and "m = (if k \<le> 0 then div_half_even (n * 2 ^ nat (- k)) d
              else div_half_even n (d * 2 ^ nat k))"
  shows "\<bar>of_int m * pow2 k - of_int n / of_int d\<bar> \<le> pow2 k / 2"
proof -
  have A: "\<bar>of_int m - of_int n / of_int d / pow2 k\<bar> \<le> 1/2"
  proof (cases "k \<le> 0")
    case True
    have "of_int (n * 2 ^ nat (- k)) / of_int d = of_int n / of_int d / pow2 k"
      using True by (cases "k = 0") (simp_all add: pow2_def)
    with True assms show ?thesis using div_half_even_error[OF assms(2)] by metis
  next
    case False
    have "0 < d * 2 ^ nat k" using assms by simp
    from div_half_even_error[OF this, of n] show ?thesis
      using False assms(3) by (simp add: pow2_def)
  qed
  have "\<bar>of_int m * pow2 k - of_int n / of_int d\<bar> =
      \<bar>of_int m - of_int n / of_int d / pow2 k\<bar> * pow2 k"
    using pow2_pos[of k] by (simp add: abs_mult_pos left_diff_distrib less_imp_le)
  also have "\<dots> \<le> 1/2 * pow2 k"
    using A pow2_pos[of k] by (intro mult_right_mono) (auto intro: less_imp_le)
  finally show ?thesis by simp
qed

theorem f32_ratio_error:
  assumes "0 < n" "0 < d" and lo: "pow2 (- 126) \<le> of_int n / of_int d"
    and hi: "of_int n / of_int d < pow2 100"
  obtains m k where "f32_ratio n d = Fin m k"
    and "\<bar>val (f32_ratio n d) - of_int n / of_int d\<bar> \<le> of_int n / of_int d / 2 ^ 24"
proof -
  define x :: rat where "x = of_int n / of_int d"
  define k where "k = max (- 126) (ilog2 n d) - 23"
  define m where "m = (if k \<le> 0 then div_half_even (n * 2 ^ nat (- k)) d
              else div_half_even n (d * 2 ^ nat k))"
  have il: "pow2 (ilog2 n d) \<le> x" "x < pow2 (ilog2 n d + 1)"
    using ilog2_bounds[OF assms(1,2)] by (simp_all add: x_def)
  have "pow2 (ilog2 n d) < pow2 100" using il(1) hi x_def by linarith
  then have k1: "ilog2 n d < 100" by simp
  have "pow2 (- 126) < pow2 (ilog2 n d + 1)" using il(2) lo x_def by linarith
  then have "- 126 < ilog2 n d + 1" by simp
  then have k2: "k = ilog2 n d - 23" by (simp add: k_def)
  have "f32_ratio n d = f32_pos_ratio n d" using assms by (simp add: f32_ratio_def)
  also have "\<dots> = Fin m k" using k1 k2
    by (simp add: f32_pos_ratio_def Let_def m_def flip: k_def)
  finally have F: "f32_ratio n d = Fin m k" .
  have "\<bar>of_int m * pow2 k - x\<bar> \<le> pow2 k / 2"
    unfolding x_def by (rule f32_significand_error[OF assms(1,2)]) (simp add: m_def)
  also have "pow2 k / 2 = pow2 (ilog2 n d) / 2 ^ 24"
    using pow2_add[of "ilog2 n d" "- 23"] by (simp add: k2 pow2_def[of "-23"])
  also have "\<dots> \<le> x / 2 ^ 24" using il(1) by (simp add: divide_right_mono)
  finally show thesis using that[OF F] by (simp add: F x_def)
qed

section \<open>Exact results\<close>

text \<open>A ratio that is an integer below \<open>2\<^sup>2\<^sup>4\<close> is represented exactly.\<close>

lemma f32_ratio_exact:
  assumes "0 < d" "0 < z" "z < 2 ^ 24"
  shows "\<exists>m k. f32_ratio (z * d) d = Fin m k \<and> val (Fin m k) = of_int z"
proof -
  define e where "e = ilog2 (z * d) d"
  have x: "of_int (z * d) / of_int d = (of_int z :: rat)" using assms by simp
  have p: "pow2 e \<le> of_int z" "of_int z < pow2 (e + 1)"
    using ilog2_bounds[of "z * d" d] assms x by (simp_all add: e_def)
  have "pow2 e < pow2 24"
  proof -
    have "(of_int z :: rat) < of_int (2 ^ 24)" using assms(3) by (simp only: of_int_less_iff)
    with p(1) show ?thesis by (simp add: pow2_def[of 24])
  qed
  then have e1: "e < 24" by simp
  have "pow2 0 < pow2 (e + 1)"
  proof -
    have "(1 :: rat) \<le> of_int z" using assms(2) by simp
    with p(2) show ?thesis by (simp add: pow2_def[of 0])
  qed
  then have e2: "0 \<le> e" by simp
  define k where "k = e - 23"
  have k: "max (- 126) e - 23 = k" "k \<le> 0" using e1 e2 by (auto simp: k_def)
  have "div_half_even (z * d * 2 ^ nat (- k)) d = z * 2 ^ nat (- k)"
    using assms(1) by (simp add: div_half_even_def Let_def mult.assoc mult.left_commute[of z d])
  then have F: "f32_ratio (z * d) d = Fin (z * 2 ^ nat (- k)) k"
    using assms k by (simp add: f32_ratio_def f32_pos_ratio_def Let_def flip: e_def)
  have "of_int (z * 2 ^ nat (- k)) * pow2 k = (of_int z :: rat)"
    using k by (cases "k = 0") (simp_all add: pow2_def)
  with F show ?thesis by simp
qed

lemma f32_of_nat_exact:
  assumes "0 < n" "n < 2 ^ 24"
  shows "\<exists>m k. f32_of_nat n = Fin m k \<and> val (Fin m k) = of_nat n"
  using f32_ratio_exact[of 1 "int n"] assms by (simp add: f32_of_nat_def)

text \<open>Scaled integers, products and quotients as ratios.\<close>

lemma f32_scaled_ratio:
  obtains n d where "0 < d" "f32_scaled m e = f32_ratio n d" "of_int n / of_int d = of_int m * pow2 e"
proof (cases "0 \<le> e")
  case True
  then show thesis using that[of 1 "m * 2 ^ nat e"] by (simp add: f32_scaled_def pow2_def)
next
  case False
  then show thesis using that[of "2 ^ nat (- e)" m] by (simp add: f32_scaled_def pow2_def)
qed

lemma f32_ratio_pos:
  assumes "(0::rat) < of_int n / of_int d" "0 < d"
  shows "0 < n"
  using assms by (simp add: zero_less_divide_iff)

lemma f32_scaled_exact:
  assumes "of_int m * pow2 e = of_int z" "0 < z" "z < 2 ^ 24"
  shows "\<exists>m' k. f32_scaled m e = Fin m' k \<and> val (Fin m' k) = of_int z"
proof -
  obtain n d where nd: "0 < d" "f32_scaled m e = f32_ratio n d"
    "of_int n / of_int d = of_int m * pow2 e" by (rule f32_scaled_ratio)
  then have "(of_int n :: rat) = of_int (z * d)" using assms(1) by (simp add: field_simps)
  then have "n = z * d" by (simp only: of_int_eq_iff)
  with nd f32_ratio_exact[of d z] assms show ?thesis by simp
qed

lemma f32_add_one_exact:
  assumes "val (Fin m e) = of_nat n" "n + 1 < 2 ^ 24"
  shows "\<exists>m' k. f32_add (Fin m e) (Fin 1 0) = Fin m' k \<and> val (Fin m' k) = of_nat (n + 1)"
proof -
  define g where "g = min e 0"
  have "of_int (m * 2 ^ nat (e - g) + 2 ^ nat (0 - g)) * pow2 g
      = of_int m * (pow2 (e - g) * pow2 g) + pow2 (0 - g) * pow2 g"
    by (auto simp: pow2_def g_def min_def distrib_right)
  also have "\<dots> = of_int m * pow2 e + 1"
    by (simp flip: pow2_add) (simp add: pow2_def)
  also have "\<dots> = of_int (int (n + 1))" using assms(1) by simp
  finally show ?thesis
    using f32_scaled_exact[of "m * 2 ^ nat (e - g) + 2 ^ nat (0 - g)" g "int (n + 1)"] assms(2)
    by (simp add: Let_def g_def)
qed

lemma f32_div_error:
  assumes "val (Fin m e) = of_nat l" "val (Fin n f) = of_nat t"
    and "0 < l" "l \<le> t" "t < 2 ^ 24"
  obtains q k where "f32_div (Fin m e) (Fin n f) = Fin q k"
    and "\<bar>val (Fin q k) - of_nat l / of_nat t\<bar> \<le> of_nat l / of_nat t / 2 ^ 24"
proof -
  have t: "(0::rat) < of_nat t" using assms by simp
  have "0 < of_int n * pow2 f" using assms(2) t by simp
  then have n: "0 < n" using pow2_pos[of f] by (auto simp: zero_less_mult_iff)
  define g where "g = min e f"
  define N D where "N = m * 2 ^ nat (e - g)" and "D = n * 2 ^ nat (f - g)"
  have D: "0 < D" using n by (simp add: D_def)
  have N: "of_int N = of_int m * pow2 (e - g)" by (simp add: N_def pow2_def g_def)
  have D': "of_int D = of_int n * pow2 (f - g)" by (simp add: D_def pow2_def g_def)
  have "of_int N * pow2 g = of_nat l" using assms(1)
    by (simp add: N mult.assoc flip: pow2_add)
  moreover have "of_int D * pow2 g = of_nat t" using assms(2)
    by (simp add: D' mult.assoc flip: pow2_add)
  ultimately have x: "of_int N / of_int D = (of_nat l / of_nat t :: rat)"
    by (metis mult_divide_mult_cancel_right pow2_neq_0)
  have "0 < of_int N / (of_int D :: rat)" using x t assms(3) by simp
  then have "0 < N" using D by (rule f32_ratio_pos)
  have F: "f32_div (Fin m e) (Fin n f) = f32_ratio N D"
    using n by (simp add: N_def D_def g_def)
  have "pow2 (- 24) \<le> of_int N / of_int D"
  proof -
    have "(of_nat t :: rat) \<le> of_nat l * 2 ^ 24"
    proof -
      have "t \<le> l * 2 ^ 24" using assms by (metis Suc_leI le_trans less_imp_le mult.commute mult.right_neutral mult_le_mono2 One_nat_def)
      then have "(of_nat t :: rat) \<le> of_nat (l * 2 ^ 24)" by (simp only: of_nat_le_iff)
      then show ?thesis by simp
    qed
    then show ?thesis unfolding x using t by (simp add: pow2_def field_simps)
  qed
  moreover have "pow2 (- 126) < pow2 (- 24)" by (subst pow2_less_iff) simp
  ultimately have lo: "pow2 (- 126) \<le> of_int N / of_int D" by linarith
  have "of_int N / of_int D \<le> (1 :: rat)" unfolding x using t assms by simp
  also have "\<dots> = pow2 0" by (simp add: pow2_def)
  also have "\<dots> < pow2 100" by (subst pow2_less_iff) simp
  finally have hi: "of_int N / of_int D < pow2 100" .
  from f32_ratio_error[OF \<open>0 < N\<close> D lo hi] obtain q k where "f32_ratio N D = Fin q k"
    "\<bar>val (f32_ratio N D) - of_int N / of_int D\<bar> \<le> of_int N / of_int D / 2 ^ 24" .
  then show thesis using that[of q k] F x by simp
qed

lemma f32_mul_error:
  assumes "1/2 \<le> val (Fin m e) * val (Fin n f)" "val (Fin m e) * val (Fin n f) < 2 ^ 99"
  obtains q k where "f32_mul (Fin m e) (Fin n f) = Fin q k"
    and "\<bar>val (Fin q k) - val (Fin m e) * val (Fin n f)\<bar> \<le> val (Fin m e) * val (Fin n f) / 2 ^ 24"
proof -
  obtain N D where nd: "0 < D" "f32_scaled (m * n) (e + f) = f32_ratio N D"
    "of_int N / of_int D = of_int (m * n) * pow2 (e + f)" by (rule f32_scaled_ratio)
  have x: "of_int N / of_int D = val (Fin m e) * val (Fin n f)"
    by (simp add: nd(3) pow2_add)
  have "0 < of_int N / (of_int D :: rat)" using x assms by simp
  then have "0 < N" using nd(1) by (rule f32_ratio_pos)
  have "pow2 (- 126) < pow2 (- 1)" by (subst pow2_less_iff) simp
  also have "\<dots> = 1/2" by (simp add: pow2_def)
  finally have lo: "pow2 (- 126) \<le> of_int N / of_int D" using x assms(1) by simp
  have "of_int N / of_int D < (2 ^ 99 :: rat)" using x assms(2) by simp
  also have "\<dots> = pow2 99" by (simp add: pow2_def)
  also have "\<dots> < pow2 100" by (subst pow2_less_iff) simp
  finally have hi: "of_int N / of_int D < pow2 100" .
  from f32_ratio_error[OF \<open>0 < N\<close> nd(1) lo hi] obtain q k where "f32_ratio N D = Fin q k"
    "\<bar>val (f32_ratio N D) - of_int N / of_int D\<bar> \<le> of_int N / of_int D / 2 ^ 24" .
  then show thesis using that[of q k] nd(2) x by simp
qed

text \<open>\<open>round\<close> followed by the cast recovers an integer that is less than a half away.\<close>

lemma f32_round_to_u16:
  assumes "\<bar>val (Fin m e) - of_nat z\<bar> < 1/2" "z \<le> u16_max" "0 < z"
  shows "f32_to_u16 (f32_round_int (Fin m e)) = z"
proof (cases "0 \<le> e")
  case True
  define v where "v = m * 2 ^ nat e"
  have "val (Fin m e) = of_int v" using True by (simp add: v_def pow2_def)
  then have "\<bar>of_int (v - int z)\<bar> < (1 :: rat)" using assms(1) by simp
  then have "\<bar>v - int z\<bar> < 1" by (metis of_int_1 of_int_abs of_int_less_iff)
  then have vz: "v = int z" by simp
  then have "0 \<le> m" using assms(3) by (metis int_nat_eq linorder_not_le mult_neg_pos of_nat_0_le_iff v_def zero_less_numeral zero_less_power not_less)
  then show ?thesis using True vz assms(2) by (simp flip: v_def)
next
  case False
  define p :: int where "p = 2 ^ nat (- e)"
  have p: "0 < p" by (simp add: p_def)
  have v: "val (Fin m e) = of_int m / of_int p" using False by (simp add: pow2_def p_def)
  have d: "\<bar>of_int m / of_int p - (of_nat z :: rat)\<bar> < 1/2" using assms(1) v by simp
  have rp: "(0 :: rat) < of_int p" using p by simp
  have "of_nat z - 1/2 < of_int m / (of_int p :: rat)" "of_int m / of_int p < of_nat z + (1/2 :: rat)"
    using d by linarith+
  then have "(of_nat z - 1/2) * of_int p < (of_int m :: rat)" "of_int m < (of_nat z + (1/2 :: rat)) * of_int p"
    using rp by (simp_all add: pos_less_divide_eq pos_divide_less_eq)
  then have "of_int ((2 * int z - 1) * p) < (of_int (2 * m) :: rat)"
    "(of_int (2 * m) :: rat) < of_int ((2 * int z + 1) * p)" by (simp_all add: algebra_simps)
  then have b: "(2 * int z - 1) * p < 2 * m" "2 * m < (2 * int z + 1) * p"
    by (simp_all only: of_int_less_iff)
  have "0 < (2 * int z - 1) * p" using p assms(3) by simp
  with b have m: "0 < m" by linarith
  have "(2 * m + p) div (2 * p) = int z"
  proof -
    have "2 * m + p = int z * (2 * p) + (2 * m + p - int z * (2 * p))" by simp
    moreover have "0 \<le> 2 * m + p - int z * (2 * p)" "2 * m + p - int z * (2 * p) < 2 * p"
      using b by (simp_all add: algebra_simps)
    ultimately show ?thesis using p
      by (metis add.commute add.right_neutral div_mult_self3 div_pos_pos_trivial less_irrefl mult_pos_pos zero_less_numeral)
  qed
  then have "f32_round_int (Fin m e) = Fin (int z) 0"
    using False m by (simp flip: p_def)
  then show ?thesis using assms(2) by simp
qed

end
