(* ===== verification/LayoutTree.thy ===== *)
theory LayoutTree
  imports F32
begin

text \<open>
  The split tree of \<open>src/src/layout.rs\<close>: the tree of panes with its construction, splitting,
  removal, break/join, swap, ratio and cycling operations. Rectangles and navigation are in
  \<open>LayoutGeom\<close>, the textual layout specification in \<open>LayoutSpec\<close>. Pane ids are unbounded
  here (\<open>usize\<close> in the source, one id per pane ever created).
\<close>

section \<open>Data\<close>

datatype Direction = Horizontal | Vertical

datatype LayoutNode = Leaf nat | Split Direction f32 LayoutNode LayoutNode

datatype NavDir = NLeft | NRight | NUp | NDown

record Layout =
  root :: LayoutNode
  next_id :: nat

text \<open>The floating-point literals of the source.\<close>

definition f32_half :: f32 where "f32_half = f32_ratio 1 2"
definition f32_min_ratio :: f32 where "f32_min_ratio = f32_ratio 1 10"
definition f32_max_ratio :: f32 where "f32_max_ratio = f32_ratio 9 10"

section \<open>Queries on a tree\<close>

fun collect_ids :: "LayoutNode \<Rightarrow> nat list \<Rightarrow> nat list" where
  "collect_ids (Leaf i) ids = ids @ [i]"
| "collect_ids (Split _ _ a b) ids = collect_ids b (collect_ids a ids)"

fun count_leaves :: "LayoutNode \<Rightarrow> nat" where
  "count_leaves (Leaf _) = 1"
| "count_leaves (Split _ _ a b) = count_leaves a + count_leaves b"

fun contains :: "LayoutNode \<Rightarrow> nat \<Rightarrow> bool" where
  "contains (Leaf i) target \<longleftrightarrow> i = target"
| "contains (Split _ _ a b) target \<longleftrightarrow> contains a target \<or> contains b target"

section \<open>Construction\<close>

text \<open>The mutable counter \<open>next_id\<close> is threaded through; the second component of the result
  is its final value.\<close>

function build_row :: "nat \<Rightarrow> nat \<Rightarrow> LayoutNode \<times> nat" where
  "build_row cols nid =
     (if cols \<le> 1 then (Leaf nid, nid + 1)
      else let (rest, nid') = build_row (cols - 1) (nid + 1)
           in (Split Horizontal (f32_div (Fin 1 0) (f32_of_nat cols)) (Leaf nid) rest, nid'))"
  by pat_completeness auto
termination by (relation "measure fst") auto

function build_grid :: "nat \<Rightarrow> nat \<Rightarrow> nat \<Rightarrow> LayoutNode \<times> nat" where
  "build_grid rows cols nid =
     (if rows \<le> 1 then build_row cols nid
      else let (a, nid') = build_row cols nid;
               (b, nid'') = build_grid (rows - 1) cols nid'
           in (Split Vertical (f32_div (Fin 1 0) (f32_of_nat rows)) a b, nid''))"
  by pat_completeness auto
termination by (relation "measure fst") auto

declare build_row.simps [simp del] build_grid.simps [simp del]

definition from_grid :: "nat \<Rightarrow> nat \<Rightarrow> Layout" where
  "from_grid rows cols =
     (let (r, nid) = build_grid (max rows 1) (max cols 1) 0 in \<lparr>root = r, next_id = nid\<rparr>)"

section \<open>Modification of a tree\<close>

fun equalize_node :: "LayoutNode \<Rightarrow> LayoutNode" where
  "equalize_node (Leaf i) = Leaf i"
| "equalize_node (Split d _ a b) =
     (let left = count_leaves a; total = left + count_leaves b
      in Split d (f32_div (f32_of_nat left) (f32_of_nat total))
           (equalize_node a) (equalize_node b))"

fun split_node :: "LayoutNode \<Rightarrow> nat \<Rightarrow> nat \<Rightarrow> Direction \<Rightarrow> LayoutNode" where
  "split_node (Leaf i) target new_id dir =
     (if i = target then Split dir f32_half (Leaf i) (Leaf new_id) else Leaf i)"
| "split_node (Split d r a b) target new_id dir =
     Split d r (split_node a target new_id dir) (split_node b target new_id dir)"

fun remove_node :: "LayoutNode \<Rightarrow> nat \<Rightarrow> LayoutNode option" where
  "remove_node (Leaf i) target = (if i = target then None else Some (Leaf i))"
| "remove_node (Split d r a b) target =
     (if contains a target then
        (case remove_node a target of Some f \<Rightarrow> Some (Split d r f b) | None \<Rightarrow> Some b)
      else if contains b target then
        (case remove_node b target of Some s \<Rightarrow> Some (Split d r a s) | None \<Rightarrow> Some a)
      else Some (Split d r a b))"


fun set_ratio_at :: "LayoutNode \<Rightarrow> bool list \<Rightarrow> f32 \<Rightarrow> LayoutNode" where
  "set_ratio_at (Leaf i) path ratio = Leaf i"
| "set_ratio_at (Split d r a b) path ratio =
     (if \<not> f32_is_finite ratio then Split d r a b
      else case path of
        [] \<Rightarrow> Split d (f32_clamp f32_min_ratio f32_max_ratio ratio) a b
      | p # ps \<Rightarrow> if \<not> p then Split d r (set_ratio_at a ps ratio) b
                 else Split d r a (set_ratio_at b ps ratio))"

fun adjust_ratio_at :: "LayoutNode \<Rightarrow> bool list \<Rightarrow> f32 \<Rightarrow> LayoutNode" where
  "adjust_ratio_at (Leaf i) path delta = Leaf i"
| "adjust_ratio_at (Split d r a b) path delta =
     (case path of
        [] \<Rightarrow> Split d (f32_clamp f32_min_ratio f32_max_ratio (f32_add r delta)) a b
      | p # ps \<Rightarrow> if \<not> p then Split d r (adjust_ratio_at a ps delta) b
                 else Split d r a (adjust_ratio_at b ps delta))"

text \<open>
  The search for a pane that records, on the way back from the leaf, every split above it with
  the side the pane is on. The two vectors the source pushes to and pops from are threaded.
\<close>

fun collect_path_to_pane ::
  "LayoutNode \<Rightarrow> nat \<Rightarrow> bool list \<Rightarrow> (bool list \<times> Direction \<times> bool) list
     \<Rightarrow> bool \<times> bool list \<times> (bool list \<times> Direction \<times> bool) list" where
  "collect_path_to_pane (Leaf i) target path crumbs = (i = target, path, crumbs)"
| "collect_path_to_pane (Split d _ a b) target path crumbs =
     (let path_here = path;
          (found, p1, c1) = collect_path_to_pane a target (path @ [False]) crumbs
      in if found then (True, butlast p1, c1 @ [(path_here, d, False)])
         else let (found', p2, c2) = collect_path_to_pane b target (butlast p1 @ [True]) c1
              in if found' then (True, butlast p2, c2 @ [(path_here, d, True)])
                 else (False, butlast p2, c2))"

section \<open>Operations on a layout\<close>

definition pane_ids :: "Layout \<Rightarrow> nat list" where
  "pane_ids l = collect_ids (root l) []"

definition pane_count :: "Layout \<Rightarrow> nat" where
  "pane_count l = count_leaves (root l)"

definition equalize :: "Layout \<Rightarrow> Layout" where
  "equalize l = l\<lparr>root := equalize_node (root l)\<rparr>"

definition layout_split :: "Layout \<Rightarrow> nat \<Rightarrow> Direction \<Rightarrow> nat \<times> Layout" where
  "layout_split l target dir =
     (let new_id = next_id l
      in (new_id, equalize (l\<lparr>root := split_node (root l) target new_id dir,
                              next_id := next_id l + 1\<rparr>)))"

definition layout_remove :: "Layout \<Rightarrow> nat \<Rightarrow> bool \<times> Layout" where
  "layout_remove l target =
     (if pane_count l \<le> 1 \<or> \<not> contains (root l) target then (False, l)
      else case remove_node (root l) target of
        Some new_root \<Rightarrow> (True, l\<lparr>root := new_root\<rparr>)
      | None \<Rightarrow> (False, l\<lparr>root := Leaf 0\<rparr>))"

definition singleton :: "nat \<Rightarrow> nat \<Rightarrow> Layout" where
  "singleton pane_id next_id_hint = \<lparr>root = Leaf pane_id, next_id = max next_id_hint (pane_id + 1)\<rparr>"

definition detach_leaf :: "Layout \<Rightarrow> nat \<Rightarrow> nat option \<times> Layout" where
  "detach_leaf l target =
     (if pane_count l \<le> 1 then (None, l)
      else if \<not> contains (root l) target then (None, l)
      else case remove_node (root l) target of
        Some new_root \<Rightarrow> (Some target, l\<lparr>root := new_root\<rparr>)
      | None \<Rightarrow> (None, l\<lparr>root := Leaf 0\<rparr>))"

definition detach_sole_leaf :: "Layout \<Rightarrow> nat \<Rightarrow> nat option" where
  "detach_sole_leaf l target =
     (if pane_count l \<noteq> 1 then None
      else case root l of Leaf i \<Rightarrow> (if i = target then Some target else None) | _ \<Rightarrow> None)"

definition attach_pane :: "Layout \<Rightarrow> nat \<Rightarrow> nat \<Rightarrow> Direction \<Rightarrow> bool \<times> Layout" where
  "attach_pane l anchor incoming dir =
     (if \<not> contains (root l) anchor then (False, l)
      else if contains (root l) incoming then (False, l)
      else (True, equalize (l\<lparr>root := split_node (root l) anchor incoming dir,
              next_id := (if next_id l \<le> incoming then incoming + 1 else next_id l)\<rparr>)))"

definition contains_pane :: "Layout \<Rightarrow> nat \<Rightarrow> bool" where
  "contains_pane l i = contains (root l) i"



text \<open>\<open>ids.iter().position(|&id| id == current).unwrap_or(0)\<close>.\<close>

fun position :: "nat \<Rightarrow> nat list \<Rightarrow> nat option" where
  "position x [] = None"
| "position x (y # ys) = (if y = x then Some 0 else map_option Suc (position x ys))"

definition next_pane :: "Layout \<Rightarrow> nat \<Rightarrow> nat" where
  "next_pane l current =
     (let ids = pane_ids l
      in if ids = [] then current
         else let pos = (case position current ids of Some p \<Rightarrow> p | None \<Rightarrow> 0)
              in ids ! ((pos + 1) mod length ids))"

definition prev_pane :: "Layout \<Rightarrow> nat \<Rightarrow> nat" where
  "prev_pane l current =
     (let ids = pane_ids l
      in if ids = [] then current
         else let pos = (case position current ids of Some p \<Rightarrow> p | None \<Rightarrow> 0)
              in if pos = 0 then ids ! (length ids - 1) else ids ! (pos - 1))"

definition resize_pane :: "Layout \<Rightarrow> nat \<Rightarrow> NavDir \<Rightarrow> f32 \<Rightarrow> bool \<times> Layout" where
  "resize_pane l pane dir delta =
     (if \<not> f32_is_finite delta then (False, l)
      else
        let (_, _, crumbs) = collect_path_to_pane (root l) pane [] [];
            target_dir = (case dir of NLeft \<Rightarrow> Horizontal | NRight \<Rightarrow> Horizontal
                                    | NUp \<Rightarrow> Vertical | NDown \<Rightarrow> Vertical);
            need_in_second = (dir = NLeft \<or> dir = NUp)
        in case find (\<lambda>(_, d, in_second). d = target_dir \<and> in_second = need_in_second) crumbs of
             None \<Rightarrow> (False, l)
           | Some (path, _, _) \<Rightarrow>
               let sign = (if need_in_second then Fin (- 1) 0 else Fin 1 0)
               in (True, l\<lparr>root := adjust_ratio_at (root l) path (f32_mul delta sign)\<rparr>))"

section \<open>The reading of a tree as a list\<close>

text \<open>The abstract view of a layout is the list of its pane ids from left to right and top to
  bottom; every operation is a list operation on it.\<close>

fun leaves :: "LayoutNode \<Rightarrow> nat list" where
  "leaves (Leaf i) = [i]"
| "leaves (Split _ _ a b) = leaves a @ leaves b"

lemma leaves_nonempty [simp]: "leaves t \<noteq> []"
  by (induction t) auto

lemma collect_ids_eq: "collect_ids t ids = ids @ leaves t"
  by (induction t arbitrary: ids) auto

lemma pane_ids_eq: "pane_ids l = leaves (root l)"
  by (simp add: pane_ids_def collect_ids_eq)

lemma count_leaves_eq: "count_leaves t = length (leaves t)"
  by (induction t) auto

lemma count_leaves_pos [simp]: "0 < count_leaves t"
  by (simp add: count_leaves_eq)

lemma contains_iff: "contains t x \<longleftrightarrow> x \<in> set (leaves t)"
  by (induction t) auto

lemma leaves_equalize [simp]: "leaves (equalize_node t) = leaves t"
  by (induction t) (auto simp: Let_def)

lemma leaves_split_node:
  "leaves (split_node t x n d) = concat (map (\<lambda>i. if i = x then [i, n] else [i]) (leaves t))"
  by (induction t) auto

text \<open>In a list without repetitions, splitting inserts the new id right after its target.\<close>

fun insert_after :: "nat \<Rightarrow> nat \<Rightarrow> nat list \<Rightarrow> nat list" where
  "insert_after x n [] = []"
| "insert_after x n (y # ys) = (if y = x then y # n # ys else y # insert_after x n ys)"

lemma concat_no_target: "x \<notin> set xs \<Longrightarrow> concat (map (\<lambda>i. if i = x then [i, n] else [i]) xs) = xs"
  by (induction xs) auto

lemma concat_insert_after:
  "distinct xs \<Longrightarrow> concat (map (\<lambda>i. if i = x then [i, n] else [i]) xs) = insert_after x n xs"
  by (induction xs) (auto simp: concat_no_target)

lemma set_insert_after:
  "set (insert_after x n xs) = (if x \<in> set xs then insert n (set xs) else set xs)"
  by (induction xs) auto


lemma insert_after_notin: "x \<notin> set xs \<Longrightarrow> insert_after x n xs = xs"
  by (induction xs) auto

lemma remove1_insert_after: "n \<notin> set xs \<Longrightarrow> remove1 n (insert_after x n xs) = xs"
  by (induction xs) auto

lemma remove_node_None: "remove_node t x = None \<longleftrightarrow> t = Leaf x"
  by (induction t) (auto split: option.splits)

lemma remove_node_Some: "remove_node t x = Some t' \<Longrightarrow> leaves t' = remove1 x (leaves t)"
proof (induction t arbitrary: t')
  case (Split d r a b)
  then show ?case
    by (auto simp: remove1_append contains_iff remove1_idem remove_node_None
        split: if_splits option.splits)
qed (auto split: if_splits)


lemma leaves_set_ratio [simp]: "leaves (set_ratio_at t p r) = leaves t"
  by (induction t p r rule: set_ratio_at.induct) (auto split: list.split)

lemma leaves_adjust_ratio [simp]: "leaves (adjust_ratio_at t p r) = leaves t"
  by (induction t p r rule: adjust_ratio_at.induct) (auto split: list.split)

section \<open>Construction\<close>

lemma build_row_leaves:
  "build_row cols nid = (t, nid') \<Longrightarrow> leaves t = [nid..<nid + max cols 1] \<and> nid' = nid + max cols 1"
proof (induction cols nid arbitrary: t nid' rule: build_row.induct)
  case (1 cols nid)
  show ?case
  proof (cases "cols \<le> 1")
    case False
    then obtain rest k where r: "build_row (cols - 1) (nid + 1) = (rest, k)" by fastforce
    with False 1 have "leaves rest = [nid + 1..<nid + cols]" "k = nid + cols" by auto
    with False r "1.prems" show ?thesis by (subst (asm) build_row.simps) (auto simp: upt_conv_Cons)
  qed (use "1.prems" in \<open>subst (asm) build_row.simps, auto\<close>)
qed

lemma build_grid_leaves:
  "build_grid rows cols nid = (t, nid') \<Longrightarrow>
     leaves t = [nid..<nid + max rows 1 * max cols 1] \<and> nid' = nid + max rows 1 * max cols 1"
proof (induction rows cols nid arbitrary: t nid' rule: build_grid.induct)
  case (1 rows cols nid)
  show ?case
  proof (cases "rows \<le> 1")
    case True
    with "1.prems" have "build_row cols nid = (t, nid')" by (subst (asm) build_grid.simps) auto
    with True build_row_leaves show ?thesis by fastforce
  next
    case False
    obtain a k where a: "build_row cols nid = (a, k)" by fastforce
    obtain b k' where b: "build_grid (rows - 1) cols k = (b, k')" by fastforce
    have k: "leaves a = [nid..<nid + max cols 1]" "k = nid + max cols 1"
      using build_row_leaves[OF a] by auto
    have "leaves b = [k..<k + (rows - 1) * max cols 1]" "k' = k + (rows - 1) * max cols 1"
      using "1.IH"[OF False a[symmetric] refl b] False by auto
    moreover have "rows * max cols 1 = max cols 1 + (rows - 1) * max cols 1"
      using False by (cases rows) auto
    moreover have "t = Split Vertical (f32_div (Fin 1 0) (f32_of_nat rows)) a b" "nid' = k'"
      using False a b "1.prems" by (auto simp: build_grid.simps[of rows])
    moreover have "[nid..<nid + (m + p)] = [nid..<nid + m] @ [nid + m..<nid + m + p]" for m p
      using upt_add_eq_append[of nid "nid + m" p] by (simp add: add.assoc)
    ultimately show ?thesis using False k by (simp add: add.assoc max_absorb1)
  qed
qed

section \<open>The layout invariant\<close>

text \<open>Pane ids are pairwise different, and the counter is above all of them, so the id the next
  split mints is new.\<close>

definition wf_layout :: "Layout \<Rightarrow> bool" where
  "wf_layout l \<longleftrightarrow> distinct (pane_ids l) \<and> (\<forall>i \<in> set (pane_ids l). i < next_id l)"

lemma root_equalize [simp]: "root (equalize l) = equalize_node (root l)"
  and next_id_equalize [simp]: "next_id (equalize l) = next_id l"
  by (simp_all add: equalize_def)

lemma wf_from_grid: "wf_layout (from_grid rows cols)"
proof -
  obtain t k where "build_grid (max rows 1) (max cols 1) 0 = (t, k)" by fastforce
  with build_grid_leaves[OF this] show ?thesis
    by (auto simp: wf_layout_def from_grid_def pane_ids_eq Let_def)
qed

lemma wf_singleton: "wf_layout (singleton i h)"
  by (simp add: wf_layout_def singleton_def pane_ids_eq)

lemma layout_split_ids:
  assumes "distinct (pane_ids l)"
  shows "pane_ids (snd (layout_split l x d)) = insert_after x (next_id l) (pane_ids l)"
  using assms by (simp add: layout_split_def Let_def pane_ids_eq leaves_split_node concat_insert_after)


lemma layout_remove_unfold:
  "layout_remove l x =
     (if pane_count l \<le> 1 \<or> \<not> contains (root l) x then (False, l)
      else (True, l\<lparr>root := the (remove_node (root l) x)\<rparr>))"
  by (cases "root l") (auto simp: layout_remove_def pane_count_def remove_node_None
      split: option.split)



lemma next_id_remove [simp]: "next_id (snd (layout_remove l x)) = next_id l"
  by (simp add: layout_remove_unfold)








section \<open>Commands on a layout\<close>





section \<open>Keyboard resize\<close>

text \<open>
  What a resize means, by direct recursion: of the splits above the pane that run along the
  wanted axis with the pane on the wanted side, the deepest one gets a new ratio.
\<close>

fun resize_deepest :: "LayoutNode \<Rightarrow> nat \<Rightarrow> Direction \<Rightarrow> bool \<Rightarrow> (f32 \<Rightarrow> f32) \<Rightarrow> LayoutNode option" where
  "resize_deepest (Leaf i) x d side f = None"
| "resize_deepest (Split d' r a b) x d side f =
     (if contains a x then
        (case resize_deepest a x d side f of
           Some a' \<Rightarrow> Some (Split d' r a' b)
         | None \<Rightarrow> if d' = d \<and> \<not> side then Some (Split d' (f r) a b) else None)
      else if contains b x then
        (case resize_deepest b x d side f of
           Some b' \<Rightarrow> Some (Split d' r a b')
         | None \<Rightarrow> if d' = d \<and> side then Some (Split d' (f r) a b) else None)
      else None)"

text \<open>The splits above a pane, deepest first, each with its path, axis and side.\<close>

fun crumbs_above :: "LayoutNode \<Rightarrow> nat \<Rightarrow> bool list \<Rightarrow> (bool list \<times> Direction \<times> bool) list" where
  "crumbs_above (Leaf i) x p = []"
| "crumbs_above (Split d r a b) x p =
     (if contains a x then crumbs_above a x (p @ [False]) @ [(p, d, False)]
      else if contains b x then crumbs_above b x (p @ [True]) @ [(p, d, True)] else [])"

lemma crumbs_above_none: "\<not> contains t x \<Longrightarrow> crumbs_above t x p = []"
  by (cases t) auto

lemma collect_path_eq:
  "collect_path_to_pane t x p c = (contains t x, p, c @ crumbs_above t x p)"
  by (induction t arbitrary: p c) (auto simp: crumbs_above_none)

lemma crumbs_above_shift:
  "crumbs_above t x (p @ q) = map (\<lambda>(r, d, s). (p @ r, d, s)) (crumbs_above t x q)"
  by (induction t arbitrary: q) auto

definition crumb_match :: "Direction \<Rightarrow> bool \<Rightarrow> bool list \<times> Direction \<times> bool \<Rightarrow> bool" where
  "crumb_match d side c = (fst (snd c) = d \<and> snd (snd c) = side)"

definition crumb_shift :: "bool \<Rightarrow> bool list \<times> Direction \<times> bool \<Rightarrow> bool list \<times> Direction \<times> bool" where
  "crumb_shift p c = (p # fst c, snd c)"

lemma crumbs_above_shift1: "crumbs_above t x [p] = map (crumb_shift p) (crumbs_above t x [])"
  using crumbs_above_shift[of t x "[p]" "[]"] by (simp add: crumb_shift_def case_prod_unfold)

lemma crumb_match_shift [simp]: "crumb_match d side (crumb_shift p c) = crumb_match d side c"
  by (simp add: crumb_match_def crumb_shift_def)

lemma find_map_shift:
  "find (crumb_match d side) (map (crumb_shift p) cs) = map_option (crumb_shift p) (find (crumb_match d side) cs)"
  by (induction cs) auto

lemma find_append: "find P (xs @ ys) = (case find P xs of None \<Rightarrow> find P ys | Some x \<Rightarrow> Some x)"
  by (induction xs) auto

definition deepest_crumb ::
  "LayoutNode \<Rightarrow> nat \<Rightarrow> Direction \<Rightarrow> bool \<Rightarrow> (bool list \<times> Direction \<times> bool) option" where
  "deepest_crumb t x d side = find (crumb_match d side) (crumbs_above t x [])"

lemma deepest_crumb_Split:
  "deepest_crumb (Split d' r a b) x d side =
     (if contains a x then
        (case deepest_crumb a x d side of
           Some c \<Rightarrow> Some (crumb_shift False c)
         | None \<Rightarrow> if d' = d \<and> \<not> side then Some ([], d', False) else None)
      else if contains b x then
        (case deepest_crumb b x d side of
           Some c \<Rightarrow> Some (crumb_shift True c)
         | None \<Rightarrow> if d' = d \<and> side then Some ([], d', True) else None)
      else None)"
  unfolding deepest_crumb_def
  by (simp add: find_append find_map_shift crumbs_above_shift1 crumb_match_def split: option.split)

lemma resize_deepest_eq:
  "resize_deepest t x d side (\<lambda>r. f32_clamp f32_min_ratio f32_max_ratio (f32_add r delta)) =
     map_option (\<lambda>c. adjust_ratio_at t (fst c) delta) (deepest_crumb t x d side)"
proof (induction t)
  case (Leaf i)
  then show ?case by (simp add: deepest_crumb_def)
next
  case (Split d' r a b)
  show ?case
    by (cases "contains a x"; cases "contains b x")
      (auto simp: deepest_crumb_Split Split.IH crumb_shift_def split: option.split)
qed

definition axis_of :: "NavDir \<Rightarrow> Direction" where
  "axis_of dir = (if dir = NLeft \<or> dir = NRight then Horizontal else Vertical)"

section \<open>Cycling\<close>

lemma position_nth: "distinct xs \<Longrightarrow> i < length xs \<Longrightarrow> position (xs ! i) xs = Some i"
  by (induction xs arbitrary: i) (auto simp: nth_Cons split: nat.splits)

lemma next_pane_nth:
  assumes "wf_layout l" "i < length (pane_ids l)"
  shows "next_pane l (pane_ids l ! i) = pane_ids l ! ((i + 1) mod length (pane_ids l))"
  using assms by (auto simp: next_pane_def Let_def position_nth wf_layout_def)

lemma prev_pane_nth:
  assumes "wf_layout l" "i < length (pane_ids l)"
  shows "prev_pane l (pane_ids l ! i) =
    pane_ids l ! ((i + length (pane_ids l) - 1) mod length (pane_ids l))"
proof (cases i)
  case (Suc j)
  with assms show ?thesis by (auto simp: prev_pane_def Let_def position_nth wf_layout_def)
qed (use assms in \<open>auto simp: prev_pane_def Let_def position_nth wf_layout_def\<close>)

lemma next_pane_funpow:
  assumes "wf_layout l" "i < length (pane_ids l)"
  shows "(next_pane l ^^ k) (pane_ids l ! i) = pane_ids l ! ((i + k) mod length (pane_ids l))"
proof (induction k)
  case (Suc k)
  have "(i + k) mod length (pane_ids l) < length (pane_ids l)" using assms(2) by (auto intro: mod_less_divisor)
  with Suc next_pane_nth[OF assms(1)] show ?case by (simp add: mod_Suc_eq)
qed (use assms in simp)

section \<open>Break and join\<close>

fun erase_ratios :: "LayoutNode \<Rightarrow> LayoutNode" where
  "erase_ratios (Leaf i) = Leaf i"
| "erase_ratios (Split d r a b) = Split d f32_half (erase_ratios a) (erase_ratios b)"

lemma erase_equalize [simp]: "erase_ratios (equalize_node t) = erase_ratios t"
  by (induction t) (auto simp: Let_def)

lemma erase_remove: "map_option erase_ratios (remove_node t x) = remove_node (erase_ratios t) x"
proof (induction t)
  case (Split d r a b)
  have c: "contains (erase_ratios t) x = contains t x" for t by (induction t) auto
  show ?case using Split by (auto simp: c split: option.splits)
qed auto

lemma split_node_notin: "x \<notin> set (leaves t) \<Longrightarrow> split_node t x n d = t"
  by (induction t) auto

lemma remove_split_node:
  assumes "distinct (leaves t)" "x \<in> set (leaves t)" "n \<notin> set (leaves t)"
  shows "remove_node (split_node t x n d) n = Some t"
  using assms
proof (induction t)
  case (Split d' r a b)
  have s: "n \<in> set (leaves (split_node c x n d)) \<longleftrightarrow> x \<in> set (leaves c)" if "n \<notin> set (leaves c)" for c
    using that by (auto simp: leaves_split_node split: if_splits)
  from Split.prems consider "x \<in> set (leaves a)" "x \<notin> set (leaves b)"
    | "x \<in> set (leaves b)" "x \<notin> set (leaves a)" by auto
  then show ?case
    using Split by cases (auto simp: contains_iff s split_node_notin)
qed auto

section \<open>Properties\<close>



text \<open>Splitting a pane mints an id that was not in use and places it directly after the
  pane that was split; every other pane keeps its place.\<close>

theorem layout_split_fresh:
  assumes "wf_layout l" "x \<in> set (pane_ids l)"
  shows "fst (layout_split l x d) \<notin> set (pane_ids l) \<and>
    pane_ids (snd (layout_split l x d)) = insert_after x (fst (layout_split l x d)) (pane_ids l) \<and>
    set (pane_ids (snd (layout_split l x d))) = insert (fst (layout_split l x d)) (set (pane_ids l))"
proof -
  have d: "distinct (pane_ids l)" and n: "next_id l \<notin> set (pane_ids l)"
    and f: "fst (layout_split l x d) = next_id l"
    using assms(1) by (auto simp: wf_layout_def layout_split_def Let_def)
  from n f assms(2) show ?thesis by (simp add: layout_split_ids[OF d] set_insert_after)
qed

theorem layout_split_fresh_witness:
  "fst (layout_split (from_grid 1 2) 0 Vertical) \<notin> set (pane_ids (from_grid 1 2)) \<and>
   pane_ids (snd (layout_split (from_grid 1 2) 0 Vertical)) = [0, 2, 1]"
proof -
  have x: "0 \<in> set (pane_ids (from_grid 1 2))" by code_simp
  have e: "insert_after 0 (fst (layout_split (from_grid 1 2) 0 Vertical)) (pane_ids (from_grid 1 2))
      = [0, 2, 1]" by code_simp
  show ?thesis using layout_split_fresh[OF wf_from_grid x, of Vertical] e by simp
qed

text \<open>Breaking a pane out of a layout that it was just joined to gives back the tree as it
  was, up to the ratios the join equalised.\<close>

theorem attach_detach:
  assumes "wf_layout l" "attach_pane l anchor incoming dir = (True, l')"
  shows "fst (detach_leaf l' incoming) = Some incoming \<and>
    erase_ratios (root (snd (detach_leaf l' incoming))) = erase_ratios (root l) \<and>
    pane_ids (snd (detach_leaf l' incoming)) = pane_ids l"
proof (intro conjI)
  have c: "anchor \<in> set (leaves (root l))" "incoming \<notin> set (leaves (root l))"
    and r: "root l' = equalize_node (split_node (root l) anchor incoming dir)"
    using assms(2) by (auto simp: attach_pane_def contains_iff split: if_splits)
  have d: "distinct (leaves (root l))" using assms(1) by (simp add: wf_layout_def pane_ids_eq)
  have "remove_node (erase_ratios (root l')) incoming = Some (erase_ratios (root l))"
    using erase_remove[of "split_node (root l) anchor incoming dir" incoming]
      remove_split_node[OF d c] by (simp add: r)
  then obtain t where t: "remove_node (root l') incoming = Some t" "erase_ratios t = erase_ratios (root l)"
    using erase_remove[of "root l'" incoming] by (auto simp: map_option_eq_Some)
  have ids: "leaves (root l') = insert_after anchor incoming (leaves (root l))"
    using d by (simp add: r leaves_split_node concat_insert_after)
  have "length (insert_after a n xs) = (if a \<in> set xs then Suc (length xs) else length xs)"
    if "distinct xs" for a n and xs :: "nat list" using that by (induction xs) (auto simp: insert_after_notin)
  with ids d c(1) have "incoming \<in> set (leaves (root l'))" "1 < length (leaves (root l'))"
    by (auto simp: set_insert_after)
  then have det: "detach_leaf l' incoming = (Some incoming, l'\<lparr>root := t\<rparr>)"
    using t(1) by (simp add: detach_leaf_def pane_count_def count_leaves_eq contains_iff)
  then show "fst (detach_leaf l' incoming) = Some incoming" by simp
  show "erase_ratios (root (snd (detach_leaf l' incoming))) = erase_ratios (root l)"
    using det t(2) by simp
  show "pane_ids (snd (detach_leaf l' incoming)) = pane_ids l"
    using det remove_node_Some[OF t(1)] c(2) by (simp add: pane_ids_eq ids remove1_insert_after)
qed

theorem attach_detach_witness:
  "fst (detach_leaf (snd (attach_pane (from_grid 2 2) 1 7 Vertical)) 7) = Some 7 \<and>
   pane_ids (snd (detach_leaf (snd (attach_pane (from_grid 2 2) 1 7 Vertical)) 7)) =
     pane_ids (from_grid 2 2)"
proof -
  have "fst (attach_pane (from_grid 2 2) 1 7 Vertical)" by code_simp
  then have "attach_pane (from_grid 2 2) 1 7 Vertical =
      (True, snd (attach_pane (from_grid 2 2) 1 7 Vertical))" by (simp add: prod_eq_iff)
  from attach_detach[OF wf_from_grid this] show ?thesis by blast
qed

text \<open>C11. A keyboard resize changes one ratio: that of the deepest split above the pane that
  runs along the wanted axis with the pane on the wanted side, clamped to the allowed range;
  the breadcrumb search of the code computes exactly this recursion.\<close>

theorem resize_pane_deepest:
  "resize_pane l x dir delta =
     (let second = (dir = NLeft \<or> dir = NUp);
          step = f32_mul delta (if second then Fin (- 1) 0 else Fin 1 0)
      in if \<not> f32_is_finite delta then (False, l)
         else case resize_deepest (root l) x (axis_of dir) second
                     (\<lambda>r. f32_clamp f32_min_ratio f32_max_ratio (f32_add r step)) of
                None \<Rightarrow> (False, l)
              | Some t \<Rightarrow> (True, l\<lparr>root := t\<rparr>))"
proof -
  have d: "(case dir of NLeft \<Rightarrow> Horizontal | NRight \<Rightarrow> Horizontal | NUp \<Rightarrow> Vertical | NDown \<Rightarrow> Vertical)
      = axis_of dir" by (cases dir) (auto simp: axis_of_def)
  have m: "(\<lambda>(_, d, s). d = axis_of dir \<and> s = second) = crumb_match (axis_of dir) second" for second
    by (auto simp: crumb_match_def fun_eq_iff)
  show ?thesis
    unfolding resize_pane_def Let_def d m resize_deepest_eq deepest_crumb_def collect_path_eq
    by (auto split: option.split)
qed

text \<open>Cycling forward and backward through the panes are inverse, and cycling forward
  visits every pane.\<close>

theorem cycling_panes:
  assumes "wf_layout l" "x \<in> set (pane_ids l)"
  shows "prev_pane l (next_pane l x) = x \<and> next_pane l (prev_pane l x) = x \<and>
    set (map (\<lambda>k. (next_pane l ^^ k) x) [0..<pane_count l]) = set (pane_ids l)"
proof (intro conjI)
  define n where "n = length (pane_ids l)"
  obtain i where i: "x = pane_ids l ! i" "i < n" using assms(2) by (auto simp: in_set_conv_nth n_def)
  then have n: "0 < n" by simp
  have m: "k mod n < n" for k using n by simp
  have "((i + 1) mod n + n - 1) mod n = i"
    using i n by (cases "i + 1 = n") auto
  with i m show "prev_pane l (next_pane l x) = x"
    using next_pane_nth[OF assms(1)] prev_pane_nth[OF assms(1), of "(i + 1) mod n"]
    by (simp flip: n_def)
  have "((i + n - 1) mod n + 1) mod n = i"
    using i n by (simp add: mod_Suc_eq)
  with i m show "next_pane l (prev_pane l x) = x"
    using prev_pane_nth[OF assms(1)] next_pane_nth[OF assms(1), of "(i + n - 1) mod n"]
    by (simp flip: n_def)
  show "set (map (\<lambda>k. (next_pane l ^^ k) x) [0..<pane_count l]) = set (pane_ids l)"
  proof (intro equalityI subsetI)
    fix y assume "y \<in> set (pane_ids l)"
    then obtain j where j: "y = pane_ids l ! j" "j < n" by (auto simp: in_set_conv_nth n_def)
    define k where "k = (if i \<le> j then j - i else j + n - i)"
    have "k < n" "(i + k) mod n = j" using i(2) j(2) by (auto simp: k_def)
    then have "y = (next_pane l ^^ k) x" using next_pane_funpow[OF assms(1)] i j by (simp add: n_def)
    with \<open>k < n\<close> show "y \<in> set (map (\<lambda>k. (next_pane l ^^ k) x) [0..<pane_count l])"
      by (auto simp: pane_count_def count_leaves_eq n_def pane_ids_eq)
  qed (use i m in \<open>auto simp: next_pane_funpow[OF assms(1)] n_def\<close>)
qed

theorem cycling_panes_witness:
  "prev_pane (from_grid 2 2) (next_pane (from_grid 2 2) 3) = 3 \<and>
   next_pane (from_grid 2 2) 3 = 0"
proof -
  have x: "3 \<in> set (pane_ids (from_grid 2 2))" by code_simp
  have "next_pane (from_grid 2 2) 3 = 0" by code_simp
  with cycling_panes[OF wf_from_grid x] show ?thesis by blast
qed

end
