(* ===== verification/LayoutGeom.thy ===== *)
theory LayoutGeom
  imports LayoutTree "HOL-Library.AList"
begin

text \<open>
  The geometry of \<open>src/src/layout.rs\<close>: how a tree of splits divides a rectangle of terminal
  cells, where the separator lines run, which pane or separator lies under a cell, and
  navigation by direction. Coordinates are \<open>u16\<close> in the source and naturals here;
  \<open>split_area_fits\<close> and \<open>leaf_rects_inside\<close> show that every sum the code forms stays within
  \<open>u16\<close>, so the two agree.
\<close>

section \<open>Rectangles\<close>

record Rect =
  rx :: nat
  ry :: nat
  rw :: nat
  rh :: nat

definition clipped :: "Rect \<Rightarrow> Rect" where
  "clipped r = r\<lparr>rw := min (rw r) (u16_max - rx r), rh := min (rh r) (u16_max - ry r)\<rparr>"

definition rect_contains :: "Rect \<Rightarrow> nat \<Rightarrow> nat \<Rightarrow> bool" where
  "rect_contains r x y \<longleftrightarrow> rx r \<le> x \<and> x - rx r < rw r \<and> ry r \<le> y \<and> y - ry r < rh r"

text \<open>Rounding of a share of \<open>n\<close> cells: slots of pane plus separator are allocated, then the
  trailing gap is removed.\<close>

definition split_share :: "nat \<Rightarrow> f32 \<Rightarrow> nat" where
  "split_share n ratio =
     clamp_nat 1 (n - 1 - 1)
       (sat_sub (f32_to_u16 (f32_round_int (f32_mul (f32_add (f32_of_nat n) (Fin 1 0)) ratio))) 1)"

definition split_area :: "Rect \<Rightarrow> Direction \<Rightarrow> f32 \<Rightarrow> Rect \<times> Rect" where
  "split_area area0 dir ratio0 =
     (let area = clipped area0;
          ratio = (if f32_is_finite ratio0 then ratio0 else f32_half)
      in case dir of
        Horizontal \<Rightarrow>
          (let usable = sat_sub (rw area) 1
           in if usable < 2 then (area, area\<lparr>rw := 0\<rparr>)
              else let fw = split_share (rw area) ratio; sw = usable - fw
                   in (area\<lparr>rw := fw\<rparr>, area\<lparr>rx := rx area + fw + 1, rw := sw\<rparr>))
      | Vertical \<Rightarrow>
          (let usable = sat_sub (rh area) 1
           in if usable < 2 then (area, area\<lparr>rh := 0\<rparr>)
              else let fh = split_share (rh area) ratio; sh = usable - fh
                   in (area\<lparr>rh := fh\<rparr>, area\<lparr>ry := ry area + fh + 1, rh := sh\<rparr>)))"

text \<open>The hash map of the source is an association list; \<^const>\<open>AList.update\<close> is its \<open>insert\<close>.\<close>

fun collect_rects :: "LayoutNode \<Rightarrow> Rect \<Rightarrow> (nat \<times> Rect) list \<Rightarrow> (nat \<times> Rect) list" where
  "collect_rects (Leaf i) area out = AList.update i area out"
| "collect_rects (Split d r a b) area out =
     (let (a1, a2) = split_area area d r in collect_rects b a2 (collect_rects a a1 out))"

definition pane_rects :: "Layout \<Rightarrow> Rect \<Rightarrow> (nat \<times> Rect) list" where
  "pane_rects l inner = collect_rects (root l) (clipped inner) []"

fun find_at_node :: "LayoutNode \<Rightarrow> nat \<Rightarrow> nat \<Rightarrow> Rect \<Rightarrow> nat option" where
  "find_at_node (Leaf i) x y area = (if rect_contains area x y then Some i else None)"
| "find_at_node (Split d r a b) x y area =
     (let (a1, a2) = split_area area d r
      in case find_at_node a x y a1 of Some i \<Rightarrow> Some i | None \<Rightarrow> find_at_node b x y a2)"

definition find_at :: "Layout \<Rightarrow> nat \<Rightarrow> nat \<Rightarrow> Rect \<Rightarrow> nat option" where
  "find_at l x y inner = find_at_node (root l) x y (clipped inner)"

section \<open>Separators\<close>

record SepLine =
  horizontal :: bool
  sx :: nat
  sy :: nat
  slength :: nat

fun collect_seps :: "LayoutNode \<Rightarrow> Rect \<Rightarrow> Rect \<Rightarrow> SepLine list \<Rightarrow> SepLine list" where
  "collect_seps (Leaf i) area outer seps = seps"
| "collect_seps (Split d r a b) area outer seps =
     (if rw area = 0 \<or> rh area = 0 \<or> rw outer = 0 \<or> rh outer = 0 then seps
      else
        let (a1, a2) = split_area area d r;
            seps1 = (case d of
              Horizontal \<Rightarrow>
                if 0 < rw a2 \<and> rect_contains outer (rx a1 + rw a1) (ry area) then
                  let y0 = max (sat_sub (ry area) 1) (ry outer);
                      y1 = min (ry area + rh area) (ry outer + rh outer - 1)
                  in seps @ [\<lparr>horizontal = False, sx = rx a1 + rw a1, sy = y0,
                              slength = sat_sub y1 y0 + 1\<rparr>]
                else seps
            | Vertical \<Rightarrow>
                if 0 < rh a2 \<and> rect_contains outer (rx area) (ry a1 + rh a1) then
                  let x0 = max (sat_sub (rx area) 1) (rx outer);
                      x1 = min (rx area + rw area) (rx outer + rw outer - 1)
                  in seps @ [\<lparr>horizontal = True, sx = x0, sy = ry a1 + rh a1,
                              slength = sat_sub x1 x0 + 1\<rparr>]
                else seps)
        in collect_seps b a2 outer (collect_seps a a1 outer seps1))"

definition separators :: "Layout \<Rightarrow> Rect \<Rightarrow> Rect \<Rightarrow> SepLine list" where
  "separators l inner outer = collect_seps (root l) (clipped inner) (clipped outer) []"

text \<open>The cells a separator line covers.\<close>

definition sep_covers :: "SepLine \<Rightarrow> nat \<Rightarrow> nat \<Rightarrow> bool" where
  "sep_covers s x y \<longleftrightarrow>
     (if horizontal s then y = sy s \<and> sx s \<le> x \<and> x < sx s + slength s
      else x = sx s \<and> sy s \<le> y \<and> y < sy s + slength s)"

record SepHit =
  hit_path :: "bool list"
  hit_direction :: Direction
  hit_area :: Rect

text \<open>The path vector is passed down extended; the source pushes and pops, which restores it
  before the other child is searched.\<close>

fun find_sep_at :: "LayoutNode \<Rightarrow> nat \<Rightarrow> nat \<Rightarrow> Rect \<Rightarrow> bool list \<Rightarrow> SepHit option" where
  "find_sep_at (Leaf i) x y area path = None"
| "find_sep_at (Split d r a b) x y area path =
     (if \<not> rect_contains area x y then None
      else
        let (a1, a2) = split_area area d r;
            on_sep = (case d of
              Horizontal \<Rightarrow> 0 < rw a2 \<and>
                (let sep_x = rx a1 + rw a1
                 in sat_sub sep_x 1 \<le> x \<and> x \<le> sat_add sep_x 1 \<and>
                    ry area \<le> y \<and> y < ry area + rh area)
            | Vertical \<Rightarrow> 0 < rh a2 \<and>
                (let sep_y = ry a1 + rh a1
                 in sat_sub sep_y 1 \<le> y \<and> y \<le> sat_add sep_y 1 \<and>
                    rx area \<le> x \<and> x < rx area + rw area))
        in if on_sep then Some \<lparr>hit_path = path, hit_direction = d, hit_area = area\<rparr>
           else case find_sep_at a x y a1 (path @ [False]) of
             Some hit \<Rightarrow> Some hit
           | None \<Rightarrow> find_sep_at b x y a2 (path @ [True]))"

definition find_separator_at :: "Layout \<Rightarrow> nat \<Rightarrow> nat \<Rightarrow> Rect \<Rightarrow> SepHit option" where
  "find_separator_at l x y inner = find_sep_at (root l) x y (clipped inner) []"

section \<open>Navigation\<close>








section \<open>What one split does to an area\<close>

text \<open>The cells of a rectangle; a rectangle fits when its exclusive edges are representable.\<close>

definition cells :: "Rect \<Rightarrow> (nat \<times> nat) set" where
  "cells r = {(x, y). rect_contains r x y}"

definition fits :: "Rect \<Rightarrow> bool" where
  "fits r \<longleftrightarrow> rx r + rw r \<le> u16_max \<and> ry r + rh r \<le> u16_max"

lemma rect_contains_iff:
  "rect_contains r x y \<longleftrightarrow> rx r \<le> x \<and> x < rx r + rw r \<and> ry r \<le> y \<and> y < ry r + rh r"
  by (auto simp: rect_contains_def)

lemma clipped_fits [simp]: "fits r \<Longrightarrow> clipped r = r"
  by (cases r) (auto simp: clipped_def fits_def)

lemma fits_clipped [simp]: "rx r \<le> u16_max \<Longrightarrow> ry r \<le> u16_max \<Longrightarrow> fits (clipped r)"
  by (auto simp: clipped_def fits_def)

lemma split_share_bounds: "3 \<le> n \<Longrightarrow> 1 \<le> split_share n r \<and> split_share n r \<le> n - 2"
  by (auto simp: split_share_def clamp_nat_def)

text \<open>The two ways a split can go: one child gets a single share of the axis and a separator
  lies between, or the area is too small and the second child is empty.\<close>

lemma split_area_horizontal:
  assumes "fits area" "3 \<le> rw area"
  obtains fw where "1 \<le> fw" "fw + 2 \<le> rw area"
    "split_area area Horizontal r =
      (area\<lparr>rw := fw\<rparr>, area\<lparr>rx := rx area + fw + 1, rw := rw area - 1 - fw\<rparr>)"
proof -
  define ratio where "ratio = (if f32_is_finite r then r else f32_half)"
  have "1 \<le> split_share (rw area) ratio" "split_share (rw area) ratio + 2 \<le> rw area"
    using split_share_bounds[OF assms(2), of ratio] assms(2) by auto
  then show thesis
    using that[of "split_share (rw area) ratio"] assms
    by (simp add: split_area_def Let_def sat_sub_def flip: ratio_def)
qed

lemma split_area_vertical:
  assumes "fits area" "3 \<le> rh area"
  obtains fh where "1 \<le> fh" "fh + 2 \<le> rh area"
    "split_area area Vertical r =
      (area\<lparr>rh := fh\<rparr>, area\<lparr>ry := ry area + fh + 1, rh := rh area - 1 - fh\<rparr>)"
proof -
  define ratio where "ratio = (if f32_is_finite r then r else f32_half)"
  have "1 \<le> split_share (rh area) ratio" "split_share (rh area) ratio + 2 \<le> rh area"
    using split_share_bounds[OF assms(2), of ratio] assms(2) by auto
  then show thesis
    using that[of "split_share (rh area) ratio"] assms
    by (simp add: split_area_def Let_def sat_sub_def flip: ratio_def)
qed

lemma split_area_small:
  assumes "fits area"
  shows "rw area < 3 \<Longrightarrow> split_area area Horizontal r = (area, area\<lparr>rw := 0\<rparr>)"
    and "rh area < 3 \<Longrightarrow> split_area area Vertical r = (area, area\<lparr>rh := 0\<rparr>)"
  using assms by (auto simp: split_area_def Let_def sat_sub_def)

lemma split_area_cases:
  assumes "fits area" "split_area area d r = (a1, a2)"
  obtains (hsmall) "d = Horizontal" "rw area < 3" "a1 = area" "a2 = area\<lparr>rw := 0\<rparr>"
  | (vsmall) "d = Vertical" "rh area < 3" "a1 = area" "a2 = area\<lparr>rh := 0\<rparr>"
  | (hsplit) fw where "d = Horizontal" "3 \<le> rw area" "1 \<le> fw" "fw + 2 \<le> rw area"
      "a1 = area\<lparr>rw := fw\<rparr>" "a2 = area\<lparr>rx := rx area + fw + 1, rw := rw area - 1 - fw\<rparr>"
  | (vsplit) fh where "d = Vertical" "3 \<le> rh area" "1 \<le> fh" "fh + 2 \<le> rh area"
      "a1 = area\<lparr>rh := fh\<rparr>" "a2 = area\<lparr>ry := ry area + fh + 1, rh := rh area - 1 - fh\<rparr>"
proof (cases d)
  case Horizontal
  show thesis
  proof (cases "rw area < 3")
    case True
    then have "a1 = area" "a2 = area\<lparr>rw := 0\<rparr>"
      using split_area_small(1)[OF assms(1) True, of r] assms(2) Horizontal by auto
    then show thesis using hsmall Horizontal True by blast
  next
    case False
    then have "3 \<le> rw area" by simp
    then show thesis using split_area_horizontal[OF assms(1), of r] hsplit assms(2) Horizontal
      by (metis prod.inject)
  qed
next
  case Vertical
  show thesis
  proof (cases "rh area < 3")
    case True
    then have "a1 = area" "a2 = area\<lparr>rh := 0\<rparr>"
      using split_area_small(2)[OF assms(1) True, of r] assms(2) Vertical by auto
    then show thesis using vsmall Vertical True by blast
  next
    case False
    then have "3 \<le> rh area" by simp
    then show thesis using split_area_vertical[OF assms(1), of r] vsplit assms(2) Vertical
      by (metis prod.inject)
  qed
qed

text \<open>The gap between the two children: the column or row of the separator.\<close>

definition gap :: "Rect \<Rightarrow> Direction \<Rightarrow> f32 \<Rightarrow> (nat \<times> nat) set" where
  "gap area d r =
     (let (a1, a2) = split_area area d r
      in case d of
        Horizontal \<Rightarrow> {(x, y) \<in> cells area. 0 < rw a2 \<and> x = rx a1 + rw a1}
      | Vertical \<Rightarrow> {(x, y) \<in> cells area. 0 < rh a2 \<and> y = ry a1 + rh a1})"

lemma split_area_fits:
  assumes "fits area" "split_area area d r = (a1, a2)"
  shows "fits a1" "fits a2"
  using assms by (cases rule: split_area_cases; simp add: fits_def)+

text \<open>A split divides the cells of the area into the two children and the gap.\<close>

lemma split_area_partition:
  assumes "fits area" "split_area area d r = (a1, a2)"
  shows "cells area = cells a1 \<union> cells a2 \<union> gap area d r"
    and "cells a1 \<inter> cells a2 = {}" "(cells a1 \<union> cells a2) \<inter> gap area d r = {}"
  using assms(1,2)
  by (cases rule: split_area_cases; force simp: cells_def rect_contains_iff gap_def assms(2))+

lemma split_area_subset:
  assumes "fits area" "split_area area d r = (a1, a2)"
  shows "cells a1 \<subseteq> cells area" "cells a2 \<subseteq> cells area"
  using split_area_partition(1)[OF assms] by auto

section \<open>Pane rectangles\<close>

text \<open>The rectangles of the leaves in tree order, without the map in between.\<close>

fun leaf_rects :: "LayoutNode \<Rightarrow> Rect \<Rightarrow> (nat \<times> Rect) list" where
  "leaf_rects (Leaf i) area = [(i, area)]"
| "leaf_rects (Split d r a b) area =
     leaf_rects a (fst (split_area area d r)) @ leaf_rects b (snd (split_area area d r))"

lemma map_fst_leaf_rects [simp]: "map fst (leaf_rects t area) = leaves t"
  by (induction t arbitrary: area) auto

lemma set_leaves_leaf_rects: "set (leaves t) = fst ` set (leaf_rects t area)"
  by (metis list.set_map map_fst_leaf_rects)

lemma update_new: "i \<notin> fst ` set out \<Longrightarrow> AList.update i v out = out @ [(i, v)]"
  by (induction out) auto

lemma collect_rects_eq:
  "distinct (map fst out @ leaves t) \<Longrightarrow> collect_rects t area out = out @ leaf_rects t area"
proof (induction t arbitrary: area out)
  case (Leaf i)
  then show ?case by (simp add: update_new)
next
  case (Split d r a b)
  obtain a1 a2 where s: "split_area area d r = (a1, a2)" by fastforce
  have A: "collect_rects a a1 out = out @ leaf_rects a a1"
    using Split.prems by (intro Split.IH(1)) auto
  have "map fst (out @ leaf_rects a a1) @ leaves b = map fst out @ leaves (Split d r a b)"
    by simp
  with Split.prems have "distinct (map fst (out @ leaf_rects a a1) @ leaves b)" by (simp only:)
  then have "collect_rects b a2 (out @ leaf_rects a a1) = (out @ leaf_rects a a1) @ leaf_rects b a2"
    by (rule Split.IH(2))
  then show ?case by (simp add: s A)
qed

lemma pane_rects_eq:
  "distinct (pane_ids l) \<Longrightarrow> pane_rects l inner = leaf_rects (root l) (clipped inner)"
  by (simp add: pane_rects_def collect_rects_eq pane_ids_eq)

lemma leaf_rects_inside:
  "fits area \<Longrightarrow> (i, q) \<in> set (leaf_rects t area) \<Longrightarrow> fits q \<and> cells q \<subseteq> cells area"
proof (induction t arbitrary: area)
  case (Split d r a b)
  obtain a1 a2 where s: "split_area area d r = (a1, a2)" by fastforce
  note f = split_area_fits[OF Split.prems(1) s] split_area_subset[OF Split.prems(1) s]
  from Split.prems(2) s have "(i, q) \<in> set (leaf_rects a a1) \<or> (i, q) \<in> set (leaf_rects b a2)"
    by auto
  with Split.IH(1)[OF f(1)] Split.IH(2)[OF f(2)] f show ?case by blast
qed auto

lemma find_at_node_iff:
  "fits area \<Longrightarrow> distinct (leaves t) \<Longrightarrow>
     find_at_node t x y area = Some i \<longleftrightarrow> (\<exists>q. (i, q) \<in> set (leaf_rects t area) \<and> rect_contains q x y)"
proof (induction t arbitrary: area i)
  case (Split d r a b)
  obtain a1 a2 where s: "split_area area d r = (a1, a2)" by fastforce
  note f = split_area_fits[OF Split.prems(1) s]
  have IH: "find_at_node a x y a1 = Some j \<longleftrightarrow>
        (\<exists>q. (j, q) \<in> set (leaf_rects a a1) \<and> rect_contains q x y)"
      "find_at_node b x y a2 = Some j \<longleftrightarrow>
        (\<exists>q. (j, q) \<in> set (leaf_rects b a2) \<and> rect_contains q x y)" for j
    using Split.IH(1)[OF f(1), of j] Split.IH(2)[OF f(2), of j] Split.prems(2) by simp_all
  have A: "rect_contains a1 x y" if "(j, q) \<in> set (leaf_rects a a1)" "rect_contains q x y" for j q
    using leaf_rects_inside[OF f(1) that(1)] that(2) by (auto simp: cells_def)
  have B: "rect_contains a2 x y" if "(j, q) \<in> set (leaf_rects b a2)" "rect_contains q x y" for j q
    using leaf_rects_inside[OF f(2) that(1)] that(2) by (auto simp: cells_def)
  have D: "\<not> (rect_contains a1 x y \<and> rect_contains a2 x y)"
    using split_area_partition(2)[OF Split.prems(1) s] by (auto simp: cells_def)
  show ?case
  proof (cases "find_at_node a x y a1")
    case None
    with IH(1)[of i] have "\<not> (\<exists>q. (i, q) \<in> set (leaf_rects a a1) \<and> rect_contains q x y)" by simp
    then show ?thesis using None s IH(2)[of i] by auto
  next
    case (Some j)
    with IH A have "rect_contains a1 x y" by blast
    with D B have "\<not> (\<exists>q. (i, q) \<in> set (leaf_rects b a2) \<and> rect_contains q x y)" by blast
    then show ?thesis using Some s IH(1)[of i] by auto
  qed
qed auto

lemma leaf_rects_disjoint:
  assumes "fits area" "distinct (leaves t)"
    and "(i, p) \<in> set (leaf_rects t area)" "(j, q) \<in> set (leaf_rects t area)" "i \<noteq> j"
  shows "cells p \<inter> cells q = {}"
proof (rule ccontr)
  assume "cells p \<inter> cells q \<noteq> {}"
  then obtain x y where "rect_contains p x y" "rect_contains q x y" by (auto simp: cells_def)
  then have "find_at_node t x y area = Some i" "find_at_node t x y area = Some j"
    using find_at_node_iff[OF assms(1,2)] assms(3,4) by blast+
  with assms(5) show False by simp
qed

section \<open>Separator lines cover the gaps\<close>

text \<open>The line one split pushes, if any.\<close>

definition own_seps :: "Direction \<Rightarrow> Rect \<Rightarrow> Rect \<Rightarrow> Rect \<Rightarrow> Rect \<Rightarrow> SepLine list" where
  "own_seps d a1 a2 area outer =
     (case d of
        Horizontal \<Rightarrow>
          if 0 < rw a2 \<and> rect_contains outer (rx a1 + rw a1) (ry area) then
            [\<lparr>horizontal = False, sx = rx a1 + rw a1, sy = max (ry area - 1) (ry outer),
              slength = min (ry area + rh area) (ry outer + rh outer - 1)
                          - max (ry area - 1) (ry outer) + 1\<rparr>]
          else []
      | Vertical \<Rightarrow>
          if 0 < rh a2 \<and> rect_contains outer (rx area) (ry a1 + rh a1) then
            [\<lparr>horizontal = True, sx = max (rx area - 1) (rx outer), sy = ry a1 + rh a1,
              slength = min (rx area + rw area) (rx outer + rw outer - 1)
                          - max (rx area - 1) (rx outer) + 1\<rparr>]
          else [])"

lemma collect_seps_Split:
  assumes "split_area area d r = (a1, a2)" "cells area \<noteq> {}" "cells outer \<noteq> {}"
  shows "collect_seps (Split d r a b) area outer seps =
    collect_seps b a2 outer (collect_seps a a1 outer (seps @ own_seps d a1 a2 area outer))"
proof -
  have "rw area \<noteq> 0" "rh area \<noteq> 0" "rw outer \<noteq> 0" "rh outer \<noteq> 0"
    using assms(2,3) by (auto simp: cells_def rect_contains_iff)
  then show ?thesis
    using assms(1) by (cases d) (simp_all add: Let_def own_seps_def sat_sub_def)
qed

lemma collect_seps_grow: "set seps \<subseteq> set (collect_seps t area outer seps)"
proof (induction t arbitrary: area seps)
  case (Split d r a b)
  obtain a1 a2 where s: "split_area area d r = (a1, a2)" by fastforce
  have step: "set xs \<subseteq> set (collect_seps b a2 outer (collect_seps a a1 outer xs))" for xs
    using Split.IH(1)[of xs a1] Split.IH(2)[of "collect_seps a a1 outer xs" a2] by blast
  show ?case
  proof (cases "cells area = {} \<or> cells outer = {}")
    case True
    have e: "cells q = {} \<longleftrightarrow> rw q = 0 \<or> rh q = 0" for q
      by (auto simp: cells_def rect_contains_iff) (metis add.right_neutral le_refl nat_add_left_cancel_less neq0_conv)
    with True have "rw area = 0 \<or> rh area = 0 \<or> rw outer = 0 \<or> rh outer = 0" by auto
    then show ?thesis by auto
  next
    case False
    then have ne: "cells area \<noteq> {}" "cells outer \<noteq> {}" by auto
    show ?thesis unfolding collect_seps_Split[OF s ne]
      using step[of "seps @ own_seps d a1 a2 area outer"] by auto
  qed
qed simp

lemma own_seps_cover:
  assumes "fits area" "split_area area d r = (a1, a2)" "cells area \<subseteq> cells outer"
    and "(x, y) \<in> gap area d r"
  shows "\<exists>s \<in> set (own_seps d a1 a2 area outer). sep_covers s x y"
proof -
  have sub: "rect_contains area u v \<Longrightarrow> rect_contains outer u v" for u v
    using assms(3) by (auto simp: cells_def)
  show ?thesis
  proof (cases d)
    case Horizontal
    then have g: "rect_contains area x y" "0 < rw a2" "x = rx a1 + rw a1"
      using assms(2,4) by (auto simp: gap_def cells_def)
    then have "rect_contains area (rx a1 + rw a1) (ry area)" by (auto simp: rect_contains_iff)
    then have o1: "rect_contains outer (rx a1 + rw a1) (ry area)" by (rule sub)
    have "rect_contains area x (ry area + rh area - 1)" using g(1) by (auto simp: rect_contains_iff)
    then have o2: "rect_contains outer x (ry area + rh area - 1)" by (rule sub)
    from Horizontal g o1 o2 show ?thesis
      by (auto simp: own_seps_def sep_covers_def rect_contains_iff min_def max_def)
  next
    case Vertical
    then have g: "rect_contains area x y" "0 < rh a2" "y = ry a1 + rh a1"
      using assms(2,4) by (auto simp: gap_def cells_def)
    then have "rect_contains area (rx area) (ry a1 + rh a1)" by (auto simp: rect_contains_iff)
    then have o1: "rect_contains outer (rx area) (ry a1 + rh a1)" by (rule sub)
    have "rect_contains area (rx area + rw area - 1) y" using g(1) by (auto simp: rect_contains_iff)
    then have o2: "rect_contains outer (rx area + rw area - 1) y" by (rule sub)
    from Vertical g o1 o2 show ?thesis
      by (auto simp: own_seps_def sep_covers_def rect_contains_iff min_def max_def)
  qed
qed

lemma cells_covered:
  assumes "fits area" "cells area \<subseteq> cells outer" "(x, y) \<in> cells area"
  shows "(\<exists>i q. (i, q) \<in> set (leaf_rects t area) \<and> rect_contains q x y) \<or>
    (\<exists>s \<in> set (collect_seps t area outer seps). sep_covers s x y)"
  using assms
proof (induction t arbitrary: area seps)
  case (Leaf i)
  then show ?case by (auto simp: cells_def)
next
  case (Split d r a b)
  obtain a1 a2 where s: "split_area area d r = (a1, a2)" by fastforce
  note f = split_area_fits[OF Split.prems(1) s] split_area_subset[OF Split.prems(1) s]
  define s1 where "s1 = seps @ own_seps d a1 a2 area outer"
  define s2 where "s2 = collect_seps a a1 outer s1"
  have ne: "cells area \<noteq> {}" "cells outer \<noteq> {}" using Split.prems by auto
  have e: "collect_seps (Split d r a b) area outer seps = collect_seps b a2 outer s2"
    by (simp only: collect_seps_Split[OF s ne] s1_def s2_def)
  have g1: "set s1 \<subseteq> set (collect_seps b a2 outer s2)" and g2: "set s2 \<subseteq> set (collect_seps b a2 outer s2)"
    using collect_seps_grow[of s1 a a1 outer] collect_seps_grow[of s2 b a2 outer] by (auto simp: s2_def)
  have rects: "set (leaf_rects (Split d r a b) area) = set (leaf_rects a a1) \<union> set (leaf_rects b a2)"
    by (simp add: s)
  from split_area_partition(1)[OF Split.prems(1) s] Split.prems(3)
  consider "(x, y) \<in> cells a1" | "(x, y) \<in> cells a2" | "(x, y) \<in> gap area d r" by blast
  then show ?case
  proof cases
    case 1
    from Split.IH(1)[OF f(1) _ 1, of s1] f(3) Split.prems(2) show ?thesis
      unfolding e rects using g2 by (fastforce simp: s2_def)
  next
    case 2
    from Split.IH(2)[OF f(2) _ 2, of s2] f(4) Split.prems(2) show ?thesis
      unfolding e rects by blast
  next
    case 3
    from own_seps_cover[OF Split.prems(1) s Split.prems(2) 3] show ?thesis
      unfolding e using g1 by (auto simp: s1_def)
  qed
qed

section \<open>Navigation\<close>



section \<open>Equal shares\<close>

text \<open>
  With the ratio the equaliser computes, \<open>l / t\<close> for \<open>l\<close> of \<open>t\<close> panes, an axis of
  \<open>t \<cdot> (c + 1) - 1\<close> cells gives the first child exactly \<open>l \<cdot> (c + 1) - 1\<close> cells: the two
  roundings of the quotient and the product together stay below one half of a cell.
\<close>

lemma share_error:
  fixes z p v q :: rat
  assumes "0 < z" "z \<le> 65536" "\<bar>p - z\<bar> \<le> z / 2 ^ 24" "\<bar>q - p\<bar> \<le> p / 2 ^ 24"
  shows "\<bar>q - z\<bar> < 1/2"
proof -
  have z: "z / 2 ^ 24 \<le> 1 / 256" using assms(2) by simp
  moreover have "p - z \<le> z / 2 ^ 24" "z - p \<le> z / 2 ^ 24"
    using abs_le_D1[OF assms(3)] abs_le_D2[OF assms(3)] by simp_all
  moreover from this z have "p \<le> 65537" using assms(2) by linarith
  then have "p / 2 ^ 24 \<le> 1 / 128" by simp
  moreover have "q - p \<le> p / 2 ^ 24" "p - q \<le> p / 2 ^ 24"
    using abs_le_D1[OF assms(4)] abs_le_D2[OF assms(4)] by simp_all
  ultimately show ?thesis unfolding abs_less_iff by linarith
qed

lemma split_share_exact:
  assumes "0 < l" "l < t" "1 \<le> c" "n + 1 = t * (c + 1)" "n \<le> u16_max"
  shows "split_share n (f32_div (f32_of_nat l) (f32_of_nat t)) = l * (c + 1) - 1"
proof -
  define z where "z = l * (c + 1)"
  have zb: "z + (t - l) * (c + 1) = n + 1"
    using assms(2,4) unfolding z_def by (metis add_mult_distrib le_add_diff_inverse less_imp_le)
  have "1 * 2 \<le> (t - l) * (c + 1)" using assms(2,3) by (intro mult_le_mono) auto
  with zb have z2: "z + 1 \<le> n" by linarith
  have "1 * 2 \<le> l * (c + 1)" using assms(1,3) by (intro mult_le_mono) auto
  then have z1: "2 \<le> z" by (simp add: z_def)
  have "t * 1 \<le> t * (c + 1)" by (intro mult_le_mono) auto
  then have tb: "t < 2 ^ 24" using assms(4,5) by simp
  obtain ml el where L: "f32_of_nat l = Fin ml el" "val (Fin ml el) = of_nat l"
    using f32_of_nat_exact[of l] assms(1,2) tb by auto
  obtain mt et where T: "f32_of_nat t = Fin mt et" "val (Fin mt et) = of_nat t"
    using f32_of_nat_exact[of t] assms(1,2) tb by auto
  obtain mq eq where Q: "f32_div (f32_of_nat l) (f32_of_nat t) = Fin mq eq"
    "\<bar>val (Fin mq eq) - of_nat l / of_nat t\<bar> \<le> of_nat l / of_nat t / 2 ^ 24"
    using f32_div_error[OF L(2) T(2) assms(1) less_imp_le[OF assms(2)] tb] unfolding L(1) T(1) by blast
  obtain mn en where "f32_of_nat n = Fin mn en" "val (Fin mn en) = of_nat n"
    using f32_of_nat_exact[of n] z1 z2 assms(5) by auto
  then obtain ms es where S: "f32_add (f32_of_nat n) (Fin 1 0) = Fin ms es" "val (Fin ms es) = of_nat (n + 1)"
    using f32_add_one_exact[of mn en n] assms(5) by auto
  define p where "p = val (Fin ms es) * val (Fin mq eq)"
  have tp: "(0 :: rat) < of_nat t" using assms by simp
  have "of_nat (n + 1) = (of_nat t * of_nat (c + 1) :: rat)" by (simp only: assms(4) of_nat_mult)
  then have zr: "of_nat (n + 1) * (of_nat l / of_nat t) = (of_nat z :: rat)"
    using tp by (simp add: z_def field_simps)
  have "p - of_nat z = of_nat (n + 1) * (val (Fin mq eq) - of_nat l / of_nat t)"
    by (simp only: p_def S(2) zr[symmetric] right_diff_distrib)
  then have "\<bar>p - of_nat z\<bar> = of_nat (n + 1) * \<bar>val (Fin mq eq) - of_nat l / of_nat t\<bar>"
    by (simp only: abs_mult abs_of_nat)
  also have "\<dots> \<le> of_nat (n + 1) * (of_nat l / of_nat t / 2 ^ 24)"
    using Q(2) by (intro mult_left_mono) auto
  also have "\<dots> = of_nat z / 2 ^ 24" by (simp only: times_divide_eq_right flip: zr)
  finally have pe: "\<bar>p - of_nat z\<bar> \<le> of_nat z / 2 ^ 24" .
  have zq: "(2 :: rat) \<le> of_nat z" "(of_nat z :: rat) \<le> 65536" using z1 z2 assms(5) by linarith+
  moreover have "p - of_nat z \<le> of_nat z / 2 ^ 24" "of_nat z - p \<le> of_nat z / 2 ^ 24"
    using abs_le_D1[OF pe] abs_le_D2[OF pe] by simp_all
  moreover have "of_nat z / 2 ^ 24 \<le> (1 / 256 :: rat)" using zq(2) by simp
  ultimately have "1/2 \<le> p" "p < 65538" using zq by linarith+
  then have "1/2 \<le> p" "p < 2 ^ 99" by simp_all
  then obtain mr er where R: "f32_mul (Fin ms es) (Fin mq eq) = Fin mr er"
    "\<bar>val (Fin mr er) - p\<bar> \<le> p / 2 ^ 24"
    using f32_mul_error[of ms es mq eq] unfolding p_def by blast
  have "\<bar>val (Fin mr er) - of_nat z\<bar> < 1/2"
    by (rule share_error[OF _ zq(2) pe R(2)]) (use zq in simp)
  then have "f32_to_u16 (f32_round_int (Fin mr er)) = z"
    using z1 z2 assms(5) by (intro f32_round_to_u16) auto
  then have "split_share n (f32_div (f32_of_nat l) (f32_of_nat t)) = clamp_nat 1 (n - 1 - 1) (sat_sub z 1)"
    unfolding split_share_def S(1) Q(1) R(1) by simp
  then show ?thesis
    unfolding z_def[symmetric] using z1 z2 by (simp add: clamp_nat_def sat_sub_def)
qed

fun along :: "Direction \<Rightarrow> LayoutNode \<Rightarrow> bool" where
  "along d (Leaf i) = True"
| "along d (Split d' r a b) = (d' = d \<and> along d a \<and> along d b)"

lemma equal_columns_rects:
  assumes "along Horizontal t" "fits area" "1 \<le> c" "rw area + 1 = count_leaves t * (c + 1)"
  shows "leaf_rects (equalize_node t) area =
    map (\<lambda>(k, i). (i, area\<lparr>rx := rx area + k * (c + 1), rw := c\<rparr>)) (zip [0..<count_leaves t] (leaves t))"
  using assms(1,2,4)
proof (induction t arbitrary: area)
  case (Split d r a b)
  define l t where "l = count_leaves a" and "t = count_leaves a + count_leaves b"
  define rt where "rt = f32_div (f32_of_nat l) (f32_of_nat t)"
  define s where "s = (if f32_is_finite rt then rt else f32_half)"
  have lt: "0 < l" "l < t" using count_leaves_pos[of a] count_leaves_pos[of b] by (auto simp: l_def t_def)
  have w: "rw area + 1 = t * (c + 1)" using Split.prems(3) by (simp add: t_def)
  have nb: "rw area \<le> u16_max" using Split.prems(2) by (simp add: fits_def)
  have sh: "split_share (rw area) rt = l * (c + 1) - 1"
    using split_share_exact[OF lt assms(3) w nb] by (simp add: rt_def)
  have "f32_is_finite rt"
  proof -
    have "t * 1 \<le> t * (c + 1)" by (intro mult_le_mono) auto
    then have tb: "t < 2 ^ 24" using w nb by simp
    obtain ml el where L: "f32_of_nat l = Fin ml el" "val (Fin ml el) = of_nat l"
      using f32_of_nat_exact[of l] lt tb by auto
    obtain mt et where T: "f32_of_nat t = Fin mt et" "val (Fin mt et) = of_nat t"
      using f32_of_nat_exact[of t] lt tb by auto
    show ?thesis unfolding rt_def L(1) T(1)
      by (rule f32_div_error[OF L(2) T(2) lt(1) less_imp_le[OF lt(2)] tb]) simp
  qed
  have t2: "2 \<le> t" using lt by linarith
  have "2 * 2 \<le> t * (c + 1)" using t2 assms(3) by (intro mult_le_mono) auto
  with w have w3: "3 \<le> rw area" by linarith
  define m where "m = l * (c + 1)"
  have m: "1 \<le> m" "m + (t - l) * (c + 1) = rw area + 1"
    using lt w assms(3) unfolding m_def
    by (auto simp: Suc_le_eq, metis Suc_eq_plus1 add_mult_distrib le_add_diff_inverse less_imp_le mult_Suc_right)
  have sa: "split_area area Horizontal rt =
      (area\<lparr>rw := m - 1\<rparr>, area\<lparr>rx := rx area + m, rw := rw area - m\<rparr>)"
    using w3 Split.prems(2) \<open>f32_is_finite rt\<close> sh m
    by (simp add: split_area_def Let_def sat_sub_def m_def)
  have tl: "t - l = count_leaves b" by (simp add: t_def l_def)
  have A: "leaf_rects (equalize_node a) (area\<lparr>rw := m - 1\<rparr>) =
      map (\<lambda>(k, i). (i, area\<lparr>rx := rx area + k * (c + 1), rw := c\<rparr>)) (zip [0..<l] (leaves a))"
  proof -
    have "m - 1 \<le> rw area" using m(2) by linarith
    then have "fits (area\<lparr>rw := m - 1\<rparr>)" using Split.prems(2) by (simp add: fits_def)
    moreover have "rw (area\<lparr>rw := m - 1\<rparr>) + 1 = count_leaves a * (c + 1)"
      using m(1) unfolding m_def l_def by simp
    ultimately show ?thesis using Split.IH(1)[of "area\<lparr>rw := m - 1\<rparr>"] Split.prems(1) by (simp add: l_def)
  qed
  have B: "leaf_rects (equalize_node b) (area\<lparr>rx := rx area + m, rw := rw area - m\<rparr>) =
      map (\<lambda>(k, i). (i, area\<lparr>rx := rx area + m + k * (c + 1), rw := c\<rparr>)) (zip [0..<t - l] (leaves b))"
  proof -
    let ?q = "area\<lparr>rx := rx area + m, rw := rw area - m\<rparr>"
    have "1 * 1 \<le> (t - l) * (c + 1)" using lt(2) by (intro mult_le_mono) auto
    then have mw: "m \<le> rw area" using m(2) by linarith
    then have "fits ?q" using Split.prems(2) by (simp add: fits_def)
    moreover have "rw ?q + 1 = count_leaves b * (c + 1)"
      using m(2) mw unfolding tl by simp
    ultimately show ?thesis using Split.IH(2)[of ?q] Split.prems(1) by (simp add: tl)
  qed
  have Z: "zip [0..<t] (leaves a @ leaves b) =
      zip [0..<l] (leaves a) @ map (\<lambda>(k, i). (l + k, i)) (zip [0..<t - l] (leaves b))"
  proof -
    have "[0..<t] = [0..<l] @ map ((+) l) [0..<t - l]"
    proof (rule nth_equalityI)
      fix i assume "i < length [0..<t]"
      then show "[0..<t] ! i = ([0..<l] @ map ((+) l) [0..<t - l]) ! i"
        by (cases "i < l") (auto simp: nth_append)
    qed (use lt(2) in simp)
    then show ?thesis by (simp add: zip_append zip_map1 l_def count_leaves_eq[of a])
  qed
  have d: "d = Horizontal" using Split.prems(1) by simp
  have e: "equalize_node (Split d r a b) = Split Horizontal rt (equalize_node a) (equalize_node b)"
    by (simp add: Let_def d rt_def l_def t_def)
  have tc: "count_leaves (Split d r a b) = t" by (simp add: t_def)
  show ?case
    unfolding e tc leaf_rects.simps sa fst_conv snd_conv A B leaves.simps Z map_append
    by (simp add: m_def add.assoc case_prod_unfold distrib_right)
qed (use assms in auto)

section \<open>Properties\<close>

text \<open>C4. The pane rectangles tile the content area: they lie inside it, two different panes
  share no cell, and a cell that is in no pane is on a separator line. Every edge the code
  computes stays within \<open>u16\<close>.\<close>

theorem pane_rects_tile:
  assumes "wf_layout l" "fits inner" "fits outer" "cells inner \<subseteq> cells outer"
  shows "(\<forall>(i, q) \<in> set (pane_rects l inner). fits q \<and> cells q \<subseteq> cells inner) \<and>
    (\<forall>(i, p) \<in> set (pane_rects l inner). \<forall>(j, q) \<in> set (pane_rects l inner).
       i \<noteq> j \<longrightarrow> cells p \<inter> cells q = {}) \<and>
    (\<forall>(x, y) \<in> cells inner.
       (\<exists>(i, q) \<in> set (pane_rects l inner). rect_contains q x y) \<or>
       (\<exists>s \<in> set (separators l inner outer). sep_covers s x y))"
proof -
  have d: "distinct (pane_ids l)" using assms(1) by (simp add: wf_layout_def)
  then have d': "distinct (leaves (root l))" by (simp add: pane_ids_eq)
  have r: "pane_rects l inner = leaf_rects (root l) inner"
    using assms(2) by (simp add: pane_rects_eq[OF d])
  have s: "separators l inner outer = collect_seps (root l) inner outer []"
    using assms(2,3) by (simp add: separators_def)
  from leaf_rects_inside[OF assms(2)] leaf_rects_disjoint[OF assms(2) d']
    cells_covered[OF assms(2,4), of _ _ "root l" "[]"]
  show ?thesis unfolding r s by blast
qed

definition demo_inner :: Rect where "demo_inner = \<lparr>rx = 1, ry = 1, rw = 20, rh = 9\<rparr>"
definition demo_outer :: Rect where "demo_outer = \<lparr>rx = 0, ry = 0, rw = 22, rh = 11\<rparr>"

theorem pane_rects_tile_witness:
  "length (pane_rects (from_grid 2 2) demo_inner) = 4 \<and>
   ((\<exists>(i, q) \<in> set (pane_rects (from_grid 2 2) demo_inner). rect_contains q 5 5) \<or>
    (\<exists>s \<in> set (separators (from_grid 2 2) demo_inner demo_outer). sep_covers s 5 5))"
proof -
  have f: "fits demo_inner" "fits demo_outer" "cells demo_inner \<subseteq> cells demo_outer"
    by (auto simp: demo_inner_def demo_outer_def fits_def cells_def rect_contains_iff)
  have n: "length (pane_rects (from_grid 2 2) demo_inner) = 4" by code_simp
  have "(5, 5) \<in> cells demo_inner" by (simp add: demo_inner_def cells_def rect_contains_iff)
  with pane_rects_tile[OF wf_from_grid f] n show ?thesis by fast
qed

text \<open>C12. Hit testing agrees with the rectangles: \<open>find_at\<close> answers a pane exactly for the
  cells of that pane's rectangle, so no cell answers a pane it is not shown in.\<close>

theorem find_at_pane_rects:
  assumes "wf_layout l" "rx inner \<le> u16_max" "ry inner \<le> u16_max"
  shows "find_at l x y inner = Some i \<longleftrightarrow>
    (\<exists>q. map_of (pane_rects l inner) i = Some q \<and> rect_contains q x y)"
proof -
  have d: "distinct (pane_ids l)" using assms(1) by (simp add: wf_layout_def)
  have f: "fits (clipped inner)" using assms(2,3) by (rule fits_clipped)
  have "distinct (map fst (pane_rects l inner))" using d by (simp add: pane_rects_eq pane_ids_eq)
  then have "map_of (pane_rects l inner) i = Some q \<longleftrightarrow> (i, q) \<in> set (pane_rects l inner)" for q
    by (rule map_of_eq_Some_iff)
  then show ?thesis
    using find_at_node_iff[OF f, of "root l" x y i] d
    by (simp add: find_at_def pane_rects_eq[OF d]) (simp add: pane_ids_eq)
qed

theorem find_at_pane_rects_witness:
  "find_at (from_grid 2 2) 15 8 demo_inner = Some 3 \<and>
   (\<exists>q. map_of (pane_rects (from_grid 2 2) demo_inner) 3 = Some q \<and> rect_contains q 15 8)"
proof -
  have "rx demo_inner \<le> u16_max" "ry demo_inner \<le> u16_max" by (simp_all add: demo_inner_def)
  note t = find_at_pane_rects[OF wf_from_grid this]
  have "find_at (from_grid 2 2) 15 8 demo_inner = Some 3" by code_simp
  with t show ?thesis by blast
qed

text \<open>Equal columns are equal: after \<open>equalize\<close> (which every split runs), panes that sit in
  one row, however the splits are nested, get exactly the same width whenever the width can
  be shared evenly, in tree order and one separator apart, in spite of binary32 rounding.\<close>

theorem equalize_columns:
  assumes "wf_layout l" "along Horizontal (root l)" "fits inner" "1 \<le> c"
    and "rw inner + 1 = pane_count l * (c + 1)"
  shows "pane_rects (equalize l) inner =
    map (\<lambda>(k, i). (i, inner\<lparr>rx := rx inner + k * (c + 1), rw := c\<rparr>))
      (zip [0..<pane_count l] (pane_ids l))"
proof -
  have d: "distinct (pane_ids (equalize l))" using assms(1) by (simp add: wf_layout_def pane_ids_eq)
  show ?thesis
    using equal_columns_rects[OF assms(2,3,4)] assms(3,5)
    by (simp add: pane_rects_eq[OF d] pane_count_def pane_ids_eq)
qed

theorem equalize_columns_witness:
  "map (rw \<circ> snd) (pane_rects (equalize (from_grid 1 3)) demo_inner) = [6, 6, 6]"
proof -
  have "along Horizontal (root (from_grid 1 3))" by code_simp
  moreover have "rw demo_inner + 1 = pane_count (from_grid 1 3) * (6 + 1)" by code_simp
  moreover have "pane_ids (from_grid 1 3) = [0, 1, 2]" "pane_count (from_grid 1 3) = 3"
    by code_simp+
  moreover have "fits demo_inner" by (simp add: demo_inner_def fits_def)
  ultimately show ?thesis
    using equalize_columns[OF wf_from_grid, of 1 3 demo_inner 6] by (simp add: upt_rec)
qed



end
