(* ===== verification/LayoutSpec.thy ===== *)
theory LayoutSpec
  imports LayoutGeom
begin

text \<open>
  The textual layout specification of \<open>src/src/layout.rs\<close> (\<open>Layout::from_spec\<close>): presets,
  rows separated by \<open>/\<close>, column weights separated by \<open>:\<close>, the limits, and the weighted
  trees. Error messages are values of \<open>spec_error\<close>, one constructor per message of the source.
\<close>

section \<open>Weighted trees\<close>

text \<open>The weights of a row are positive \<open>u32\<close> values whose sum is \<open>tot\<close>. An empty slice,
  which the source would panic on, does not occur: \<^const>\<open>None\<close>.\<close>

fun build_weighted_row :: "nat list \<Rightarrow> nat \<Rightarrow> nat \<Rightarrow> (LayoutNode \<times> nat) option" where
  "build_weighted_row [] tot nid = None"
| "build_weighted_row [w] tot nid = Some (Leaf nid, nid + 1)"
| "build_weighted_row (w # v # ws) tot nid =
     Option.bind (build_weighted_row (v # ws) (tot - w) (nid + 1)) (\<lambda>(rest, nid').
       Some (Split Horizontal (f32_div (f32_of_nat w) (f32_of_nat tot)) (Leaf nid) rest, nid'))"

fun build_weighted_column :: "LayoutNode list \<Rightarrow> nat \<Rightarrow> LayoutNode option" where
  "build_weighted_column [] count = None"
| "build_weighted_column [r] count = Some r"
| "build_weighted_column (r # q # rs) count =
     Option.bind (build_weighted_column (q # rs) (count - 1)) (\<lambda>rest.
       Some (Split Vertical (f32_div (Fin 1 0) (f32_of_nat count)) r rest))"

section \<open>Parsing\<close>

datatype spec_error =
    TooManyPanes nat | EmptySpec | InvalidWeight ustr | WeightRange ustr | EmptyRow | ZeroRow

definition presets :: "(string \<times> string) list" where
  "presets = [(''ide'', ''7:3/1:1''), (''dev'', ''7:3''), (''monitor'', ''1:1:1''),
     (''stack'', ''1/1/1''), (''main'', ''6:4/1''), (''trio'', ''1/1:1'')]"

definition slash :: nat where "slash = 47"
definition colon :: nat where "colon = 58"

definition parse_weight :: "ustr \<Rightarrow> spec_error + nat" where
  "parse_weight s =
     (case parse_uint (2 ^ 32) (trim s) of
        None \<Rightarrow> Inl (InvalidWeight s)
      | Some w \<Rightarrow> if 1 \<le> w \<and> w \<le> 9 then Inr w else Inl (WeightRange s))"

text \<open>\<open>iter.map(f).collect::<Result<Vec<_>, _>>()\<close>: stops at the first error.\<close>

fun collect_results :: "('a \<Rightarrow> 'e + 'b) \<Rightarrow> 'a list \<Rightarrow> 'e + 'b list" where
  "collect_results f [] = Inr []"
| "collect_results f (x # xs) =
     (case f x of
        Inl e \<Rightarrow> Inl e
      | Inr y \<Rightarrow> (case collect_results f xs of Inl e \<Rightarrow> Inl e | Inr ys \<Rightarrow> Inr (y # ys)))"

text \<open>One row: its tree, its pane count and the next free id. The outer option is the panic of
  \<open>build_weighted_row\<close> on an empty slice.\<close>

definition parse_row :: "ustr \<Rightarrow> nat \<Rightarrow> (spec_error + LayoutNode \<times> nat \<times> nat) option" where
  "parse_row row nid =
     (case collect_results parse_weight (split_on colon row) of
        Inl e \<Rightarrow> Some (Inl e)
      | Inr cols \<Rightarrow>
          if cols = [] then Some (Inl EmptyRow)
          else let tot = sum_list cols
               in if tot = 0 then Some (Inl ZeroRow)
                  else Option.bind (build_weighted_row cols tot nid) (\<lambda>(node, nid').
                         Some (Inr (node, length cols, nid'))))"

fun parse_rows :: "ustr list \<Rightarrow> nat \<Rightarrow> (spec_error + (LayoutNode \<times> nat) list \<times> nat) option" where
  "parse_rows [] nid = Some (Inr ([], nid))"
| "parse_rows (row # rows) nid =
     Option.bind (parse_row row nid) (\<lambda>r.
       case r of
         Inl e \<Rightarrow> Some (Inl e)
       | Inr (node, n, nid') \<Rightarrow>
           Option.bind (parse_rows rows nid') (\<lambda>rs.
             case rs of
               Inl e \<Rightarrow> Some (Inl e)
             | Inr (nodes, nid'') \<Rightarrow> Some (Inr ((node, n) # nodes, nid''))))"

definition from_spec :: "ustr \<Rightarrow> (spec_error + Layout) option" where
  "from_spec spec =
     (let t = trim spec
      in if t = ascii ''quad'' then Some (Inr (from_grid 2 2))
         else
           let resolved = (case map_of (map (\<lambda>(n, v). (ascii n, ascii v)) presets) t of
                             Some v \<Rightarrow> v | None \<Rightarrow> t);
               total_panes = length (filter (\<lambda>b. b = slash \<or> b = colon) resolved) + 1
           in if 100 < total_panes then Some (Inl (TooManyPanes total_panes))
              else let rows = split_on slash resolved
              in if rows = [] then Some (Inl EmptySpec)
              else Option.bind (parse_rows rows 0) (\<lambda>r.
                case r of
                  Inl e \<Rightarrow> Some (Inl e)
                | Inr (row_nodes, nid) \<Rightarrow>
                    let tot = sum_list (map snd row_nodes)
                    in if 100 < tot then Some (Inl (TooManyPanes tot))
                       else Option.bind (build_weighted_column (map fst row_nodes) (length row_nodes))
                              (\<lambda>root. Some (Inr \<lparr>root = root, next_id = nid\<rparr>))))"

section \<open>Construction lemmas\<close>

lemma build_weighted_row_leaves:
  assumes "ws \<noteq> []"
  shows "\<exists>t. build_weighted_row ws tot nid = Some (t, nid + length ws) \<and>
    leaves t = [nid..<nid + length ws] \<and> along Horizontal t"
  using assms
proof (induction ws tot nid rule: build_weighted_row.induct)
  case (3 w v ws tot nid)
  obtain t where "build_weighted_row (v # ws) (tot - w) (nid + 1) = Some (t, nid + 1 + length (v # ws))"
    "leaves t = [nid + 1..<nid + 1 + length (v # ws)]" "along Horizontal t"
    using "3.IH" by (auto simp del: upt_Suc)
  then show ?case by (simp add: upt_conv_Cons del: upt_Suc)
qed auto

lemma build_weighted_column_leaves:
  assumes "rs \<noteq> []"
  shows "\<exists>t. build_weighted_column rs count = Some t \<and> leaves t = concat (map leaves rs)"
  using assms by (induction rs count rule: build_weighted_column.induct) auto

lemma collect_results_length: "collect_results f xs = Inr ys \<Longrightarrow> length ys = length xs"
  by (induction xs arbitrary: ys) (auto split: sum.splits)

lemma collect_results_all: "collect_results f xs = Inr ys \<Longrightarrow> list_all2 (\<lambda>x y. f x = Inr y) xs ys"
  by (induction xs arbitrary: ys) (auto split: sum.splits)

lemma collect_results_Inr:
  "list_all2 (\<lambda>x y. f x = Inr y) xs ys \<Longrightarrow> collect_results f xs = Inr ys"
  by (induction rule: list_all2_induct) auto

lemma parse_weight_range: "parse_weight s = Inr w \<Longrightarrow> 1 \<le> w \<and> w \<le> 9"
  by (auto simp: parse_weight_def split: option.splits if_splits)

text \<open>A row either fails with the error of its first bad weight or gives one leaf per weight.\<close>

lemma parse_row_cases:
  "(\<exists>e. parse_row row nid = Some (Inl e)) \<and> (\<exists>e. collect_results parse_weight (split_on colon row) = Inl e) \<or>
   (\<exists>t. parse_row row nid = Some (Inr (t, length (split_on colon row), nid + length (split_on colon row))) \<and>
        leaves t = [nid..<nid + length (split_on colon row)] \<and>
        (\<exists>ws. collect_results parse_weight (split_on colon row) = Inr ws))"
proof (cases "collect_results parse_weight (split_on colon row)")
  case (Inl e)
  then show ?thesis by (simp add: parse_row_def)
next
  case (Inr ws)
  then have l: "length ws = length (split_on colon row)" by (rule collect_results_length)
  then have ne: "ws \<noteq> []" by (metis length_0_conv split_on_nonempty)
  have "\<exists>s. parse_weight s = Inr w" if "w \<in> set ws" for w
    using collect_results_all[OF Inr] that by (auto simp: list_all2_conv_all_nth in_set_conv_nth)
  then have "\<forall>w \<in> set ws. 1 \<le> w" using parse_weight_range by blast
  with ne have "sum_list ws \<noteq> 0" by (cases ws) auto
  moreover obtain t where "build_weighted_row ws (sum_list ws) nid = Some (t, nid + length ws)"
    "leaves t = [nid..<nid + length ws]"
    using build_weighted_row_leaves[OF ne] by blast
  ultimately show ?thesis using Inr ne l by (auto simp: parse_row_def Let_def)
qed

definition row_widths :: "ustr list \<Rightarrow> nat list" where
  "row_widths rows = map (\<lambda>r. length (split_on colon r)) rows"

lemma parse_rows_cases:
  "(\<exists>e. parse_rows rows nid = Some (Inl e)) \<and>
     (\<exists>row \<in> set rows. \<exists>s \<in> set (split_on colon row). \<exists>e. parse_weight s = Inl e) \<or>
   (\<exists>ns. parse_rows rows nid = Some (Inr (ns, nid + sum_list (row_widths rows))) \<and>
        map snd ns = row_widths rows \<and>
        concat (map (leaves \<circ> fst) ns) = [nid..<nid + sum_list (row_widths rows)] \<and>
        (\<forall>row \<in> set rows. \<forall>s \<in> set (split_on colon row). \<exists>w. parse_weight s = Inr w))"
proof (induction rows arbitrary: nid)
  case Nil
  then show ?case by (simp add: row_widths_def)
next
  case (Cons row rows)
  define n where "n = length (split_on colon row)"
  have bad: "\<exists>s \<in> set xs. \<exists>e. parse_weight s = Inl e" if "collect_results parse_weight xs = Inl e'" for xs e'
    using that by (induction xs) (auto split: sum.splits)
  have good: "\<forall>s \<in> set xs. \<exists>w. parse_weight s = Inr w" if "collect_results parse_weight xs = Inr ws" for xs ws
    using collect_results_all[OF that] by (auto simp: list_all2_conv_all_nth in_set_conv_nth)
  from parse_row_cases[of row nid] consider
      (err) e e' where "parse_row row nid = Some (Inl e)" "collect_results parse_weight (split_on colon row) = Inl e'"
    | (ok) t ws where "parse_row row nid = Some (Inr (t, n, nid + n))" "leaves t = [nid..<nid + n]"
        "collect_results parse_weight (split_on colon row) = Inr ws"
    unfolding n_def by blast
  then show ?case
  proof cases
    case err
    with bad[OF err(2)] show ?thesis by auto
  next
    case ok
    have w: "sum_list (row_widths (row # rows)) = n + sum_list (row_widths rows)"
      by (simp add: row_widths_def n_def)
    have u: "[nid..<nid + (n + k)] = [nid..<nid + n] @ [nid + n..<nid + n + k]" for k
      using upt_add_eq_append[of nid "nid + n" k] by (simp add: add.assoc)
    from Cons.IH[of "nid + n"] consider
        (err') e where "parse_rows rows (nid + n) = Some (Inl e)"
          "\<exists>row \<in> set rows. \<exists>s \<in> set (split_on colon row). \<exists>e. parse_weight s = Inl e"
      | (ok') ns where "parse_rows rows (nid + n) = Some (Inr (ns, nid + n + sum_list (row_widths rows)))"
          "map snd ns = row_widths rows"
          "concat (map (leaves \<circ> fst) ns) = [nid + n..<nid + n + sum_list (row_widths rows)]"
          "\<forall>row \<in> set rows. \<forall>s \<in> set (split_on colon row). \<exists>w. parse_weight s = Inr w"
      by blast
    then show ?thesis
    proof cases
      case err'
      with ok show ?thesis by auto
    next
      case ok'
      have "parse_rows (row # rows) nid = Some (Inr ((t, n) # ns, nid + sum_list (row_widths (row # rows))))"
        using ok ok' by (simp add: w add.assoc)
      moreover have "map snd ((t, n) # ns) = row_widths (row # rows)"
        using ok' by (simp add: row_widths_def n_def)
      moreover have "concat (map (leaves \<circ> fst) ((t, n) # ns)) = [nid..<nid + sum_list (row_widths (row # rows))]"
        using ok ok' by (simp add: w u)
      moreover have "\<forall>row \<in> set (row # rows). \<forall>s \<in> set (split_on colon row). \<exists>w. parse_weight s = Inr w"
        using good[OF ok(3)] ok'(4) by auto
      ultimately show ?thesis by blast
    qed
  qed
qed

text \<open>The two pane counts agree: separators in the text plus one, and columns over all rows.\<close>

lemma sum_row_widths:
  "sum_list (row_widths (split_on slash s)) = length (filter (\<lambda>b. b = slash \<or> b = colon) s) + 1"
proof (induction s)
  case (Cons x xs)
  obtain w ws where e: "split_on slash xs = w # ws" by (cases "split_on slash xs") auto
  have ne: "slash \<noteq> colon" by (simp add: slash_def colon_def)
  show ?case
  proof (cases "x = slash")
    case True
    with Cons show ?thesis by (simp add: row_widths_def)
  next
    case False
    with Cons e show ?thesis
      by (auto simp: row_widths_def length_split_on)
  qed
qed (simp add: row_widths_def)

text \<open>The text a specification stands for after presets are resolved.\<close>

definition resolve_spec :: "ustr \<Rightarrow> ustr" where
  "resolve_spec spec =
     (case map_of (map (\<lambda>(n, v). (ascii n, ascii v)) presets) (trim spec) of
        Some v \<Rightarrow> v | None \<Rightarrow> trim spec)"

definition spec_panes :: "ustr \<Rightarrow> nat" where
  "spec_panes s = length (filter (\<lambda>b. b = slash \<or> b = colon) s) + 1"

definition spec_weights_ok :: "ustr \<Rightarrow> bool" where
  "spec_weights_ok s \<longleftrightarrow>
     (\<forall>row \<in> set (split_on slash s). \<forall>w \<in> set (split_on colon row). \<exists>n. parse_weight w = Inr n)"

section \<open>Properties\<close>

text \<open>C14. \<open>from_spec\<close> never panics. It accepts a specification exactly when it has at most
  100 panes and every weight is a number from 1 to 9; the layout it then returns has one pane
  per weight, numbered in reading order, with the id counter right behind them.\<close>

theorem from_spec_correct:
  assumes "trim spec \<noteq> ascii ''quad''"
  shows "if spec_panes (resolve_spec spec) \<le> 100 \<and> spec_weights_ok (resolve_spec spec)
    then \<exists>l. from_spec spec = Some (Inr l) \<and> wf_layout l \<and>
           pane_ids l = [0..<spec_panes (resolve_spec spec)] \<and> next_id l = spec_panes (resolve_spec spec)
    else \<exists>e. from_spec spec = Some (Inl e)"
proof -
  define s where "s = resolve_spec spec"
  define n where "n = spec_panes s"
  define rows where "rows = split_on slash s"
  have sum: "sum_list (row_widths rows) = n" by (simp add: rows_def n_def spec_panes_def sum_row_widths)
  have F: "from_spec spec = (if 100 < n then Some (Inl (TooManyPanes n))
      else Option.bind (parse_rows rows 0) (\<lambda>r. case r of Inl e \<Rightarrow> Some (Inl e)
        | Inr (row_nodes, nid) \<Rightarrow>
            if 100 < sum_list (map snd row_nodes) then Some (Inl (TooManyPanes (sum_list (map snd row_nodes))))
            else Option.bind (build_weighted_column (map fst row_nodes) (length row_nodes))
                   (\<lambda>root. Some (Inr \<lparr>root = root, next_id = nid\<rparr>))))"
    using assms unfolding from_spec_def Let_def
    by (simp add: n_def rows_def spec_panes_def s_def resolve_spec_def split: option.split)
  have ne: "rows \<noteq> []" by (simp add: rows_def)
  from parse_rows_cases[of rows 0] consider
      (err) e where "parse_rows rows 0 = Some (Inl e)" "\<not> spec_weights_ok s"
    | (ok) ns where "parse_rows rows 0 = Some (Inr (ns, n))" "map snd ns = row_widths rows"
        "concat (map (leaves \<circ> fst) ns) = [0..<n]" "spec_weights_ok s"
    unfolding spec_weights_ok_def rows_def[symmetric] sum by (metis (no_types, lifting) add_0 sum.distinct(1))
  then show ?thesis
  proof cases
    case err
    then show ?thesis unfolding s_def[symmetric] F by simp
  next
    case ok
    then have "map fst ns \<noteq> []" using ne by (auto simp: row_widths_def)
    then obtain t where t: "build_weighted_column (map fst ns) (length ns) = Some t" "leaves t = [0..<n]"
      using build_weighted_column_leaves[of "map fst ns" "length ns"] ok(3) by auto
    show ?thesis
    proof (cases "n \<le> 100")
      case True
      then have "from_spec spec = Some (Inr \<lparr>root = t, next_id = n\<rparr>)"
        unfolding F using ok t by (simp add: sum)
      moreover have "wf_layout \<lparr>root = t, next_id = n\<rparr>" using t by (simp add: wf_layout_def pane_ids_eq)
      ultimately show ?thesis using True ok(4) t(2)
        by (simp add: pane_ids_eq flip: s_def n_def)
    next
      case False
      then show ?thesis unfolding s_def[symmetric] n_def[symmetric] F by simp
    qed
  qed
qed

theorem from_spec_correct_witness:
  "\<exists>l. from_spec (ascii '' ide '') = Some (Inr l) \<and> pane_ids l = [0, 1, 2, 3]"
proof -
  have q: "trim (ascii '' ide '') \<noteq> ascii ''quad''" by code_simp
  have r: "resolve_spec (ascii '' ide '') = ascii ''7:3/1:1''" by code_simp
  have n: "spec_panes (ascii ''7:3/1:1'') = 4" by code_simp
  have "list_all (\<lambda>row. list_all (\<lambda>w. case parse_weight w of Inl _ \<Rightarrow> False | Inr _ \<Rightarrow> True)
      (split_on colon row)) (split_on slash (ascii ''7:3/1:1''))" by code_simp
  then have "spec_weights_ok (ascii ''7:3/1:1'')"
    unfolding spec_weights_ok_def list_all_iff by (metis (no_types, lifting) old.sum.simps(5) sum.exhaust)
  moreover have "[0..<4] = [0, 1, 2, 3 :: nat]" by code_simp
  ultimately show ?thesis using from_spec_correct[OF q] r n by auto
qed

end
