(* ===== verification/Tabs.thy ===== *)
theory Tabs
  imports LayoutTree "HOL-Library.Multiset"
begin

text \<open>
  The tab manager of \<open>src/src/tab.rs\<close> and the way the event loop of \<open>src/src/server/mod.rs\<close>
  drives it. The active tab lives in the event loop's local variables; the manager stores the
  other tabs with a gap at the active position. The abstract view is one list of all tabs with
  a focus, and every operation refines an operation on that view. A pane (PTY, parser,
  scrollback) is an abstract value; \<open>None\<close> is a panic (an assertion or an index out of range).
\<close>

section \<open>State\<close>

datatype RestartPolicy = Never | OnFailure | Always

record 'pane Tab =
  tab_name :: ustr
  tab_layout :: Layout
  tab_panes :: "(nat \<times> 'pane) list"
  tab_active_pane :: nat
  restart_policies :: "(nat \<times> RestartPolicy) list"
  restart_state :: "(nat \<times> nat \<times> nat) list"
  zoomed_pane :: "nat option"
  broadcast :: bool

definition tab_new :: "ustr \<Rightarrow> Layout \<Rightarrow> (nat \<times> 'pane) list \<Rightarrow> nat \<Rightarrow> 'pane Tab" where
  "tab_new nm layout panes active =
     \<lparr>tab_name = nm, tab_layout = layout, tab_panes = panes, tab_active_pane = active,
      restart_policies = [], restart_state = [], zoomed_pane = None, broadcast = False\<rparr>"

record 'pane TabManager =
  tabs :: "'pane Tab list"
  active_idx :: nat
  tab_count :: nat
  tab_next_id :: nat

section \<open>Operations\<close>

definition tm_new :: "'pane TabManager" where
  "tm_new = \<lparr>tabs = [], active_idx = 0, tab_count = 1, tab_next_id = 2\<rparr>"

definition from_tabs :: "'pane Tab list \<Rightarrow> nat \<Rightarrow> ('pane TabManager \<times> 'pane Tab) option" where
  "from_tabs ts active0 =
     (if ts = [] then None
      else let active = min active0 (length ts - 1)
           in Option.bind (vec_remove active ts) (\<lambda>(active_tab, rest).
                let n = length rest + 1
                in Some (\<lparr>tabs = rest, active_idx = active, tab_count = n, tab_next_id = n + 1\<rparr>,
                         active_tab)))"

definition switch_to ::
  "nat \<Rightarrow> 'pane Tab \<Rightarrow> 'pane TabManager \<Rightarrow> ('pane Tab option \<times> 'pane TabManager) option" where
  "switch_to target current m =
     (if target = active_idx m \<or> tab_count m \<le> target then Some (None, m)
      else
        let insert_pos = min (active_idx m) (length (tabs m))
        in Option.bind (vec_insert insert_pos current (tabs m)) (\<lambda>all.
             Option.bind (vec_remove target all) (\<lambda>(target_tab, rest).
               Some (Some target_tab, m\<lparr>tabs := rest, active_idx := target\<rparr>))))"

definition create_tab :: "'pane Tab \<Rightarrow> 'pane TabManager \<Rightarrow> (ustr \<times> 'pane TabManager) option" where
  "create_tab current m =
     (let insert_pos = min (active_idx m) (length (tabs m))
      in Option.bind (vec_insert insert_pos current (tabs m)) (\<lambda>all.
           Some (decimal (tab_next_id m),
                 m\<lparr>tabs := all, tab_next_id := tab_next_id m + 1,
                   tab_count := tab_count m + 1, active_idx := tab_count m + 1 - 1\<rparr>)))"

definition close_active :: "'pane TabManager \<Rightarrow> ('pane Tab option \<times> 'pane TabManager) option" where
  "close_active m =
     (if tab_count m \<le> 1 then Some (None, m)
      else
        let old_active = active_idx m;
            n = tab_count m - 1;
            new_active = (if n \<le> old_active then n - 1 else old_active)
        in Option.bind (vec_remove new_active (tabs m)) (\<lambda>(t, rest).
             Some (Some t, m\<lparr>tabs := rest, tab_count := n, active_idx := new_active\<rparr>)))"

definition next_idx :: "'pane TabManager \<Rightarrow> nat" where
  "next_idx m = (if tab_count m \<le> 1 then active_idx m else (active_idx m + 1) mod tab_count m)"

definition prev_idx :: "'pane TabManager \<Rightarrow> nat" where
  "prev_idx m =
     (if tab_count m \<le> 1 then active_idx m
      else if active_idx m = 0 then tab_count m - 1 else active_idx m - 1)"

text \<open>The panes that \<open>Pane::kill\<close> is called on. \<open>kill_all_panes\<close> also drains the map, which its
  callers write out (\<open>drained\<close>).\<close>

definition kill_all_panes :: "(nat \<times> 'pane) list \<Rightarrow> 'pane list" where
  "kill_all_panes panes = map snd panes"

definition drained :: "'pane Tab \<Rightarrow> 'pane Tab" where
  "drained t = t\<lparr>tab_panes := []\<rparr>"

definition kill_all_inactive :: "'pane TabManager \<Rightarrow> 'pane list" where
  "kill_all_inactive m = concat (map (\<lambda>t. kill_all_panes (tab_panes t)) (tabs m))"

definition get_inactive :: "nat \<Rightarrow> 'pane TabManager \<Rightarrow> 'pane Tab option" where
  "get_inactive logical m =
     (if logical = active_idx m \<or> tab_count m \<le> logical then None
      else let storage = (if logical < active_idx m then logical else logical - 1)
           in if storage < length (tabs m) then Some (tabs m ! storage) else None)"

text \<open>The loop over \<open>0..count\<close> that consumes the stored tabs with an iterator.\<close>

fun tab_names_from ::
  "nat \<Rightarrow> nat \<Rightarrow> 'pane Tab list \<Rightarrow> nat \<Rightarrow> ustr \<Rightarrow> (nat \<times> ustr \<times> bool) list" where
  "tab_names_from i 0 storage active nm = []"
| "tab_names_from i (Suc k) storage active nm =
     (if i = active then (i, nm, True) # tab_names_from (Suc i) k storage active nm
      else case storage of
        t # rest \<Rightarrow> (i, tab_name t, False) # tab_names_from (Suc i) k rest active nm
      | [] \<Rightarrow> tab_names_from (Suc i) k [] active nm)"

definition tab_names :: "ustr \<Rightarrow> 'pane TabManager \<Rightarrow> (nat \<times> ustr \<times> bool) list" where
  "tab_names active_name m = tab_names_from 0 (tab_count m) (tabs m) (active_idx m) active_name"

section \<open>Invariant and abstract view\<close>

definition tm_inv :: "'pane TabManager \<Rightarrow> bool" where
  "tm_inv m \<longleftrightarrow> active_idx m < tab_count m \<and> length (tabs m) + 1 = tab_count m"

text \<open>All tabs in display order, the active one in its place.\<close>

definition view :: "'pane TabManager \<Rightarrow> 'pane Tab \<Rightarrow> 'pane Tab list" where
  "view m current = take (active_idx m) (tabs m) @ current # drop (active_idx m) (tabs m)"

lemma length_view: "tm_inv m \<Longrightarrow> length (view m c) = tab_count m"
  by (auto simp: tm_inv_def view_def min_def)

lemma view_active: "tm_inv m \<Longrightarrow> view m c ! active_idx m = c"
  by (auto simp: tm_inv_def view_def nth_append min_def)

lemma view_nth_inactive:
  assumes "tm_inv m" "i < tab_count m" "i \<noteq> active_idx m"
  shows "view m c ! i = tabs m ! (if i < active_idx m then i else i - 1)"
  using assms unfolding view_def tm_inv_def by (subst nth_insert) auto

text \<open>Removing the element in focus and putting it back is the identity on lists.\<close>

lemma take_drop_view: "i < length xs \<Longrightarrow> take i xs @ (xs ! i) # drop i (take i xs @ drop (Suc i) xs) = xs"
  by (simp add: min_def id_take_nth_drop[symmetric])

lemma view_of_remove:
  assumes "i < length xs"
  shows "view (m\<lparr>tabs := take i xs @ drop (Suc i) xs, active_idx := i\<rparr>) (xs ! i) = xs"
  using assms by (simp add: view_def min_def id_take_nth_drop[symmetric])

lemma insert_pos_active: "tm_inv m \<Longrightarrow> min (active_idx m) (length (tabs m)) = active_idx m"
  by (auto simp: tm_inv_def)

lemma switch_to_eq:
  assumes "tm_inv m" "target \<noteq> active_idx m" "target < tab_count m"
  shows "switch_to target cur m =
    Some (Some (view m cur ! target),
          m\<lparr>tabs := take target (view m cur) @ drop (Suc target) (view m cur), active_idx := target\<rparr>)"
proof -
  have "active_idx m \<le> length (tabs m)" using assms(1) by (auto simp: tm_inv_def)
  then have "vec_insert (active_idx m) cur (tabs m) = Some (view m cur)" by (simp add: view_def)
  moreover have "target < length (view m cur)" using assms by (simp add: length_view)
  ultimately show ?thesis using assms by (simp add: switch_to_def insert_pos_active Let_def)
qed

lemma create_tab_eq:
  assumes "tm_inv m"
  shows "create_tab cur m =
    Some (decimal (tab_next_id m),
          m\<lparr>tabs := view m cur, tab_next_id := tab_next_id m + 1,
            tab_count := tab_count m + 1, active_idx := tab_count m\<rparr>)"
proof -
  have "active_idx m \<le> length (tabs m)" using assms by (auto simp: tm_inv_def)
  then show ?thesis using assms by (simp add: create_tab_def insert_pos_active Let_def view_def)
qed

lemma close_active_eq:
  assumes "tm_inv m" "1 < tab_count m" "i = min (active_idx m) (tab_count m - 2)"
  shows "close_active m =
    Some (Some (tabs m ! i),
          m\<lparr>tabs := take i (tabs m) @ drop (Suc i) (tabs m),
            tab_count := tab_count m - 1, active_idx := i\<rparr>)"
proof -
  have i: "(if tab_count m - 1 \<le> active_idx m then tab_count m - 1 - 1 else active_idx m) = i"
    using assms by (auto simp: tm_inv_def)
  have "i < length (tabs m)" using assms by (auto simp: tm_inv_def)
  then show ?thesis using assms(2) unfolding close_active_def Let_def i by simp
qed

section \<open>The event loop's tab commands\<close>

text \<open>
  The event loop's state as far as tabs go: the manager, the local variables that hold the
  active tab (\<open>cur\<close>), \<open>settings.tab_count\<close>, the focus trackers, whether the input mode is
  \<open>Normal\<close>, the panes killed so far, and whether the loop has returned. A new tab's pane comes
  from \<open>spawn_pane_in\<close>, which may fail. Redrawing, resizing, the published events and the
  messages to clients are left out.
\<close>

record 'pane Session =
  mgr :: "'pane TabManager"
  cur :: "'pane Tab"
  shown_count :: nat
  last_active :: nat
  prev_active :: nat
  normal_mode :: bool
  kill_log :: "'pane list"
  stopped :: bool

datatype 'pane TabAction =
    NewTab "ustr option" "'pane option"
  | NextTab | PrevTab | GoToTab nat | CloseTab | Rename ustr | KillSession

text \<open>What \<open>mem::take\<close> and \<open>mem::replace\<close> leave in the local variables.\<close>

definition taken :: "'pane Tab \<Rightarrow> 'pane Tab" where
  "taken t = t\<lparr>tab_name := [], tab_layout := from_grid 1 1, tab_panes := [],
     restart_policies := [], restart_state := [], zoomed_pane := None\<rparr>"

text \<open>Unpacking a tab and resetting the per-interaction state.\<close>

definition unpack :: "'pane Tab \<Rightarrow> 'pane Session \<Rightarrow> 'pane Session" where
  "unpack t s = s\<lparr>cur := t, last_active := tab_active_pane t, prev_active := tab_active_pane t,
     normal_mode := True\<rparr>"

definition go_to :: "nat \<Rightarrow> 'pane Session \<Rightarrow> 'pane Session option" where
  "go_to target s =
     (if target \<noteq> active_idx (mgr s) \<and> target < tab_count (mgr s) then
        Option.bind (switch_to target (cur s) (mgr s)) (\<lambda>(r, m).
          case r of Some t \<Rightarrow> Some (unpack t (s\<lparr>mgr := m\<rparr>))
                  | None \<Rightarrow> Some (s\<lparr>mgr := m, cur := taken (cur s)\<rparr>))
      else Some s)"

definition close_tab :: "'pane Session \<Rightarrow> 'pane Session option" where
  "close_tab s =
     (let killed = s\<lparr>cur := drained (cur s), kill_log := kill_log s @ kill_all_panes (tab_panes (cur s))\<rparr>
      in if tab_count (mgr s) = 1 then Some (killed\<lparr>stopped := True\<rparr>)
      else if 1 < tab_count (mgr s) then
        Option.bind (close_active (mgr s)) (\<lambda>(r, m).
          case r of Some t \<Rightarrow> Some (unpack t (killed\<lparr>mgr := m, shown_count := tab_count m\<rparr>))
                  | None \<Rightarrow> Some (killed\<lparr>mgr := m\<rparr>))
      else Some s)"

definition new_tab :: "ustr option \<Rightarrow> 'pane option \<Rightarrow> 'pane Session \<Rightarrow> 'pane Session option" where
  "new_tab requested spawned s =
     Option.bind (create_tab (cur s) (mgr s)) (\<lambda>(nm, m).
       let nm' = (case requested of Some r \<Rightarrow> r | None \<Rightarrow> nm);
           s1 = s\<lparr>mgr := m, cur := (taken (cur s))\<lparr>tab_name := nm'\<rparr>, shown_count := tab_count m\<rparr>;
           pid = hd (pane_ids (from_grid 1 1))
       in case spawned of
            Some p \<Rightarrow> Some (unpack ((cur s1)\<lparr>tab_panes := [(pid, p)], tab_active_pane := pid,
                              broadcast := False\<rparr>) s1)
          | None \<Rightarrow>
              Option.bind (close_active m) (\<lambda>(r, m').
                case r of Some t \<Rightarrow> Some (s1\<lparr>mgr := m', cur := t, shown_count := tab_count m'\<rparr>)
                        | None \<Rightarrow> Some (s1\<lparr>mgr := m'\<rparr>)))"

definition kill_session :: "'pane Session \<Rightarrow> 'pane Session" where
  "kill_session s = s\<lparr>cur := drained (cur s), kill_log := kill_log s @ kill_all_panes (tab_panes (cur s)) @
     kill_all_inactive (mgr s), stopped := True\<rparr>"

fun tab_action :: "'pane TabAction \<Rightarrow> 'pane Session \<Rightarrow> 'pane Session option" where
  "tab_action (NewTab requested spawned) s = new_tab requested spawned s"
| "tab_action NextTab s = go_to (next_idx (mgr s)) s"
| "tab_action PrevTab s = go_to (prev_idx (mgr s)) s"
| "tab_action (GoToTab i) s = go_to i s"
| "tab_action CloseTab s = close_tab s"
| "tab_action (Rename nm) s = Some (s\<lparr>cur := (cur s)\<lparr>tab_name := nm\<rparr>\<rparr>)"
| "tab_action KillSession s = Some (kill_session s)"

text \<open>Once the loop has returned nothing more is handled.\<close>

definition tab_step :: "'pane TabAction \<Rightarrow> 'pane Session \<Rightarrow> 'pane Session option" where
  "tab_step e s = (if stopped s then Some s else tab_action e s)"

section \<open>Refinement of a list with a focus\<close>

text \<open>The abstract session: the list of all tabs, the index of the active one, and whether the
  session has ended.\<close>

definition abs_session :: "'pane Session \<Rightarrow> 'pane Tab list \<times> nat \<times> bool" where
  "abs_session s = (view (mgr s) (cur s), active_idx (mgr s), stopped s)"

definition fresh_tab :: "ustr \<Rightarrow> 'pane \<Rightarrow> 'pane Tab" where
  "fresh_tab nm p = tab_new nm (from_grid 1 1) [(0, p)] 0"

fun spec_step ::
  "nat \<Rightarrow> 'pane TabAction \<Rightarrow> 'pane Tab list \<times> nat \<times> bool \<Rightarrow> 'pane Tab list \<times> nat \<times> bool" where
  "spec_step nid e (ts, i, True) = (ts, i, True)"
| "spec_step nid (NewTab requested (Some p)) (ts, i, False) =
     (ts @ [fresh_tab (case requested of Some r \<Rightarrow> r | None \<Rightarrow> decimal nid) p], length ts, False)"
| "spec_step nid (NewTab requested None) (ts, i, False) = (ts, length ts - 1, False)"
| "spec_step nid NextTab (ts, i, False) = (ts, (i + 1) mod length ts, False)"
| "spec_step nid PrevTab (ts, i, False) = (ts, (i + length ts - 1) mod length ts, False)"
| "spec_step nid (GoToTab j) (ts, i, False) = (ts, if j < length ts then j else i, False)"
| "spec_step nid CloseTab (ts, i, False) =
     (if length ts \<le> 1 then (ts[i := drained (ts ! i)], i, True)
      else (take i ts @ drop (Suc i) ts, min i (length ts - 2), False))"
| "spec_step nid (Rename nm) (ts, i, False) = (ts[i := (ts ! i)\<lparr>tab_name := nm\<rparr>], i, False)"
| "spec_step nid KillSession (ts, i, False) = (ts[i := drained (ts ! i)], i, True)"

definition session_inv :: "'pane Session \<Rightarrow> bool" where
  "session_inv s \<longleftrightarrow> tm_inv (mgr s) \<and> shown_count s = tab_count (mgr s)"

text \<open>The panes a session answers for: those killed and, while it runs, those of its tabs.\<close>

definition panes_of :: "'pane Tab list \<Rightarrow> 'pane list" where
  "panes_of ts = concat (map (\<lambda>t. map snd (tab_panes t)) ts)"

definition accounted :: "'pane Session \<Rightarrow> 'pane multiset" where
  "accounted s = mset (kill_log s) +
     (if stopped s then {#} else mset (panes_of (view (mgr s) (cur s))))"

fun spawned_by :: "'pane TabAction \<Rightarrow> 'pane multiset" where
  "spawned_by (NewTab r (Some p)) = {#p#}"
| "spawned_by _ = {#}"

lemma go_to_refines:
  assumes "session_inv s"
  shows "\<exists>s'. go_to i s = Some s' \<and> session_inv s' \<and> stopped s' = stopped s \<and> kill_log s' = kill_log s \<and>
    view (mgr s') (cur s') = view (mgr s) (cur s) \<and>
    active_idx (mgr s') = (if i < tab_count (mgr s) then i else active_idx (mgr s))"
proof (cases "i \<noteq> active_idx (mgr s) \<and> i < tab_count (mgr s)")
  case True
  have m: "tm_inv (mgr s)" using assms by (simp add: session_inv_def)
  define v where "v = view (mgr s) (cur s)"
  have l: "length v = tab_count (mgr s)" by (simp add: v_def length_view[OF m])
  from True m l assms show ?thesis
    by (simp add: go_to_def switch_to_eq view_of_remove session_inv_def tm_inv_def unpack_def flip: v_def)
next
  case False
  with assms show ?thesis by (auto simp: go_to_def session_inv_def tm_inv_def)
qed

lemma close_view:
  assumes "tm_inv m" "1 < tab_count m"
  obtains t m' where "close_active m = Some (Some t, m')" "tm_inv m'"
    "view m' t = take (active_idx m) (view m c) @ drop (Suc (active_idx m)) (view m c)"
    "active_idx m' = min (active_idx m) (tab_count m - 2)" "tab_count m' = tab_count m - 1"
    "tab_next_id m' = tab_next_id m"
proof -
  define i where "i = min (active_idx m) (tab_count m - 2)"
  have i: "i < length (tabs m)" "i = min (active_idx m) (tab_count m - 2)"
    using assms by (auto simp: i_def tm_inv_def)
  define m' where "m' = m\<lparr>tabs := take i (tabs m) @ drop (Suc i) (tabs m),
      tab_count := tab_count m - 1, active_idx := i\<rparr>"
  have "close_active m = Some (Some (tabs m ! i), m')"
    using close_active_eq[OF assms i(2)] by (simp add: m'_def)
  moreover have "view m' (tabs m ! i) = tabs m"
    using i(1) by (simp add: m'_def view_def min_def id_take_nth_drop[symmetric])
  moreover have "take (active_idx m) (view m c) @ drop (Suc (active_idx m)) (view m c) = tabs m"
    using assms by (auto simp: view_def tm_inv_def min_def)
  moreover have "tm_inv m'" using assms i by (auto simp: m'_def tm_inv_def)
  ultimately show thesis using that[of "tabs m ! i" m'] i(2) by (simp add: m'_def)
qed

lemma unpack_simps [simp]:
  "mgr (unpack t s) = mgr s" "cur (unpack t s) = t" "shown_count (unpack t s) = shown_count s"
  "kill_log (unpack t s) = kill_log s" "stopped (unpack t s) = stopped s"
  by (simp_all add: unpack_def)

lemma pane_of_single: "pane_ids (from_grid 1 1) = [0]"
  by (simp add: from_grid_def pane_ids_def build_grid.simps build_row.simps)

lemma fresh_tab_eq:
  "(taken t)\<lparr>tab_name := nm, tab_panes := [(0, p)], tab_active_pane := 0, broadcast := False\<rparr> = fresh_tab nm p"
  by (simp add: taken_def fresh_tab_def tab_new_def)

lemma new_tab_refines:
  assumes "session_inv s"
  shows "\<exists>s'. new_tab r sp s = Some s' \<and> session_inv s' \<and> stopped s' = stopped s \<and> kill_log s' = kill_log s \<and>
    view (mgr s') (cur s') = view (mgr s) (cur s) @
      (case sp of Some p \<Rightarrow> [fresh_tab (case r of Some r \<Rightarrow> r | None \<Rightarrow> decimal (tab_next_id (mgr s))) p] | None \<Rightarrow> []) \<and>
    active_idx (mgr s') = (case sp of Some p \<Rightarrow> tab_count (mgr s) | None \<Rightarrow> tab_count (mgr s) - 1)"
proof -
  have m: "tm_inv (mgr s)" using assms by (simp add: session_inv_def)
  define v where "v = view (mgr s) (cur s)"
  define m1 where "m1 = (mgr s)\<lparr>tabs := v, tab_next_id := tab_next_id (mgr s) + 1,
      tab_count := tab_count (mgr s) + 1, active_idx := tab_count (mgr s)\<rparr>"
  have c: "create_tab (cur s) (mgr s) = Some (decimal (tab_next_id (mgr s)), m1)"
    by (simp add: create_tab_eq[OF m] m1_def v_def)
  have l: "length v = tab_count (mgr s)" unfolding v_def by (rule length_view[OF m])
  have i1: "tm_inv m1" using l by (simp add: m1_def tm_inv_def)
  have v1: "view m1 t = v @ [t]" for t using l by (subst view_def) (simp add: m1_def)
  have a1: "active_idx m1 = length v" "tab_count m1 = length v + 1" using l by (simp_all add: m1_def)
  show ?thesis
  proof (cases sp)
    case (Some p)
    then show ?thesis using i1 v1 a1 l
      by (simp add: new_tab_def c session_inv_def Let_def pane_of_single fresh_tab_eq
          del: One_nat_def flip: v_def)
  next
    case None
    have n: "1 < tab_count m1" using m by (simp add: m1_def tm_inv_def)
    obtain t m' where cl: "close_active m1 = Some (Some t, m')" "tm_inv m'"
      "view m' t = take (active_idx m1) (view m1 undefined) @ drop (Suc (active_idx m1)) (view m1 undefined)"
      "active_idx m' = min (active_idx m1) (tab_count m1 - 2)"
      by (rule close_view[OF i1 n])
    have "view m' t = v" "active_idx m' = tab_count (mgr s) - 1"
      using cl(3,4) m by (simp_all add: v1 a1 l tm_inv_def)
    then show ?thesis using None cl(1,2)
      by (simp add: new_tab_def c session_inv_def Let_def flip: v_def)
  qed
qed

lemma update_view:
  assumes "tm_inv m"
  shows "view m (f c) = (view m c)[active_idx m := f (view m c ! active_idx m)]"
  unfolding view_active[OF assms] using assms
  by (auto simp: view_def tm_inv_def list_update_append min_def)

lemma close_tab_refines:
  assumes "session_inv s" "\<not> stopped s"
  shows "\<exists>s'. close_tab s = Some s' \<and> session_inv s' \<and>
    abs_session s' = spec_step nid CloseTab (abs_session s) \<and>
    kill_log s' = kill_log s @ map snd (tab_panes (cur s))"
proof (cases "1 < tab_count (mgr s)")
  case True
  have m: "tm_inv (mgr s)" using assms by (simp add: session_inv_def)
  obtain t m' where "close_active (mgr s) = Some (Some t, m')" "tm_inv m'"
      "view m' t = take (active_idx (mgr s)) (view (mgr s) (cur s)) @ drop (Suc (active_idx (mgr s))) (view (mgr s) (cur s))"
      "active_idx m' = min (active_idx (mgr s)) (tab_count (mgr s) - 2)"
    by (rule close_view[OF m True])
  with True length_view[OF m] assms(2) show ?thesis
    by (simp add: close_tab_def abs_session_def session_inv_def kill_all_panes_def Let_def)
next
  case False
  then have "tab_count (mgr s) = 1" using assms(1) by (auto simp: session_inv_def tm_inv_def)
  moreover have "tm_inv (mgr s)" using assms(1) by (simp add: session_inv_def)
  note update_view[OF this, of drained "cur s"]
  ultimately show ?thesis using assms length_view[of "mgr s" "cur s"]
    by (simp add: close_tab_def abs_session_def session_inv_def kill_all_panes_def Let_def)
qed

lemma prev_idx_mod:
  assumes "tm_inv m"
  shows "prev_idx m = (active_idx m + tab_count m - 1) mod tab_count m"
  using assms by (cases "active_idx m") (auto simp: prev_idx_def tm_inv_def)

lemma next_idx_mod: "tm_inv m \<Longrightarrow> next_idx m = (active_idx m + 1) mod tab_count m"
  by (cases "tab_count m = 1") (auto simp: next_idx_def tm_inv_def)

lemma panes_of_simps [simp]:
  "panes_of [] = []" "panes_of (t # ts) = map snd (tab_panes t) @ panes_of ts"
  "panes_of (ts @ us) = panes_of ts @ panes_of us"
  by (simp_all add: panes_of_def)

lemma panes_of_view:
  "mset (panes_of (view m c)) = mset (map snd (tab_panes c)) + mset (panes_of (tabs m))"
proof -
  have "mset (panes_of (tabs m)) = mset (panes_of (take (active_idx m) (tabs m))) + mset (panes_of (drop (active_idx m) (tabs m)))"
    by (metis append_take_drop_id mset_append panes_of_simps(3))
  then show ?thesis by (simp add: view_def)
qed

lemma spec_step_stopped [simp]: "spec_step nid e (ts, i, True) = (ts, i, True)"
  by simp

text \<open>One command: the effect on the abstract session and on the panes.\<close>

definition effect :: "'pane TabAction \<Rightarrow> 'pane Session \<Rightarrow> 'pane Session option \<Rightarrow> bool" where
  "effect e s r \<longleftrightarrow> (\<exists>s'. r = Some s' \<and> session_inv s' \<and>
    abs_session s' = spec_step (tab_next_id (mgr s)) e (abs_session s) \<and>
    accounted s' = accounted s + spawned_by e)"

lemma abs_running: "\<not> stopped s \<Longrightarrow> abs_session s = (view (mgr s) (cur s), active_idx (mgr s), False)"
  by (simp add: abs_session_def)

lemma abs_sessionD:
  "abs_session s = (v, i, b) \<Longrightarrow> view (mgr s) (cur s) = v \<and> active_idx (mgr s) = i \<and> stopped s = b"
  by (simp add: abs_session_def)

lemma effect_new_tab:
  assumes "session_inv s" "\<not> stopped s"
  shows "effect (NewTab r sp) s (new_tab r sp s)"
proof -
  have l: "length (view (mgr s) (cur s)) = tab_count (mgr s)"
    using assms by (simp add: session_inv_def length_view)
  have f: "map snd (tab_panes (fresh_tab nm p)) = [p]" for nm and p :: 'a
    by (simp add: fresh_tab_def tab_new_def)
  obtain s' where s': "new_tab r sp s = Some s'" "session_inv s'" "stopped s' = stopped s"
    "kill_log s' = kill_log s"
    "view (mgr s') (cur s') = view (mgr s) (cur s) @
      (case sp of Some p \<Rightarrow> [fresh_tab (case r of Some r \<Rightarrow> r | None \<Rightarrow> decimal (tab_next_id (mgr s))) p] | None \<Rightarrow> [])"
    "active_idx (mgr s') = (case sp of Some p \<Rightarrow> tab_count (mgr s) | None \<Rightarrow> tab_count (mgr s) - 1)"
    using new_tab_refines[OF assms(1), of r sp] by blast
  show ?thesis
    unfolding effect_def s'(1)
    by (rule exI[of _ s'], cases sp)
      (simp_all add: s' abs_running assms(2) accounted_def l f)
qed

lemma effect_close_tab:
  assumes "session_inv s" "\<not> stopped s"
  shows "effect CloseTab s (close_tab s)"
proof -
  have m: "tm_inv (mgr s)" using assms by (simp add: session_inv_def)
  have l: "length (view (mgr s) (cur s)) = tab_count (mgr s)" by (rule length_view[OF m])
  obtain s' where s': "close_tab s = Some s'" "session_inv s'"
      "abs_session s' = spec_step (tab_next_id (mgr s)) CloseTab (abs_session s)"
      "kill_log s' = kill_log s @ map snd (tab_panes (cur s))"
    using close_tab_refines[OF assms] by blast
  have "accounted s' = accounted s"
  proof (cases "tab_count (mgr s) \<le> 1")
    case True
    then have "length (tabs (mgr s)) = 0" using m unfolding tm_inv_def by linarith
    then have t: "tabs (mgr s) = []" by simp
    have "snd (snd (abs_session s'))"
      using s'(3) True l by (simp add: abs_running[OF assms(2)])
    then have "stopped s'" by (simp add: abs_session_def)
    then show ?thesis using s'(4) assms(2) t by (simp add: accounted_def panes_of_view)
  next
    case False
    have "view (mgr s') (cur s') = take (active_idx (mgr s)) (view (mgr s) (cur s)) @
        drop (Suc (active_idx (mgr s))) (view (mgr s) (cur s))" "\<not> stopped s'"
      using s'(3)[unfolded abs_running[OF assms(2)]] False l by (simp_all add: abs_session_def)
    moreover have "active_idx (mgr s) \<le> length (tabs (mgr s))" using m by (auto simp: tm_inv_def)
    ultimately have "view (mgr s') (cur s') = tabs (mgr s)" "\<not> stopped s'"
      by (simp_all add: view_def[of "mgr s"] min_def)
    then show ?thesis using s'(4) assms(2) by (simp add: accounted_def panes_of_view[of "mgr s"])
  qed
  then show ?thesis using s' by (simp add: effect_def)
qed

lemma effect_go_to:
  assumes "session_inv s" "\<not> stopped s"
    "spec_step (tab_next_id (mgr s)) e (abs_session s) =
      (view (mgr s) (cur s), if i < tab_count (mgr s) then i else active_idx (mgr s), False)"
    "spawned_by e = {#}"
  shows "effect e s (go_to i s)"
proof -
  obtain s' where "go_to i s = Some s'" "session_inv s'" "stopped s' = stopped s" "kill_log s' = kill_log s"
    "view (mgr s') (cur s') = view (mgr s) (cur s)"
    "active_idx (mgr s') = (if i < tab_count (mgr s) then i else active_idx (mgr s))"
    using go_to_refines[OF assms(1), of i] by blast
  then show ?thesis using assms(2-) by (simp add: effect_def abs_running accounted_def)
qed

lemma effect_rename:
  assumes "session_inv s" "\<not> stopped s"
  shows "effect (Rename nm) s (Some (s\<lparr>cur := (cur s)\<lparr>tab_name := nm\<rparr>\<rparr>))"
proof -
  have "accounted (s\<lparr>cur := (cur s)\<lparr>tab_name := nm\<rparr>\<rparr>) = accounted s"
    by (simp add: accounted_def panes_of_view)
  then show ?thesis using assms update_view[of "mgr s" "\<lambda>c. c\<lparr>tab_name := nm\<rparr>" "cur s"]
    by (simp add: effect_def abs_running session_inv_def)
qed

lemma effect_kill:
  assumes "session_inv s" "\<not> stopped s"
  shows "effect KillSession s (Some (kill_session s))"
proof -
  have "kill_all_inactive (mgr s) = panes_of (tabs (mgr s))"
    by (simp add: kill_all_inactive_def kill_all_panes_def panes_of_def)
  then show ?thesis using assms update_view[of "mgr s" drained "cur s"]
    by (simp add: effect_def kill_session_def abs_session_def accounted_def session_inv_def
        kill_all_panes_def panes_of_view)
qed

lemma tab_action_effect:
  assumes "session_inv s" "\<not> stopped s"
  shows "effect e s (tab_action e s)"
proof -
  have m: "tm_inv (mgr s)" and l: "length (view (mgr s) (cur s)) = tab_count (mgr s)"
    and p: "0 < tab_count (mgr s)"
    using assms by (auto simp: session_inv_def length_view tm_inv_def)
  have a: "active_idx (mgr s) + tab_count (mgr s) - 1 = active_idx (mgr s) + (tab_count (mgr s) - 1)"
    using p by simp
  show ?thesis
  proof (cases e)
    case NextTab
    then show ?thesis using assms l m p
      by (simp add: effect_go_to abs_running next_idx_mod)
  next
    case PrevTab
    then show ?thesis using assms l m p
      by (simp add: effect_go_to abs_running prev_idx_mod)
  qed (use assms l in \<open>simp_all add: effect_new_tab effect_close_tab effect_rename effect_kill effect_go_to abs_running\<close>)
qed

lemma tab_step_refines:
  assumes "session_inv s"
  shows "\<exists>s'. tab_step e s = Some s' \<and> session_inv s' \<and>
    abs_session s' = spec_step (tab_next_id (mgr s)) e (abs_session s) \<and>
    accounted s' = accounted s + (if stopped s then {#} else spawned_by e)"
  using tab_action_effect[OF assms, of e] assms
  by (cases "stopped s") (auto simp: tab_step_def effect_def abs_session_def)

text \<open>A run of commands: what it has spawned is added, until the session ends.\<close>

definition tab_progress :: "'pane Session \<Rightarrow> 'pane TabAction list \<Rightarrow> 'pane Session \<Rightarrow> bool" where
  "tab_progress s es s' \<longleftrightarrow>
     accounted s' \<subseteq># accounted s + sum_list (map spawned_by es) \<and> accounted s \<subseteq># accounted s' \<and>
     (\<not> stopped s' \<longrightarrow> accounted s' = accounted s + sum_list (map spawned_by es))"

lemma tab_run_stopped: "stopped s \<Longrightarrow> fold_opt tab_step es s = Some s"
  by (induction es) (simp_all add: tab_step_def)

lemma tab_progress_running:
  assumes "accounted u = accounted t + spawned_by e" "tab_progress u es s'"
  shows "tab_progress t (e # es) s'"
proof -
  have "accounted t \<subseteq># accounted u" using assms(1) by simp
  then have "accounted t \<subseteq># accounted s'"
    using assms(2) unfolding tab_progress_def by (blast intro: subset_mset.order_trans)
  then show ?thesis using assms by (simp add: tab_progress_def ac_simps)
qed

lemma tab_run_progress:
  assumes "session_inv s"
  shows "\<exists>s'. fold_opt tab_step es s = Some s' \<and> session_inv s' \<and> tab_progress s es s'"
  using assms
proof (induction es arbitrary: s)
  case Nil
  then show ?case by (simp add: tab_progress_def)
next
  case (Cons e es)
  show ?case
  proof (cases "stopped s")
    case True
    then have "fold_opt tab_step (e # es) s = Some s" by (rule tab_run_stopped)
    then show ?thesis using Cons.prems True by (simp add: tab_progress_def)
  next
    case False
    obtain u where u: "tab_step e s = Some u" "session_inv u" "accounted u = accounted s + spawned_by e"
      using tab_step_refines[OF Cons.prems, of e] False by auto
    obtain s' where s': "fold_opt tab_step es u = Some s'" "session_inv s'" "tab_progress u es s'"
      using Cons.IH[OF u(2)] by blast
    then show ?thesis using u(1) tab_progress_running[OF u(3) s'(3)] by simp
  qed
qed

interpretation tab_machine: safe_machine tab_step session_inv "\<lambda>_ _. True"
  by unfold_locales (use tab_step_refines in blast)

section \<open>Listing the tabs\<close>

lemma tab_names_from_all:
  "active < i \<Longrightarrow> length ts = k \<Longrightarrow>
     tab_names_from i k ts active nm = zip [i..<i + k] (map (\<lambda>t. (tab_name t, False)) ts)"
  by (induction k arbitrary: i ts) (auto simp: length_Suc_conv upt_conv_Cons simp del: upt_Suc)

lemma tab_names_from_view:
  assumes "i \<le> active" "active < i + k" "length ts + 1 = k"
  shows "tab_names_from i k ts active nm =
    zip [i..<i + k] (map (\<lambda>t. (tab_name t, False)) (take (active - i) ts) @ (nm, True) #
                     map (\<lambda>t. (tab_name t, False)) (drop (active - i) ts))"
  using assms
proof (induction k arbitrary: i ts)
  case (Suc k)
  show ?case
  proof (cases "i = active")
    case True
    with Suc.prems show ?thesis
      by (simp add: tab_names_from_all upt_conv_Cons del: upt_Suc)
  next
    case False
    with Suc.prems obtain t rest where ts: "ts = t # rest" by (cases ts) auto
    have d: "active - i = Suc (active - Suc i)" using False Suc.prems by simp
    have "tab_names_from (Suc i) k rest active nm =
      zip [Suc i..<Suc i + k] (map (\<lambda>t. (tab_name t, False)) (take (active - Suc i) rest) @ (nm, True) #
                     map (\<lambda>t. (tab_name t, False)) (drop (active - Suc i) rest))"
      using Suc.prems False ts by (intro Suc.IH) auto
    then show ?thesis using False ts d by (simp add: upt_conv_Cons del: upt_Suc)
  qed
qed simp

section \<open>Properties\<close>

text \<open>C2. The gap representation implements a plain list of tabs with a focus: each command of
  the event loop returns (no index is out of range), keeps the manager's invariant and the count
  the settings show in step with it, and has exactly the effect of the list operation. No tab
  is lost, duplicated or reordered.\<close>

theorem tabs_refine_list:
  assumes "session_inv s"
  shows "\<exists>s'. tab_step e s = Some s' \<and> session_inv s' \<and>
    abs_session s' = spec_step (tab_next_id (mgr s)) e (abs_session s)"
  using tab_step_refines[OF assms, of e] by blast

definition demo_tab :: "string \<Rightarrow> nat Tab" where
  "demo_tab nm = tab_new (ascii nm) (from_grid 1 1) [(0, 7)] 0"

definition demo_session :: "nat Session" where
  "demo_session =
     \<lparr>mgr = \<lparr>tabs = [demo_tab ''a'', demo_tab ''c''], active_idx = 1, tab_count = 3, tab_next_id = 4\<rparr>,
      cur = demo_tab ''b'', shown_count = 3, last_active = 0, prev_active = 0, normal_mode = True,
      kill_log = [], stopped = False\<rparr>"

lemma demo_session_inv: "session_inv demo_session"
  by (simp add: session_inv_def demo_session_def tm_inv_def)

theorem tabs_refine_list_witness:
  "\<exists>s'. tab_step (GoToTab 0) demo_session = Some s' \<and>
    abs_session s' = ([demo_tab ''a'', demo_tab ''b'', demo_tab ''c''], 0, False)"
proof -
  have "spec_step 4 (GoToTab 0) (abs_session demo_session) =
      ([demo_tab ''a'', demo_tab ''b'', demo_tab ''c''], 0, False)"
    by (simp add: abs_session_def demo_session_def view_def)
  moreover have "tab_next_id (mgr demo_session) = 4" by (simp add: demo_session_def)
  ultimately show ?thesis using tabs_refine_list[OF demo_session_inv, of "GoToTab 0"] by metis
qed

text \<open>The tab bar lists every tab once, in order, with its name, and marks exactly the
  active one; looking a tab up by its index in the bar finds the tab listed there.\<close>

theorem tab_names_view:
  assumes "tm_inv m"
  shows "tab_names (tab_name c) m =
      map (\<lambda>i. (i, tab_name (view m c ! i), i = active_idx m)) [0..<tab_count m] \<and>
    (\<forall>i. get_inactive i m = (if i < tab_count m \<and> i \<noteq> active_idx m then Some (view m c ! i) else None))"
proof
  have a: "active_idx m < tab_count m" "length (tabs m) + 1 = tab_count m"
    using assms by (auto simp: tm_inv_def)
  have n: "tab_names (tab_name c) m = zip [0..<tab_count m]
      (map (\<lambda>t. (tab_name t, False)) (take (active_idx m) (tabs m)) @ (tab_name c, True) #
       map (\<lambda>t. (tab_name t, False)) (drop (active_idx m) (tabs m)))" (is "_ = zip _ ?r")
    unfolding tab_names_def using tab_names_from_view[of 0 "active_idx m" "tab_count m" "tabs m"] a by simp
  have l: "length ?r = tab_count m" using a by simp
  have "?r ! i = (tab_name (view m c ! i), i = active_idx m)" if "i < tab_count m" for i
    using a that by (auto simp: view_def nth_append nth_Cons min_def split: nat.split)
  then show "tab_names (tab_name c) m =
      map (\<lambda>i. (i, tab_name (view m c ! i), i = active_idx m)) [0..<tab_count m]"
    unfolding n using l by (intro nth_equalityI) auto
  show "\<forall>i. get_inactive i m = (if i < tab_count m \<and> i \<noteq> active_idx m then Some (view m c ! i) else None)"
    using view_nth_inactive[OF assms, where c = c] a by (auto simp: get_inactive_def Let_def)
qed

theorem tab_names_view_witness:
  "tab_names (ascii ''b'') (mgr demo_session) =
     [(0, ascii ''a'', False), (1, ascii ''b'', True), (2, ascii ''c'', False)]"
proof -
  have i: "tm_inv (mgr demo_session)" by (simp add: demo_session_def tm_inv_def)
  have "tab_name (demo_tab ''b'') = ascii ''b''" by (simp add: demo_tab_def tab_new_def)
  then show ?thesis using tab_names_view[OF i, of "demo_tab ''b''"]
    by (simp add: demo_session_def view_def demo_tab_def tab_new_def upt_rec)
qed

text \<open>C10. When the spawn of a new tab's pane fails, the handler's revert keeps every tab but
  puts the focus on the last one: the tab the user was on is restored exactly when it was the
  last.\<close>

theorem failed_new_tab_focus:
  assumes "session_inv s" "\<not> stopped s" "tab_step (NewTab r None) s = Some s'"
  shows "view (mgr s') (cur s') = view (mgr s) (cur s) \<and>
    active_idx (mgr s') = tab_count (mgr s) - 1 \<and>
    (active_idx (mgr s') = active_idx (mgr s) \<longleftrightarrow> active_idx (mgr s) = tab_count (mgr s) - 1)"
proof -
  have "length (view (mgr s) (cur s)) = tab_count (mgr s)"
    using assms(1) by (simp add: session_inv_def length_view)
  moreover have "abs_session s' = spec_step (tab_next_id (mgr s)) (NewTab r None) (abs_session s)"
    using tab_step_refines[OF assms(1), of "NewTab r None"] assms(3) by simp
  ultimately show ?thesis using assms(2) by (auto simp: abs_session_def)
qed

theorem failed_new_tab_focus_witness:
  "\<exists>s'. tab_step (NewTab None None) demo_session = Some s' \<and>
     active_idx (mgr demo_session) = 1 \<and> active_idx (mgr s') = 2"
proof -
  obtain s' where s: "tab_step (NewTab None None) demo_session = Some s'"
    using tab_step_refines[OF demo_session_inv] by blast
  have r: "\<not> stopped demo_session" by (simp add: demo_session_def)
  show ?thesis using failed_new_tab_focus[OF demo_session_inv r s] s by (simp add: demo_session_def)
qed

text \<open>C9. No pane leaks. A session of tab commands, including failed spawns, closed tabs and the
  end of the session, never panics; the panes it has killed together with the panes of its tabs
  are at every moment exactly the panes it began with and those spawned since; and when the
  session has ended, every one of them has been killed.\<close>

theorem tab_session_no_leak:
  assumes "session_inv s" "stopped s = False"
  shows "\<exists>s'. fold_opt tab_step es s = Some s' \<and> session_inv s' \<and>
    accounted s' \<subseteq># accounted s + sum_list (map spawned_by es) \<and>
    (if stopped s' then accounted s \<subseteq># mset (kill_log s')
     else accounted s' = accounted s + sum_list (map spawned_by es) \<and>
       view (mgr s') (cur s') ! active_idx (mgr s') = cur s')"
proof -
  obtain s' where s': "fold_opt tab_step es s = Some s'" "session_inv s'" "tab_progress s es s'"
    using tab_run_progress[OF assms(1)] by blast
  have "view (mgr s') (cur s') ! active_idx (mgr s') = cur s'"
    using s'(2) by (simp add: session_inv_def view_active)
  then show ?thesis using s' by (cases "stopped s'") (simp_all add: tab_progress_def accounted_def[of s'])
qed

theorem tab_session_no_leak_witness:
  "\<exists>s'. fold_opt tab_step [NextTab, CloseTab, NewTab None (Some 9), PrevTab, KillSession] demo_session = Some s' \<and>
     session_inv s' \<and> accounted demo_session = {#7, 7, 7#}"
proof -
  have r: "stopped demo_session = False" by (simp add: demo_session_def)
  have "accounted demo_session = {#7, 7, 7#}"
    by (simp add: demo_session_def accounted_def view_def demo_tab_def tab_new_def)
  then show ?thesis using tab_session_no_leak[OF demo_session_inv r] by blast
qed

end
