(* ===== verification/WidePairs.thy ===== *)
theory WidePairs
  imports Prelude
begin

text \<open>
  Rows of cells in which a wide character takes two adjacent cells. \<open>paired\<close> says that first
  and second halves always come together; the locale \<open>wide_cells\<close> is the contract rows rely
  on, which \<open>VtCell\<close> discharges for the packed cells of \<open>src/src/vt100/cell.rs\<close>. Its lemmas
  say which edits of a row keep the halves together: blanking a set of cells that contains
  whole characters, inserting or removing a plain cell between characters, cutting and
  extending a row, and writing a wide character over plain cells.
\<close>

definition has :: "('c \<Rightarrow> bool) \<Rightarrow> 'c list \<Rightarrow> nat \<Rightarrow> bool" where
  "has p xs i \<longleftrightarrow> i < length xs \<and> p (xs ! i)"

definition paired :: "('c \<Rightarrow> bool) \<Rightarrow> ('c \<Rightarrow> bool) \<Rightarrow> 'c list \<Rightarrow> bool" where
  "paired wide cont xs \<longleftrightarrow>
     (\<forall>i\<le>length xs. has wide xs i = has cont xs (Suc i)) \<and> \<not> has cont xs 0"

definition tiled :: "('c \<Rightarrow> bool) \<Rightarrow> ('c \<Rightarrow> bool) \<Rightarrow> ('c \<Rightarrow> bool) \<Rightarrow> 'c list \<Rightarrow> bool" where
  "tiled ok wide cont xs \<longleftrightarrow> list_all ok xs \<and> paired wide cont xs"

lemma has_simps [simp]:
  "has p [] i = False" "has p (x # xs) 0 = p x" "has p (x # xs) (Suc i) = has p xs i"
  by (simp_all add: has_def)

lemma has_less: "has p xs i \<Longrightarrow> i < length xs"
  by (simp add: has_def)

lemma has_append: "has p (xs @ ys) i = (if i < length xs then has p xs i else has p ys (i - length xs))"
  by (auto simp: has_def nth_append)

lemma has_take: "has p (take n xs) i = (i < n \<and> has p xs i)"
  by (auto simp: has_def)

lemma has_drop: "has p (drop n xs) i = has p xs (n + i)"
  by (auto simp: has_def)

lemma has_Cons: "has p (x # xs) j = (case j of 0 \<Rightarrow> p x | Suc k \<Rightarrow> has p xs k)"
  by (cases j) simp_all

lemma has_update: "has p (xs[i := x]) j = (if i = j \<and> i < length xs then p x else has p xs j)"
  by (auto simp: has_def nth_list_update)

lemma has_replicate: "has p (replicate n x) i = (i < n \<and> p x)"
  by (auto simp: has_def)

lemma paired_iff:
  "paired wide cont xs \<longleftrightarrow> (\<forall>i. has wide xs i = has cont xs (Suc i)) \<and> \<not> has cont xs 0"
  by (auto simp: paired_def) (metis has_less le_cases nat_less_le Suc_lessD)+

lemma tiledD:
  assumes "tiled ok wide cont xs"
  shows "has wide xs i = has cont xs (Suc i)" "\<not> has cont xs 0" "i < length xs \<Longrightarrow> ok (xs ! i)"
  using assms by (auto simp: tiled_def paired_iff list_all_length)

text \<open>The cells of the character a position belongs to.\<close>

definition char_at :: "('c \<Rightarrow> bool) \<Rightarrow> ('c \<Rightarrow> bool) \<Rightarrow> 'c list \<Rightarrow> nat \<Rightarrow> nat set" where
  "char_at wide cont xs i =
     {i} \<union> (if wide (xs ! i) then {Suc i} else if cont (xs ! i) then {i - 1} else {})"

lemma has_insert:
  assumes "i \<le> length xs"
  shows "has p (take i xs @ x # drop i xs) j =
    (if j < i then has p xs j else if j = i then p x else has p xs (j - 1))"
proof -
  consider "j < i" | "j = i" | k where "j = Suc (i + k)" using less_imp_Suc_add by (metis not_less_iff_gr_or_eq)
  then show ?thesis using assms by cases (auto simp: has_append has_take has_drop min_def dest: has_less)
qed

lemma has_remove:
  assumes "i < length xs"
  shows "has p (take i xs @ drop (Suc i) xs) j = (if j < i then has p xs j else has p xs (Suc j))"
  using assms by (auto simp: has_append has_take has_drop min_def)

locale wide_cells =
  fixes ok :: "'c \<Rightarrow> bool" and wide :: "'c \<Rightarrow> bool" and cont :: "'c \<Rightarrow> bool" and blank :: "'c \<Rightarrow> bool"
    and clear :: "'a \<Rightarrow> 'c \<Rightarrow> 'c" and mark :: "bool \<Rightarrow> 'c \<Rightarrow> 'c"
  assumes clear_ok: "ok c \<Longrightarrow> ok (clear a c)"
    and clear_plain: "\<not> wide (clear a c)" "\<not> cont (clear a c)" "blank (clear a c)"
    and cont_blank: "ok c \<Longrightarrow> cont c \<Longrightarrow> blank c \<and> \<not> wide c"
    and mark_ok: "ok c \<Longrightarrow> blank c \<Longrightarrow> \<not> wide c \<Longrightarrow> ok (mark b c)"
    and mark_flags: "wide (mark b c) = wide c" "cont (mark b c) = b" "blank (mark b c) = blank c"
begin

lemma tiled_plain: "list_all (\<lambda>c. ok c \<and> \<not> wide c \<and> \<not> cont c) xs \<Longrightarrow> tiled ok wide cont xs"
  by (auto simp: tiled_def paired_iff list_all_length has_def)

text \<open>The cells of \<open>S\<close> are made plain; \<open>S\<close> contains both halves of every character it
  touches.\<close>

lemma tiled_blank:
  assumes "tiled ok wide cont xs" "length ys = length xs" "list_all ok ys"
    and "\<And>j. j < length xs \<Longrightarrow> j \<notin> S \<Longrightarrow> wide (ys ! j) = wide (xs ! j) \<and> cont (ys ! j) = cont (xs ! j)"
    and "\<And>j. j < length xs \<Longrightarrow> j \<in> S \<Longrightarrow> \<not> wide (ys ! j) \<and> \<not> cont (ys ! j)"
    and "\<And>j. has wide xs j \<Longrightarrow> j \<in> S \<longleftrightarrow> Suc j \<in> S"
  shows "tiled ok wide cont ys"
proof -
  have w: "has wide ys j \<longleftrightarrow> has wide xs j \<and> j \<notin> S" and c: "has cont ys j \<longleftrightarrow> has cont xs j \<and> j \<notin> S" for j
    using assms(2,4,5) by (auto simp: has_def)
  have "has wide ys j = has cont ys (Suc j)" for j
    using tiledD(1)[OF assms(1), of j] assms(6)[of j] by (auto simp: w c)
  moreover have "\<not> has cont ys 0" using tiledD(2)[OF assms(1)] by (simp add: c)
  ultimately show ?thesis using assms(3) by (simp add: tiled_def paired_iff)
qed

lemma char_at_closed:
  assumes "tiled ok wide cont xs" "i < length xs" "has wide xs j"
  shows "j \<in> char_at wide cont xs i \<longleftrightarrow> Suc j \<in> char_at wide cont xs i"
proof -
  note h = tiledD(1,2)[OF assms(1)]
  have excl: "\<not> (has wide xs k \<and> has cont xs k)" for k
    using tiledD(3)[OF assms(1), of k] cont_blank by (auto simp: has_def)
  have i: "wide (xs ! i) \<longleftrightarrow> has wide xs i" "cont (xs ! i) \<longleftrightarrow> has cont xs i"
    using assms(2) by (auto simp: has_def)
  have pos: "has cont xs i \<Longrightarrow> 0 < i" using h(2) by (cases i) auto
  show ?thesis
    using assms(3) excl[of i] excl[of j] excl[of "Suc i"] excl[of "i - 1"] h(1)[of j] h(1)[of i]
      h(1)[of "i - 1"] pos
    by (auto simp: char_at_def i split: if_splits)
qed

lemma tiled_blank_char:
  assumes "tiled ok wide cont xs" "i < length xs" "length ys = length xs" "list_all ok ys"
    and "\<And>j. j < length xs \<Longrightarrow> j \<notin> char_at wide cont xs i \<Longrightarrow> ys ! j = xs ! j"
    and "\<And>j. j < length xs \<Longrightarrow> j \<in> char_at wide cont xs i \<Longrightarrow> \<not> wide (ys ! j) \<and> \<not> cont (ys ! j)"
  shows "tiled ok wide cont ys"
  by (rule tiled_blank[OF assms(1,3,4), where S = "char_at wide cont xs i"])
    (use assms char_at_closed[OF assms(1,2)] in auto)

lemma tiled_insert_plain:
  assumes "tiled ok wide cont xs" "i \<le> length xs" "\<not> has cont xs i" "ok p" "\<not> wide p" "\<not> cont p"
  shows "tiled ok wide cont (take i xs @ p # drop i xs)"
proof -
  note h = tiledD(1,2)[OF assms(1)]
  have "has wide (take i xs @ p # drop i xs) j = has cont (take i xs @ p # drop i xs) (Suc j)" for j
    using h(1)[of j] h(1)[of "j - 1"] h(2) assms(3,5,6)
    by (cases "j < i"; cases "Suc j = i"; cases "j = i")
      (auto simp: has_insert[OF assms(2)] not_less)
  moreover have "\<not> has cont (take i xs @ p # drop i xs) 0"
    using h(2) assms(3,6) by (simp add: has_insert[OF assms(2)])
  moreover have "list_all ok (take i xs @ p # drop i xs)"
    using assms(1,4) by (auto simp: tiled_def list_all_iff dest: in_set_takeD in_set_dropD)
  ultimately show ?thesis by (simp add: tiled_def paired_iff)
qed

text \<open>Inserting between the halves of a character: the new cell takes over as second half.\<close>

lemma tiled_insert_half:
  assumes "tiled ok wide cont xs" "has cont xs i" "ok p" "blank p" "\<not> wide p" "\<not> cont p"
  shows "tiled ok wide cont (take i xs @ mark True p # mark False (xs ! i) # drop (Suc i) xs)"
proof -
  have i: "i < length xs" "cont (xs ! i)" using assms(2) by (auto simp: has_def)
  have x: "ok (xs ! i)" "blank (xs ! i)" "\<not> wide (xs ! i)"
    using tiledD(3)[OF assms(1) i(1)] cont_blank[OF _ i(2)] by auto
  have n: "\<not> has cont xs (Suc i)" using tiledD(1)[OF assms(1), of i] x i by (auto simp: has_def)
  let ?zs = "take (Suc i) xs @ p # drop (Suc i) xs"
  let ?ys = "take i xs @ mark True p # mark False (xs ! i) # drop (Suc i) xs"
  have z: "tiled ok wide cont ?zs"
    using tiled_insert_plain[OF assms(1) _ n assms(3,5,6)] i(1) by simp
  have f: "has f ?ys j = has f ?zs j"
    if "f (mark True p) = f (xs ! i)" "f (mark False (xs ! i)) = f p" for f j
    using i(1) that
    by (auto simp: has_append min_def take_Suc_conv_app_nth has_Cons has_drop split: nat.splits)
  have "paired wide cont ?ys"
    using z by (simp add: tiled_def paired_iff f mark_flags i x assms)
  moreover have "list_all ok ?ys"
    using assms x mark_ok by (auto simp: tiled_def list_all_iff dest: in_set_takeD in_set_dropD)
  ultimately show ?thesis by (simp add: tiled_def)
qed

lemma tiled_remove_plain:
  assumes "tiled ok wide cont xs" "i < length xs" "\<not> wide (xs ! i)" "\<not> cont (xs ! i)"
  shows "tiled ok wide cont (take i xs @ drop (Suc i) xs)"
proof -
  note h = tiledD(1,2)[OF assms(1)]
  have p: "\<not> has wide xs i" "\<not> has cont xs i" using assms by (auto simp: has_def)
  have "has wide (take i xs @ drop (Suc i) xs) j = has cont (take i xs @ drop (Suc i) xs) (Suc j)" for j
    using h(1)[of j] h(1)[of "Suc j"] h(1)[of i] p
    by (cases "j < i"; cases "Suc j = i") (auto simp: has_remove[OF assms(2)])
  moreover have "\<not> has cont (take i xs @ drop (Suc i) xs) 0"
    using h(2) h(1)[of 0] p by (cases "i = 0") (auto simp: has_remove[OF assms(2)] has_drop)
  moreover have "list_all ok (take i xs @ drop (Suc i) xs)"
    using assms(1) set_take_drop_Suc[of i xs] by (auto simp: tiled_def list_all_iff)
  ultimately show ?thesis by (simp add: tiled_def paired_iff)
qed

lemma tiled_append:
  assumes "tiled ok wide cont xs" "tiled ok wide cont ys"
  shows "tiled ok wide cont (xs @ ys)"
proof -
  have "has wide (xs @ ys) j = has cont (xs @ ys) (Suc j)" for j
    using tiledD(1)[OF assms(1), of j] tiledD(1)[OF assms(2), of "j - length xs"]
      tiledD(2)[OF assms(2)] has_less[of wide xs j] has_less[of cont xs "Suc j"]
    by (cases "Suc j < length xs"; cases "Suc j = length xs")
      (auto simp: has_append Suc_diff_le not_less)
  moreover have "\<not> has cont (xs @ ys) 0"
    using tiledD(2)[OF assms(1)] tiledD(2)[OF assms(2)] by (cases xs) (auto simp: has_append)
  ultimately show ?thesis using assms by (simp add: tiled_def paired_iff)
qed

lemma tiled_take:
  assumes "tiled ok wide cont xs" "0 < n \<Longrightarrow> \<not> has wide xs (n - 1)"
  shows "tiled ok wide cont (take n xs)"
proof -
  have "has wide (take n xs) j = has cont (take n xs) (Suc j)" for j
    using tiledD(1)[OF assms(1), of j] assms(2) by (cases "Suc j = n") (auto simp: has_take)
  moreover have "\<not> has cont (take n xs) 0" using tiledD(2)[OF assms(1)] by (simp add: has_take)
  moreover have "list_all ok (take n xs)"
    using assms(1) by (auto simp: tiled_def list_all_iff dest: in_set_takeD)
  ultimately show ?thesis by (simp add: tiled_def paired_iff)
qed

text \<open>Cutting through a wide character and blanking the half that is left.\<close>

lemma tiled_cut:
  assumes "tiled ok wide cont xs" "n \<le> length xs" "0 < n" "has wide xs (n - 1)"
  shows "tiled ok wide cont ((take n xs)[n - 1 := clear a (xs ! (n - 1))])"
proof -
  have n: "n < length xs" using tiledD(1)[OF assms(1), of "n - 1"] assms(3,4) by (auto simp: has_def)
  let ?ys = "xs[n - 1 := clear a (xs ! (n - 1)), n := clear a (xs ! n)]"
  have ok: "list_all ok ?ys"
    using assms(1) n clear_ok tiledD(3)[OF assms(1)]
    by (auto simp: list_all_length nth_list_update)
  have "tiled ok wide cont ?ys"
  proof (rule tiled_blank[OF assms(1), where S = "{n - 1, n}"])
    show "j \<in> {n - 1, n} \<longleftrightarrow> Suc j \<in> {n - 1, n}" if "has wide xs j" for j
    proof -
      have "\<not> has wide xs n"
        using tiledD(1)[OF assms(1), of "n - 1"] tiledD(3)[OF assms(1) n] assms(3,4) cont_blank
        by (auto simp: has_def)
      moreover have "\<not> has cont xs (n - 1)"
        using tiledD(3)[OF assms(1), of "n - 1"] assms(3,4) cont_blank by (auto simp: has_def)
      then have "Suc j \<noteq> n - 1" using tiledD(1)[OF assms(1), of j] that by auto
      ultimately show ?thesis using that assms(3) by auto
    qed
  qed (use ok assms(3) n in \<open>auto simp: nth_list_update clear_plain\<close>)
  then have "tiled ok wide cont (take n ?ys)"
    by (rule tiled_take) (use assms(3) n in \<open>auto simp: has_def nth_list_update clear_plain\<close>)
  moreover have "take n ?ys = (take n xs)[n - 1 := clear a (xs ! (n - 1))]"
    using n by (simp add: take_update_swap list_update_beyond)
  ultimately show ?thesis by simp
qed

lemma tiled_write_plain:
  assumes "tiled ok wide cont xs" "i < length xs" "\<not> wide (xs ! i)" "\<not> cont (xs ! i)"
    "ok p" "\<not> wide p" "\<not> cont p"
  shows "tiled ok wide cont (xs[i := p])"
  using assms by (intro tiled_blank[OF assms(1), where S = "{}"])
    (auto simp: nth_list_update tiled_def list_all_length)

text \<open>Two plain neighbours become the halves of a character.\<close>

lemma tiled_write_wide:
  assumes "tiled ok wide cont xs" "Suc i < length xs"
    "\<not> wide (xs ! i)" "\<not> cont (xs ! i)" "\<not> wide (xs ! Suc i)" "\<not> cont (xs ! Suc i)"
    "ok w" "wide w" "\<not> cont w" "ok m" "\<not> wide m" "cont m"
  shows "tiled ok wide cont (xs[i := w, Suc i := m])"
proof -
  let ?ys = "xs[i := w, Suc i := m]"
  have "has wide ?ys j = has cont ?ys (Suc j)" for j
    using tiledD(1)[OF assms(1), of j] assms(2-12)
    by (cases "j = i"; cases "j = Suc i"; cases "Suc j = i") (auto simp: has_update has_def)
  moreover have "\<not> has cont ?ys 0"
    using tiledD(2)[OF assms(1)] assms by (auto simp: has_update)
  moreover have "list_all ok ?ys"
    using assms by (auto simp: tiled_def list_all_length nth_list_update)
  ultimately show ?thesis by (simp add: tiled_def paired_iff)
qed

end

end
