(* ===== verification/Utf8.thy ===== *)
theory Utf8
  imports Prelude
begin

text \<open>
  Bytes and UTF-8 as the Rust standard library has them: \<open>char::encode_utf8\<close>,
  \<open>char::len_utf8\<close> and \<open>str::from_utf8\<close>. Cells of the terminal, buffers and the wire protocol
  all use them.
\<close>

unbundle bit_operations_syntax

type_synonym byte = "8 word"

section \<open>UTF-8\<close>

text \<open>\<open>char::encode_utf8\<close> of a Unicode scalar value, and \<open>char::len_utf8\<close>.\<close>

definition encode_utf8 :: "nat \<Rightarrow> byte list" where
  "encode_utf8 c =
     (if c < 128 then [of_nat c]
      else if c < 2048 then [of_nat (192 + c div 64), of_nat (128 + c mod 64)]
      else if c < 65536 then
        [of_nat (224 + c div 4096), of_nat (128 + c div 64 mod 64), of_nat (128 + c mod 64)]
      else [of_nat (240 + c div 262144), of_nat (128 + c div 4096 mod 64),
            of_nat (128 + c div 64 mod 64), of_nat (128 + c mod 64)])"

definition len_utf8 :: "nat \<Rightarrow> nat" where
  "len_utf8 c = (if c < 128 then 1 else if c < 2048 then 2 else if c < 65536 then 3 else 4)"

definition scalar :: "nat \<Rightarrow> bool" where
  "scalar c \<longleftrightarrow> c < 55296 \<or> (57344 \<le> c \<and> c < 1114112)"

text \<open>\<open>str::from_utf8\<close>: the scalar values a byte string spells, or \<^const>\<open>None\<close> when it is not
  well-formed (stray or missing continuation bytes, overlong forms, surrogates, values beyond
  the code space).\<close>

definition is_tail :: "byte \<Rightarrow> bool" where
  "is_tail b \<longleftrightarrow> 128 \<le> unat b \<and> unat b < 192"

definition utf8_accept :: "nat \<Rightarrow> nat \<Rightarrow> bool" where
  "utf8_accept lo c \<longleftrightarrow> lo \<le> c \<and> scalar c"

fun decode_utf8 :: "byte list \<Rightarrow> nat list option" where
  "decode_utf8 [] = Some []"
| "decode_utf8 (b # bs) =
     (if unat b < 128 then map_option ((#) (unat b)) (decode_utf8 bs)
      else if unat b < 192 then None
      else if unat b < 224 then
        (case bs of
           t # rest \<Rightarrow>
             let c = (unat b - 192) * 64 + (unat t - 128)
             in if is_tail t \<and> utf8_accept 128 c then map_option ((#) c) (decode_utf8 rest) else None
         | _ \<Rightarrow> None)
      else if unat b < 240 then
        (case bs of
           t # u # rest \<Rightarrow>
             let c = (unat b - 224) * 4096 + (unat t - 128) * 64 + (unat u - 128)
             in if is_tail t \<and> is_tail u \<and> utf8_accept 2048 c
                then map_option ((#) c) (decode_utf8 rest) else None
         | _ \<Rightarrow> None)
      else
        (case bs of
           t # u # v # rest \<Rightarrow>
             let c = (unat b - 240) * 262144 + (unat t - 128) * 4096 + (unat u - 128) * 64 + (unat v - 128)
             in if is_tail t \<and> is_tail u \<and> is_tail v \<and> utf8_accept 65536 c
                then map_option ((#) c) (decode_utf8 rest) else None
         | _ \<Rightarrow> None))"

lemma length_encode_utf8: "length (encode_utf8 c) = len_utf8 c"
  by (simp add: encode_utf8_def len_utf8_def)

lemma len_utf8_bounds: "1 \<le> len_utf8 c" "len_utf8 c \<le> 4"
  by (simp_all add: len_utf8_def)

lemma unat_byte [simp]: "n < 256 \<Longrightarrow> unat (of_nat n :: byte) = n"
  by (simp add: unat_of_nat take_bit_eq_mod)

lemma tail_byte [simp]: "unat (of_nat (128 + n mod 64) :: byte) = 128 + n mod 64"
  by (rule unat_byte) (use mod_less_divisor[of 64 n] in linarith)

lemma lead_byte:
  "c < 2048 \<Longrightarrow> unat (of_nat (192 + c div 64) :: byte) = 192 + c div 64"
  "c < 65536 \<Longrightarrow> unat (of_nat (224 + c div 4096) :: byte) = 224 + c div 4096"
  "c < 1114112 \<Longrightarrow> unat (of_nat (240 + c div 262144) :: byte) = 240 + c div 262144"
  by (rule unat_byte, simp add: less_mult_imp_div_less)+

lemma is_tail_byte [simp]: "is_tail (of_nat (128 + n mod 64))"
  unfolding is_tail_def tail_byte using mod_less_divisor[of 64 n] by linarith

lemma split_3: "(c :: nat) div 4096 * 4096 + c div 64 mod 64 * 64 + c mod 64 = c"
proof -
  have "c div 4096 = c div 64 div 64" by (simp add: div_mult2_eq [symmetric])
  then have "c div 4096 * 64 + c div 64 mod 64 = c div 64" by simp
  then have "(c div 4096 * 64 + c div 64 mod 64) * 64 + c mod 64 = c" by simp
  then show ?thesis by (simp add: algebra_simps)
qed

lemma split_4:
  "(c :: nat) div 262144 * 262144 + c div 4096 mod 64 * 4096 + c div 64 mod 64 * 64 + c mod 64 = c"
proof -
  have "c div 262144 = c div 4096 div 64" by (simp add: div_mult2_eq [symmetric])
  then have "c div 262144 * 64 + c div 4096 mod 64 = c div 4096" by simp
  then have "(c div 262144 * 64 + c div 4096 mod 64) * 4096 + c div 64 mod 64 * 64 + c mod 64 = c"
    using split_3[of c] by simp
  then show ?thesis by (simp add: algebra_simps)
qed

lemma decode_encode_one:
  assumes "scalar c"
  shows "decode_utf8 (encode_utf8 c @ bs) = map_option ((#) c) (decode_utf8 bs)"
proof -
  have c: "c < 1114112" using assms by (auto simp: scalar_def)
  note [simp del] = of_nat_add of_nat_numeral div_mult_mod_eq
  consider "c < 128" | "128 \<le> c" "c < 2048" | "2048 \<le> c" "c < 65536" | "65536 \<le> c" by linarith
  then show ?thesis
  proof cases
    case 1
    then show ?thesis by (simp add: encode_utf8_def)
  next
    case 2
    have d: "c div 64 < 32" using 2 by (simp add: div_less_iff_less_mult)
    have "c div 64 * 64 + c mod 64 = c" by (rule div_mult_mod_eq)
    then show ?thesis using 2 assms
      by (simp add: encode_utf8_def utf8_accept_def lead_byte Let_def d)
  next
    case 3
    have d: "c div 4096 < 16" using 3 by (simp add: div_less_iff_less_mult)
    show ?thesis using 3 assms split_3[of c]
      by (simp add: encode_utf8_def utf8_accept_def lead_byte Let_def d)
  next
    case 4
    have d: "c div 262144 < 16" using c by (simp add: div_less_iff_less_mult)
    show ?thesis using 4 c assms split_4[of c]
      by (simp add: encode_utf8_def utf8_accept_def lead_byte Let_def d)
  qed
qed

lemma decode_encode: "list_all scalar cs \<Longrightarrow> decode_utf8 (concat (map encode_utf8 cs)) = Some cs"
  by (induction cs) (simp_all add: decode_encode_one)

text \<open>\<open>str::len\<close>: a string's length in bytes.\<close>

definition str_len :: "ustr \<Rightarrow> nat" where
  "str_len s = sum_list (map len_utf8 s)"

text \<open>\<open>String::from_utf8_lossy\<close>: every maximal prefix of an ill-formed sequence that could have
  begun a well-formed one, or else its single byte, becomes U+FFFD.\<close>

definition second_ok :: "nat \<Rightarrow> byte \<Rightarrow> bool" where
  "second_ok n t \<longleftrightarrow> is_tail t \<and> (n = 224 \<longrightarrow> 160 \<le> unat t) \<and> (n = 237 \<longrightarrow> unat t < 160) \<and>
     (n = 240 \<longrightarrow> 144 \<le> unat t) \<and> (n = 244 \<longrightarrow> unat t < 144)"

fun decode_lossy :: "byte list \<Rightarrow> nat list" where
  "decode_lossy [] = []"
| "decode_lossy (b # bs) =
     (let n = unat b
      in if n < 128 then n # decode_lossy bs
         else if 194 \<le> n \<and> n < 224 then
           (case bs of
              t # r1 \<Rightarrow> if is_tail t then ((n - 192) * 64 + (unat t - 128)) # decode_lossy r1
                        else 65533 # decode_lossy bs
            | [] \<Rightarrow> [65533])
         else if 224 \<le> n \<and> n < 240 then
           (case bs of
              t # r1 \<Rightarrow>
                if second_ok n t then
                  (case r1 of
                     u # r2 \<Rightarrow>
                       if is_tail u
                       then ((n - 224) * 4096 + (unat t - 128) * 64 + (unat u - 128)) # decode_lossy r2
                       else 65533 # decode_lossy r1
                   | [] \<Rightarrow> [65533])
                else 65533 # decode_lossy bs
            | [] \<Rightarrow> [65533])
         else if 240 \<le> n \<and> n < 245 then
           (case bs of
              t # r1 \<Rightarrow>
                if second_ok n t then
                  (case r1 of
                     u # r2 \<Rightarrow>
                       if is_tail u then
                         (case r2 of
                            v # r3 \<Rightarrow>
                              if is_tail v
                              then ((n - 240) * 262144 + (unat t - 128) * 4096 + (unat u - 128) * 64 +
                                    (unat v - 128)) # decode_lossy r3
                              else 65533 # decode_lossy r2
                          | [] \<Rightarrow> [65533])
                       else 65533 # decode_lossy r1
                   | [] \<Rightarrow> [65533])
                else 65533 # decode_lossy bs
            | [] \<Rightarrow> [65533])
         else 65533 # decode_lossy bs)"

section \<open>Decimal fields\<close>

text \<open>A number as the bytes of its decimal digits, and the fields of a control sequence.\<close>

definition digits :: "nat \<Rightarrow> byte list" where
  "digits n = map of_nat (decimal n)"

definition ascii_digit :: "byte \<Rightarrow> bool" where
  "ascii_digit b \<longleftrightarrow> 48 \<le> unat b \<and> unat b \<le> 57"

definition digits_value :: "byte list \<Rightarrow> nat option" where
  "digits_value bs = (if bs = [] then None else parse_digits (2 ^ 32) 0 (map unat bs))"

fun join_params :: "byte list list \<Rightarrow> byte list" where
  "join_params [] = []"
| "join_params [p] = p"
| "join_params (p # ps) = p @ [59] @ join_params ps"

lemma digits_ok: "b \<in> set (digits n) \<Longrightarrow> ascii_digit b"
  by (auto simp: digits_def ascii_digit_def dest!: decimal_digits)

lemma digits_value_digits: "n < 2 ^ 32 \<Longrightarrow> digits_value (digits n) = Some n"
proof -
  assume n: "n < 2 ^ 32"
  have "map unat (digits n) = decimal n"
    by (auto simp: digits_def intro!: map_idI dest!: decimal_digits)
  with parse_digits_decimal[OF n] decimal_nonempty[of n] show ?thesis
    by (auto simp: digits_value_def digits_def)
qed

lemma span_digits:
  "\<not> ascii_digit b \<Longrightarrow> takeWhile ascii_digit (digits n @ b # r) = digits n \<and>
    dropWhile ascii_digit (digits n @ b # r) = b # r"
  using digits_ok[of _ n] by (simp add: takeWhile_append2 dropWhile_append2)

lemma split_join:
  "ps \<noteq> [] \<Longrightarrow> (\<And>p. p \<in> set ps \<Longrightarrow> 59 \<notin> set p) \<Longrightarrow> split_on 59 (join_params ps) = ps"
proof (induction ps rule: join_params.induct)
  case (2 p)
  then have "59 \<notin> set p" by simp
  then show ?case by (induction p) auto
next
  case (3 p q ps)
  have p: "59 \<notin> set p" using "3.prems" by simp
  have "split_on 59 (p @ [59] @ r) = p # split_on 59 r" for r
    using p by (induction p) (auto split: list.split)
  then show ?case using 3 by simp
qed simp

lemma join_bytes: "b \<in> set (join_params ps) \<Longrightarrow> b = 59 \<or> (\<exists>p \<in> set ps. b \<in> set p)"
  by (induction ps rule: join_params.induct) auto


end
