(* ===== verification/VtCell.thy ===== *)
theory VtCell
  imports WidePairs Utf8
begin

text \<open>
  Drawing attributes and the terminal cell: \<open>src/src/vt100/attrs.rs\<close> and
  \<open>src/src/vt100/cell.rs\<close>. A cell packs its UTF-8 bytes in a 22-byte array and, in one byte,
  their count and the two flags that mark the halves of a wide character. What rows and grids
  rely on is the contract \<open>wide_cells\<close>, which the packed representation is shown to satisfy;
  the property says that writing a character and then combining marks never panics and that
  the cell reads back as the text that was written.
  The display width of a character comes from the crate \<open>unicode-width\<close> and is a parameter.
\<close>

unbundle bit_operations_syntax

section \<open>Attributes\<close>

datatype Color = DefaultColor | Idx byte | Rgb byte byte byte

record Attrs =
  fgcolor :: Color
  bgcolor :: Color
  mode :: byte

definition attrs_default :: Attrs where
  "attrs_default = \<lparr>fgcolor = DefaultColor, bgcolor = DefaultColor, mode = 0\<rparr>"

definition TEXT_MODE_INTENSITY :: byte where "TEXT_MODE_INTENSITY = 3"
definition TEXT_MODE_BOLD :: byte where "TEXT_MODE_BOLD = 1"
definition TEXT_MODE_DIM :: byte where "TEXT_MODE_DIM = 2"
definition TEXT_MODE_ITALIC :: byte where "TEXT_MODE_ITALIC = 4"
definition TEXT_MODE_UNDERLINE :: byte where "TEXT_MODE_UNDERLINE = 8"
definition TEXT_MODE_INVERSE :: byte where "TEXT_MODE_INVERSE = 16"

definition bold :: "Attrs \<Rightarrow> bool" where "bold a \<longleftrightarrow> mode a AND TEXT_MODE_BOLD \<noteq> 0"
definition dim :: "Attrs \<Rightarrow> bool" where "dim a \<longleftrightarrow> mode a AND TEXT_MODE_DIM \<noteq> 0"
definition intensity :: "Attrs \<Rightarrow> byte" where "intensity a = mode a AND TEXT_MODE_INTENSITY"
definition italic :: "Attrs \<Rightarrow> bool" where "italic a \<longleftrightarrow> mode a AND TEXT_MODE_ITALIC \<noteq> 0"
definition underline :: "Attrs \<Rightarrow> bool" where "underline a \<longleftrightarrow> mode a AND TEXT_MODE_UNDERLINE \<noteq> 0"
definition inverse_mode :: "Attrs \<Rightarrow> bool" where "inverse_mode a \<longleftrightarrow> mode a AND TEXT_MODE_INVERSE \<noteq> 0"

definition set_bold :: "Attrs \<Rightarrow> Attrs" where
  "set_bold a = a\<lparr>mode := (mode a AND NOT TEXT_MODE_INTENSITY) OR TEXT_MODE_BOLD\<rparr>"

definition set_dim :: "Attrs \<Rightarrow> Attrs" where
  "set_dim a = a\<lparr>mode := (mode a AND NOT TEXT_MODE_INTENSITY) OR TEXT_MODE_DIM\<rparr>"

definition set_normal_intensity :: "Attrs \<Rightarrow> Attrs" where
  "set_normal_intensity a = a\<lparr>mode := mode a AND NOT TEXT_MODE_INTENSITY\<rparr>"

definition set_italic :: "bool \<Rightarrow> Attrs \<Rightarrow> Attrs" where
  "set_italic b a = a\<lparr>mode := (if b then mode a OR TEXT_MODE_ITALIC else mode a AND NOT TEXT_MODE_ITALIC)\<rparr>"

definition set_underline :: "bool \<Rightarrow> Attrs \<Rightarrow> Attrs" where
  "set_underline b a =
     a\<lparr>mode := (if b then mode a OR TEXT_MODE_UNDERLINE else mode a AND NOT TEXT_MODE_UNDERLINE)\<rparr>"

definition set_inverse :: "bool \<Rightarrow> Attrs \<Rightarrow> Attrs" where
  "set_inverse b a =
     a\<lparr>mode := (if b then mode a OR TEXT_MODE_INVERSE else mode a AND NOT TEXT_MODE_INVERSE)\<rparr>"

section \<open>Cells\<close>

definition CONTENT_BYTES :: nat where "CONTENT_BYTES = 22"
definition IS_WIDE :: byte where "IS_WIDE = 128"
definition IS_WIDE_CONTINUATION :: byte where "IS_WIDE_CONTINUATION = 64"
definition LEN_BITS :: byte where "LEN_BITS = 31"

record Cell =
  cell_bytes :: "byte list"
  cell_len :: byte
  cell_attrs :: Attrs

definition cell_new :: Cell where
  "cell_new = \<lparr>cell_bytes = replicate CONTENT_BYTES 0, cell_len = 0, cell_attrs = attrs_default\<rparr>"

definition clen :: "Cell \<Rightarrow> nat" where
  "clen c = unat (cell_len c AND LEN_BITS)"

text \<open>Equality of cells ignores the unused bytes of the array.\<close>

definition cell_eq :: "Cell \<Rightarrow> Cell \<Rightarrow> bool" where
  "cell_eq c d \<longleftrightarrow> cell_len c = cell_len d \<and> cell_attrs c = cell_attrs d \<and>
     take (clen c) (cell_bytes c) = take (clen c) (cell_bytes d)"

text \<open>Writes the encoding of a character at \<open>start\<close> and adds its length to the length byte;
  \<^const>\<open>None\<close> when the array is too short or the byte overflows.\<close>

definition append_char :: "nat \<Rightarrow> nat \<Rightarrow> Cell \<Rightarrow> Cell option" where
  "append_char start ch c =
     (if start + len_utf8 ch \<le> length (cell_bytes c) \<and> unat (cell_len c) + len_utf8 ch < 256
      then Some (c\<lparr>cell_bytes := take start (cell_bytes c) @ encode_utf8 ch
                       @ drop (start + len_utf8 ch) (cell_bytes c),
                   cell_len := cell_len c + of_nat (len_utf8 ch)\<rparr>)
      else None)"

definition set_wide :: "bool \<Rightarrow> Cell \<Rightarrow> Cell" where
  "set_wide wide c = c\<lparr>cell_len := (if wide then cell_len c OR IS_WIDE else cell_len c AND NOT IS_WIDE)\<rparr>"

definition set_wide_continuation :: "bool \<Rightarrow> Cell \<Rightarrow> Cell" where
  "set_wide_continuation wide c =
     c\<lparr>cell_len := (if wide then cell_len c OR IS_WIDE_CONTINUATION
                    else cell_len c AND NOT IS_WIDE_CONTINUATION)\<rparr>"

text \<open>\<open>width\<close> is \<open>UnicodeWidthChar::width\<close>: \<^const>\<open>None\<close> for control characters.\<close>

definition cell_set :: "(nat \<Rightarrow> nat option) \<Rightarrow> nat \<Rightarrow> Attrs \<Rightarrow> Cell \<Rightarrow> Cell option" where
  "cell_set width ch a c =
     Option.bind (append_char 0 ch (c\<lparr>cell_len := 0\<rparr>)) (\<lambda>d.
       Some ((set_wide (1 < (case width ch of Some w \<Rightarrow> w | None \<Rightarrow> 1)) d)\<lparr>cell_attrs := a\<rparr>))"

definition cell_append :: "nat \<Rightarrow> Cell \<Rightarrow> Cell option" where
  "cell_append ch c =
     (let len = clen c
      in if CONTENT_BYTES - 4 \<le> len then Some c
         else if len = 0 then
           Option.bind (vec_set 0 32 (cell_bytes c)) (\<lambda>bytes.
             if unat (cell_len c) + 1 < 256 then
               let d = c\<lparr>cell_bytes := bytes, cell_len := cell_len c + 1\<rparr>
               in append_char (clen d) ch d
             else None)
         else append_char (clen c) ch c)"

definition cell_clear :: "Attrs \<Rightarrow> Cell \<Rightarrow> Cell" where
  "cell_clear a c = c\<lparr>cell_len := 0, cell_attrs := a\<rparr>"

text \<open>\<open>contents()\<close>: the bytes as a string; \<^const>\<open>None\<close> where \<open>from_utf8(..).unwrap()\<close> or the
  slice panics.\<close>

definition cell_contents :: "Cell \<Rightarrow> ustr option" where
  "cell_contents c = (if clen c \<le> length (cell_bytes c) then decode_utf8 (take (clen c) (cell_bytes c)) else None)"

definition has_contents :: "Cell \<Rightarrow> bool" where
  "has_contents c \<longleftrightarrow> 0 < clen c"

definition is_wide :: "Cell \<Rightarrow> bool" where
  "is_wide c \<longleftrightarrow> cell_len c AND IS_WIDE \<noteq> 0"

definition is_wide_continuation :: "Cell \<Rightarrow> bool" where
  "is_wide_continuation c \<longleftrightarrow> cell_len c AND IS_WIDE_CONTINUATION \<noteq> 0"

section \<open>The packed length byte\<close>

lemma and_128_bit: "(w :: byte) AND 128 \<noteq> 0 \<longleftrightarrow> bit w 7"
  using bit_iff_and_push_bit_not_eq_0[of w 7] by simp

lemma and_64_bit: "(w :: byte) AND 64 \<noteq> 0 \<longleftrightarrow> bit w 6"
  using bit_iff_and_push_bit_not_eq_0[of w 6] by simp

lemma and_31_unat: "unat ((w :: byte) AND 31) = unat w mod 32"
proof -
  have "w AND 31 = take_bit 5 w" by (simp add: take_bit_eq_mask mask_eq_exp_minus_1)
  moreover have "unat (take_bit 5 w) = take_bit 5 (unat w)" by (rule unsigned_take_bit_eq)
  ultimately show ?thesis by (simp only: take_bit_eq_mod) simp
qed

lemma bit_unat: "bit (w :: byte) n \<longleftrightarrow> odd (unat w div 2 ^ n)"
proof -
  have "bit w n \<longleftrightarrow> bit (unat w) n" 
    by (auto simp: bit_unsigned_iff dest: bit_imp_possible_bit)
  then show ?thesis by (simp only: bit_iff_odd)
qed

lemma clen_unat: "clen c = unat (cell_len c) mod 32"
  by (simp add: clen_def LEN_BITS_def and_31_unat)

lemma is_wide_unat: "is_wide c \<longleftrightarrow> odd (unat (cell_len c) div 128)"
  by (simp add: is_wide_def IS_WIDE_def and_128_bit bit_unat)

lemma is_wide_continuation_unat: "is_wide_continuation c \<longleftrightarrow> odd (unat (cell_len c) div 64)"
  by (simp add: is_wide_continuation_def IS_WIDE_CONTINUATION_def and_64_bit bit_unat)

text \<open>Adding to the count leaves the flag bits alone as long as it does not carry out of the five
  bits of the count.\<close>

lemma add_count:
  assumes "unat (w :: byte) mod 32 + n < 32"
  shows "unat w + n < 256" "unat (w + of_nat n) = unat w + n"
    "(unat w + n) mod 32 = unat w mod 32 + n" "(unat w + n) div 64 = unat w div 64"
    "(unat w + n) div 128 = unat w div 128"
proof -
  have w: "unat w < 256" using unsigned_less[of w] by simp
  have split: "unat w = unat w div 32 * 32 + unat w mod 32" by simp
  have q: "unat w div 32 < 8" using w by (simp add: div_less_iff_less_mult)
  have d32: "(unat w + n) div 32 = unat w div 32"
  proof -
    have push: "(a + 32 * q) div 32 = q + a div 32" for a q :: nat by simp
    have "unat w + n = (unat w mod 32 + n) + 32 * (unat w div 32)" using split by linarith
    then have "(unat w + n) div 32 = unat w div 32 + (unat w mod 32 + n) div 32" by (simp only: push)
    then show ?thesis using assms by simp
  qed
  show lt: "unat w + n < 256" using split q assms by linarith
  show "unat (w + of_nat n) = unat w + n"
    using lt by (subst unat_plus_if_size) (simp add: word_size)
  show "(unat w + n) mod 32 = unat w mod 32 + n"
    using assms by (metis mod_add_left_eq mod_less)
  show "(unat w + n) div 64 = unat w div 64"
    using d32 div_mult2_eq[of "unat w + n" 32 2] div_mult2_eq[of "unat w" 32 2] by simp
  show "(unat w + n) div 128 = unat w div 128"
    using d32 div_mult2_eq[of "unat w + n" 32 4] div_mult2_eq[of "unat w" 32 4] by simp
qed

lemma set_wide_flags [simp]:
  "clen (set_wide b c) = clen c" "is_wide (set_wide b c) = b"
  "is_wide_continuation (set_wide b c) = is_wide_continuation c"
  "cell_bytes (set_wide b c) = cell_bytes c" "cell_attrs (set_wide b c) = cell_attrs c"
  by (auto simp: clen_def is_wide_def is_wide_continuation_def set_wide_def IS_WIDE_def
      IS_WIDE_CONTINUATION_def LEN_BITS_def bit.conj_disj_distrib2 and.assoc bit.conj_disj_distrib)

lemma set_wide_continuation_flags [simp]:
  "clen (set_wide_continuation b c) = clen c" "is_wide (set_wide_continuation b c) = is_wide c"
  "is_wide_continuation (set_wide_continuation b c) = b"
  "cell_bytes (set_wide_continuation b c) = cell_bytes c"
  "cell_attrs (set_wide_continuation b c) = cell_attrs c"
  by (auto simp: clen_def is_wide_def is_wide_continuation_def set_wide_continuation_def IS_WIDE_def
      IS_WIDE_CONTINUATION_def LEN_BITS_def bit.conj_disj_distrib2 and.assoc bit.conj_disj_distrib)

lemma cell_clear_flags [simp]:
  "clen (cell_clear a c) = 0" "\<not> is_wide (cell_clear a c)"
  "\<not> is_wide_continuation (cell_clear a c)" "cell_attrs (cell_clear a c) = a"
  by (simp_all add: clen_def is_wide_def is_wide_continuation_def cell_clear_def)

lemma has_contents_flags [simp]:
  "has_contents (set_wide_continuation b c) = has_contents c" "\<not> has_contents (cell_clear a c)"
  "\<not> has_contents cell_new"
  by (simp add: has_contents_def) (simp_all add: has_contents_def clen_def cell_clear_def cell_new_def)

lemma cell_new_flags [simp]:
  "clen cell_new = 0" "\<not> is_wide cell_new" "\<not> is_wide_continuation cell_new"
  by (simp_all add: clen_def is_wide_def is_wide_continuation_def cell_new_def)

section \<open>Cells hold text\<close>

definition utf8 :: "nat list \<Rightarrow> byte list" where
  "utf8 cs = concat (map encode_utf8 cs)"

text \<open>The invariant: the used bytes are the encoding of some characters; the first half of a
  wide character has text; the second half has none and is not itself a first half.\<close>

definition cell_ok :: "Cell \<Rightarrow> bool" where
  "cell_ok c \<longleftrightarrow> length (cell_bytes c) = CONTENT_BYTES \<and> clen c \<le> CONTENT_BYTES \<and>
     (case cell_contents c of None \<Rightarrow> False
      | Some cs \<Rightarrow> list_all scalar cs \<and> take (clen c) (cell_bytes c) = utf8 cs) \<and>
     (is_wide c \<longrightarrow> has_contents c) \<and>
     (is_wide_continuation c \<longrightarrow> \<not> has_contents c \<and> \<not> is_wide c)"

lemma utf8_simps [simp]: "utf8 [] = []" "utf8 (c # cs) = encode_utf8 c @ utf8 cs"
  "utf8 (cs @ ds) = utf8 cs @ utf8 ds"
  by (simp_all add: utf8_def)

lemma decode_utf8_utf8 [simp]: "list_all scalar cs \<Longrightarrow> decode_utf8 (utf8 cs) = Some cs"
  by (simp add: utf8_def decode_encode)

lemma cell_contentsI:
  assumes "length (cell_bytes c) = CONTENT_BYTES" "clen c \<le> CONTENT_BYTES" "list_all scalar cs"
    "take (clen c) (cell_bytes c) = utf8 cs"
  shows "cell_contents c = Some cs"
  using assms by (simp add: cell_contents_def)

lemma cell_okE:
  assumes "cell_ok c"
  obtains cs where "cell_contents c = Some cs" "list_all scalar cs" "clen c = length (utf8 cs)"
    "take (clen c) (cell_bytes c) = utf8 cs" "length (cell_bytes c) = CONTENT_BYTES"
    "clen c \<le> CONTENT_BYTES"
proof -
  obtain cs where cs: "cell_contents c = Some cs" "list_all scalar cs"
    "take (clen c) (cell_bytes c) = utf8 cs"
    using assms by (auto simp: cell_ok_def split: option.splits)
  have "length (take (clen c) (cell_bytes c)) = clen c" using assms by (auto simp: cell_ok_def)
  then have "clen c = length (utf8 cs)" using cs by simp
  then show ?thesis using that cs assms by (auto simp: cell_ok_def)
qed

lemma cell_ok_new [simp]: "cell_ok cell_new"
  by (simp add: cell_ok_def cell_contents_def has_contents_def) (simp add: cell_new_def)

lemma cell_ok_clear [simp]: "cell_ok c \<Longrightarrow> cell_ok (cell_clear a c)"
  by (simp add: cell_ok_def cell_contents_def has_contents_def) (simp add: cell_clear_def)

lemma cell_contents_blank: "cell_ok c \<Longrightarrow> \<not> has_contents c \<Longrightarrow> cell_contents c = Some []"
  by (elim cell_okE) (simp add: has_contents_def, metis decode_utf8.simps(1) decode_utf8_utf8 
      length_0_conv option.inject)

lemma cell_contents_nonblank:
  "cell_ok c \<Longrightarrow> has_contents c \<Longrightarrow> \<exists>x xs. cell_contents c = Some (x # xs)"
  by (elim cell_okE, rename_tac cs, case_tac cs) (auto simp: has_contents_def)

lemma mark_continuation_ok:
  "cell_ok c \<Longrightarrow> \<not> has_contents c \<Longrightarrow> \<not> is_wide c \<Longrightarrow> cell_ok (set_wide_continuation b c)"
  by (auto simp: cell_ok_def cell_contents_def has_contents_def)

lemma append_char_ok:
  assumes "length (cell_bytes c) = CONTENT_BYTES" "clen c + len_utf8 ch \<le> CONTENT_BYTES"
    "scalar ch" "list_all scalar cs" "take (clen c) (cell_bytes c) = utf8 cs"
  shows "\<exists>d. append_char (clen c) ch c = Some d \<and> clen d = clen c + len_utf8 ch \<and>
    length (cell_bytes d) = CONTENT_BYTES \<and> take (clen d) (cell_bytes d) = utf8 (cs @ [ch]) \<and>
    is_wide d = is_wide c \<and> is_wide_continuation d = is_wide_continuation c \<and>
    cell_attrs d = cell_attrs c \<and> cell_contents d = Some (cs @ [ch])"
proof -
  let ?n = "len_utf8 ch"
  let ?d = "c\<lparr>cell_bytes := take (clen c) (cell_bytes c) @ encode_utf8 ch
     @ drop (clen c + ?n) (cell_bytes c), cell_len := cell_len c + of_nat ?n\<rparr>"
  have fits: "unat (cell_len c) mod 32 + ?n < 32"
    using assms(2) by (simp add: clen_unat CONTENT_BYTES_def)
  note count = add_count[OF fits]
  have d: "append_char (clen c) ch c = Some ?d"
    using assms(1,2) count(1) by (simp add: append_char_def)
  have len: "clen ?d = clen c + ?n" using count(2,3) by (simp add: clen_unat)
  have bytes: "length (cell_bytes ?d) = CONTENT_BYTES"
    using assms(1,2) by (simp add: length_encode_utf8)
  have "length (utf8 cs) = clen c" using assms(1,2,5) by (metis add_leD1 length_take min.absorb2)
  then have spell: "take (clen ?d) (cell_bytes ?d) = utf8 (cs @ [ch])"
    using len assms(1,2,5) by (simp add: length_encode_utf8)
  have "cell_contents ?d = Some (cs @ [ch])"
    by (rule cell_contentsI) (use bytes len spell assms in auto)
  then show ?thesis
    using d len bytes spell count(2,4,5) by (auto simp: is_wide_unat is_wide_continuation_unat)
qed

lemma cell_set_ok:
  assumes "length (cell_bytes c) = CONTENT_BYTES" "scalar ch"
  shows "\<exists>d. cell_set width ch a c = Some d \<and> cell_ok d \<and> cell_contents d = Some [ch] \<and>
    cell_attrs d = a \<and> \<not> is_wide_continuation d \<and> has_contents d \<and>
    is_wide d = (1 < (case width ch of Some w \<Rightarrow> w | None \<Rightarrow> 1))"
proof -
  let ?c = "c\<lparr>cell_len := 0\<rparr>"
  have z: "clen ?c = 0" "\<not> is_wide_continuation ?c"
    by (simp_all add: clen_def is_wide_continuation_def)
  obtain d where d: "append_char 0 ch ?c = Some d" "clen d = len_utf8 ch"
    "length (cell_bytes d) = CONTENT_BYTES" "take (clen d) (cell_bytes d) = utf8 [ch]"
    "\<not> is_wide_continuation d"
    using append_char_ok[of ?c ch "[]"] assms z len_utf8_bounds(2)[of ch]
    by (auto simp: CONTENT_BYTES_def)
  let ?e = "(set_wide (1 < (case width ch of Some w \<Rightarrow> w | None \<Rightarrow> 1)) d)\<lparr>cell_attrs := a\<rparr>"
  have len: "clen ?e = clen d" and cont: "\<not> is_wide_continuation ?e"
    using d set_wide_flags[of _ d] by (simp_all add: clen_def is_wide_continuation_def)
  have wide: "is_wide ?e = (1 < (case width ch of Some w \<Rightarrow> w | None \<Rightarrow> 1))"
    using set_wide_flags(2)[of _ d] by (simp add: is_wide_def)
  have small: "clen d \<le> CONTENT_BYTES" "0 < clen d"
    using d(2) len_utf8_bounds[of ch] by (auto simp: CONTENT_BYTES_def)
  have "cell_contents ?e = Some [ch]"
    by (rule cell_contentsI) (use d len small assms in auto)
  then show ?thesis
    using d(1) wide cont len small d(3,4) assms
    by (auto simp: cell_set_def cell_ok_def has_contents_def)
qed

lemma cell_append_ok:
  assumes "cell_ok c" "scalar ch" "\<not> is_wide_continuation c"
  shows "\<exists>d. cell_append ch c = Some d \<and> cell_ok d \<and> is_wide d = is_wide c \<and>
    \<not> is_wide_continuation d \<and> cell_attrs d = cell_attrs c \<and>
    (\<exists>cs. cell_contents c = Some cs \<and>
      cell_contents d = Some (if CONTENT_BYTES - 4 \<le> clen c then cs
        else if clen c = 0 then [32, ch] else cs @ [ch]))"
proof -
  obtain cs where cs: "cell_contents c = Some cs" "list_all scalar cs" "clen c = length (utf8 cs)"
    "take (clen c) (cell_bytes c) = utf8 cs" "length (cell_bytes c) = CONTENT_BYTES"
    "clen c \<le> CONTENT_BYTES"
    using assms(1) by (rule cell_okE)
  consider "CONTENT_BYTES - 4 \<le> clen c" | "clen c = 0" | "0 < clen c" "clen c < CONTENT_BYTES - 4"
    by linarith
  then show ?thesis
  proof cases
    case 1
    then show ?thesis using assms cs by (simp add: cell_append_def)
  next
    case 2
    let ?c = "c\<lparr>cell_bytes := (cell_bytes c)[0 := 32], cell_len := cell_len c + 1\<rparr>"
    have fits: "unat (cell_len c) mod 32 + 1 < 32" using 2 by (simp add: clen_unat)
    note count = add_count[OF fits]
    have one: "clen ?c = 1" "is_wide ?c = is_wide c" "\<not> is_wide_continuation ?c"
      using count 2 assms(3) by (simp_all add: clen_unat is_wide_unat is_wide_continuation_unat)
    have "take (clen ?c) (cell_bytes ?c) = utf8 [32]"
      using one cs(5) by (cases "cell_bytes c") (auto simp: encode_utf8_def CONTENT_BYTES_def)
    then obtain d where d: "append_char 1 ch ?c = Some d" "clen d = 1 + len_utf8 ch"
      "length (cell_bytes d) = CONTENT_BYTES" "take (clen d) (cell_bytes d) = utf8 [32, ch]"
      "is_wide d = is_wide ?c" "is_wide_continuation d = is_wide_continuation ?c"
      "cell_attrs d = cell_attrs ?c" "cell_contents d = Some [32, ch]"
      using append_char_ok[of ?c ch "[32]"] one assms(2) cs(5) len_utf8_bounds(2)[of ch]
      by (auto simp: CONTENT_BYTES_def scalar_def)
    have "cell_append ch c = Some d"
      using 2 d(1) one(1) cs(5) count(1) by (simp add: cell_append_def CONTENT_BYTES_def Let_def)
    moreover have "clen d \<le> CONTENT_BYTES"
      using d(2) len_utf8_bounds(2)[of ch] by (simp add: CONTENT_BYTES_def)
    ultimately show ?thesis
      using d one assms 2 cs(1) by (auto simp: cell_ok_def has_contents_def CONTENT_BYTES_def scalar_def)
  next
    case 3
    then obtain d where d: "append_char (clen c) ch c = Some d" "clen d = clen c + len_utf8 ch"
      "length (cell_bytes d) = CONTENT_BYTES" "take (clen d) (cell_bytes d) = utf8 (cs @ [ch])"
      "is_wide d = is_wide c" "is_wide_continuation d = is_wide_continuation c"
      "cell_attrs d = cell_attrs c" "cell_contents d = Some (cs @ [ch])"
      using append_char_ok[of c ch cs] assms(2) cs len_utf8_bounds(2)[of ch]
      by (auto simp: CONTENT_BYTES_def)
    have "cell_append ch c = Some d" using 3 d(1) by (simp add: cell_append_def)
    moreover have "clen d \<le> CONTENT_BYTES"
      using d(2) 3 len_utf8_bounds(2)[of ch] by (simp add: CONTENT_BYTES_def)
    ultimately show ?thesis
      using d assms 3 cs(1,2) by (auto simp: cell_ok_def has_contents_def)
  qed
qed

interpretation packed: wide_cells cell_ok is_wide is_wide_continuation
    "\<lambda>c. \<not> has_contents c" cell_clear set_wide_continuation
proof
  show "\<not> has_contents c \<and> \<not> is_wide c" if "cell_ok c" "is_wide_continuation c" for c
    using that by (simp add: cell_ok_def)
qed (simp_all add: mark_continuation_ok)

text \<open>The characters appended after the first one: each is kept until the cell has 18 bytes.\<close>

lemma append_all_ok:
  assumes "cell_ok c" "\<not> is_wide_continuation c" "has_contents c" "cell_contents c = Some cs"
    "list_all scalar zs"
  shows "\<exists>d ks. fold_opt cell_append zs c = Some d \<and> cell_ok d \<and> is_wide d = is_wide c \<and>
    cell_attrs d = cell_attrs c \<and> cell_contents d = Some (cs @ ks) \<and>
    ks = take (length ks) zs \<and> (ks = zs \<or> CONTENT_BYTES - 4 \<le> length (utf8 (cs @ ks)))"
  using assms
proof (induction zs arbitrary: c cs)
  case Nil
  then show ?case by auto
next
  case (Cons z zs)
  have len: "clen c = length (utf8 cs)" using Cons.prems(1,4) by (auto elim: cell_okE)
  have ne: "clen c \<noteq> 0" using Cons.prems(3) by (simp add: has_contents_def)
  obtain d where d: "cell_append z c = Some d" "cell_ok d" "is_wide d = is_wide c"
    "\<not> is_wide_continuation d" "cell_attrs d = cell_attrs c"
    "cell_contents d = Some (if CONTENT_BYTES - 4 \<le> clen c then cs else cs @ [z])"
    using cell_append_ok[of c z] Cons.prems ne by (auto split: if_splits)
  have "has_contents d"
  proof (rule ccontr)
    assume "\<not> has_contents d"
    then have "cs = []" using cell_contents_blank[OF d(2)] d(6) by (auto split: if_splits)
    then show False using ne len by simp
  qed
  show ?case
  proof (cases "CONTENT_BYTES - 4 \<le> clen c")
    case True
    then obtain e ks where "fold_opt cell_append zs d = Some e" "cell_ok e" "is_wide e = is_wide d"
      "cell_attrs e = cell_attrs d" "cell_contents e = Some (cs @ ks)"
      using Cons.IH[of d cs] d Cons.prems(5) \<open>has_contents d\<close> by auto
    moreover have "d = c" using d(1) True by (simp add: cell_append_def)
    moreover have "fold_opt cell_append us c = Some c" for us
      using True by (induction us) (simp_all add: cell_append_def)
    ultimately show ?thesis using d(1) True len Cons.prems
      by (intro exI[of _ c] exI[of _ "[]"]) auto
  next
    case False
    then obtain e ks where "fold_opt cell_append zs d = Some e" "cell_ok e" "is_wide e = is_wide d"
      "cell_attrs e = cell_attrs d" "cell_contents e = Some ((cs @ [z]) @ ks)"
      "ks = take (length ks) zs" "ks = zs \<or> CONTENT_BYTES - 4 \<le> length (utf8 ((cs @ [z]) @ ks))"
      using Cons.IH[of d "cs @ [z]"] d Cons.prems(5) \<open>has_contents d\<close> by auto
    then show ?thesis using d by (intro exI[of _ e] exI[of _ "z # ks"]) auto
  qed
qed

text \<open>C7. A cell holds what was written into it. Setting a character and then appending
  combining marks never panics; the cell reads back as the character followed by the marks in
  order, all of them, except that marks stop being added once 18 bytes are in use; the attributes
  are the ones given, and the cell is the first half of a wide character exactly when the
  character's display width exceeds one (one where the width is unknown).\<close>

theorem cell_text_roundtrip:
  assumes "cell_ok c" "scalar ch" "list_all scalar marks"
  shows "\<exists>d e kept. cell_set width ch a c = Some d \<and> fold_opt cell_append marks d = Some e \<and>
    cell_ok e \<and> cell_contents e = Some (ch # kept) \<and> cell_attrs e = a \<and>
    is_wide e = (1 < (case width ch of Some w \<Rightarrow> w | None \<Rightarrow> 1)) \<and>
    kept = take (length kept) marks \<and> (kept = marks \<or> 18 \<le> length (utf8 (ch # kept)))"
proof -
  have "length (cell_bytes c) = CONTENT_BYTES" using assms(1) by (simp add: cell_ok_def)
  then obtain d where d: "cell_set width ch a c = Some d" "cell_ok d" "cell_contents d = Some [ch]"
    "cell_attrs d = a" "\<not> is_wide_continuation d" "has_contents d"
    "is_wide d = (1 < (case width ch of Some w \<Rightarrow> w | None \<Rightarrow> 1))"
    using cell_set_ok[OF _ assms(2)] by blast
  then show ?thesis
    using append_all_ok[OF d(2,5,6,3) assms(3)] by (auto simp: CONTENT_BYTES_def)
qed

text \<open>An \<open>e\<close> with an acute accent.\<close>

lemma cell_text_roundtrip_witness:
  "\<exists>d e. cell_set (\<lambda>_. Some 1) 101 attrs_default cell_new = Some d \<and> cell_append 769 d = Some e \<and>
     cell_contents e = Some [101, 769]"
proof -
  have "cell_ok cell_new" "scalar 101" "list_all scalar [769]" by (simp_all add: scalar_def)
  from cell_text_roundtrip[OF this, of "\<lambda>_. Some 1" attrs_default]
  show ?thesis by (auto simp: encode_utf8_def take_Cons' split: bind_splits if_splits)
qed

end
