(* ===== verification/VtRow.thy ===== *)
theory VtRow
  imports VtCell
begin

text \<open>
  One line of the terminal: \<open>src/src/vt100/row.rs\<close>. Columns are naturals; an index out of range
  and a \<open>u16\<close> overflow are \<^const>\<open>None\<close>. The invariant \<open>row_ok\<close> (the width, good cells, the
  halves of wide characters together) is kept by every operation; the property describes the
  text a row is read out as, which is what selection and the scrollback dump use. Not modelled:
  the escape-sequence renderers \<open>write_contents_formatted\<close> and \<open>write_contents_diff\<close>.
\<close>

record Row =
  cells :: "Cell list"
  wrapped :: bool

definition row_new :: "nat \<Rightarrow> Row" where
  "row_new cols = \<lparr>cells = replicate cols cell_new, wrapped = False\<rparr>"

definition row_cols :: "Row \<Rightarrow> nat option" where
  "row_cols r = (if length (cells r) \<le> u16_max then Some (length (cells r)) else None)"

definition row_clear :: "Attrs \<Rightarrow> Row \<Rightarrow> Row" where
  "row_clear a r = \<lparr>cells = map (cell_clear a) (cells r), wrapped = False\<rparr>"

definition row_get :: "nat \<Rightarrow> Row \<Rightarrow> Cell option" where
  "row_get col r = vec_get col (cells r)"

text \<open>\<open>get_mut(col).unwrap()\<close> followed by an edit of the cell.\<close>

definition row_edit :: "nat \<Rightarrow> (Cell \<Rightarrow> Cell option) \<Rightarrow> Row \<Rightarrow> Row option" where
  "row_edit col f r =
     do { c \<leftarrow> row_get col r; d \<leftarrow> f c; Some (r\<lparr>cells := (cells r)[col := d]\<rparr>) }"

definition row_insert :: "nat \<Rightarrow> Cell \<Rightarrow> Row \<Rightarrow> Row option" where
  "row_insert i c r =
     do { cs \<leftarrow> vec_insert i c (cells r); Some (r\<lparr>cells := cs, wrapped := False\<rparr>) }"

definition row_clear_wide :: "nat \<Rightarrow> Row \<Rightarrow> Row" where
  "row_clear_wide col r =
     (case vec_get col (cells r) of
        None \<Rightarrow> r
      | Some c \<Rightarrow>
          (let other = (if is_wide c then Some (col + 1)
                        else if is_wide_continuation c then (if 1 \<le> col then Some (col - 1) else None)
                        else None)
           in case other of
                None \<Rightarrow> r
              | Some j \<Rightarrow>
                  (case vec_get j (cells r) of
                     None \<Rightarrow> r
                   | Some d \<Rightarrow> r\<lparr>cells := (cells r)[j := cell_clear (cell_attrs d) d]\<rparr>)))"

definition row_remove :: "nat \<Rightarrow> Row \<Rightarrow> Row option" where
  "row_remove i r =
     do { (_, cs) \<leftarrow> vec_remove i (cells (row_clear_wide i r));
          Some ((row_clear_wide i r)\<lparr>cells := cs, wrapped := False\<rparr>) }"

definition row_erase :: "nat \<Rightarrow> Attrs \<Rightarrow> Row \<Rightarrow> Row option" where
  "row_erase i a r =
     do { c \<leftarrow> vec_get i (cells r);
          let wide = is_wide c;
          r \<leftarrow> row_edit i (\<lambda>c. Some (cell_clear a c)) (row_clear_wide i r);
          n \<leftarrow> row_cols r;
          Some (if i = sat_sub n (if wide then 2 else 1) then r\<lparr>wrapped := False\<rparr> else r) }"

definition row_truncate :: "nat \<Rightarrow> Row \<Rightarrow> Row" where
  "row_truncate len r =
     (let cs = take len (cells r)
      in if cs \<noteq> [] \<and> is_wide (last cs)
         then r\<lparr>cells := cs[length cs - 1 := cell_clear (cell_attrs (last cs)) (last cs)],
                wrapped := False\<rparr>
         else r\<lparr>cells := cs, wrapped := False\<rparr>)"

definition row_resize :: "nat \<Rightarrow> Cell \<Rightarrow> Row \<Rightarrow> Row" where
  "row_resize len c r =
     (if len < length (cells r) then row_truncate len r
      else r\<lparr>cells := vec_resize len c (cells r), wrapped := False\<rparr>)"

definition row_wrap :: "bool \<Rightarrow> Row \<Rightarrow> Row" where
  "row_wrap b r = r\<lparr>wrapped := b\<rparr>"

text \<open>The loop of \<open>write_contents\<close> over the numbered cells; its state is the flag that the
  previous cell was wide, the column after the last text, and the output.\<close>

fun write_cells :: "(nat \<times> Cell) list \<Rightarrow> bool \<Rightarrow> nat \<Rightarrow> ustr \<Rightarrow> (nat \<times> ustr) option" where
  "write_cells [] prev_was_wide prev_col out = Some (prev_col, out)"
| "write_cells ((col, c) # rest) prev_was_wide prev_col out =
     (if prev_was_wide then write_cells rest False prev_col out
      else if col \<le> u16_max then
        (if has_contents c then
           do { gap \<leftarrow> sub16 col prev_col;
                prev_col \<leftarrow> add16 prev_col gap;
                text \<leftarrow> cell_contents c;
                prev_col \<leftarrow> add16 prev_col (if is_wide c then 2 else 1);
                write_cells rest (is_wide c) prev_col (out @ replicate gap 32 @ text) }
         else write_cells rest (is_wide c) prev_col out)
      else None)"

definition row_write_contents :: "nat \<Rightarrow> nat \<Rightarrow> bool \<Rightarrow> Row \<Rightarrow> ustr \<Rightarrow> ustr option" where
  "row_write_contents start width wrapping r out =
     do { (prev_col, out) \<leftarrow>
            write_cells (take width (drop start (enumerate 0 (cells r)))) False start out;
          Some (if prev_col = start \<and> wrapping then out @ [10] else out) }"

section \<open>The row invariant\<close>

definition cells_ok :: "Cell list \<Rightarrow> bool" where
  "cells_ok cs \<longleftrightarrow> tiled cell_ok is_wide is_wide_continuation cs"

definition row_ok :: "nat \<Rightarrow> Row \<Rightarrow> bool" where
  "row_ok cols r \<longleftrightarrow> length (cells r) = cols \<and> cells_ok (cells r)"

lemma cells_okD:
  assumes "cells_ok cs" "i < length cs"
  shows "cell_ok (cs ! i)" "is_wide (cs ! i) \<Longrightarrow> Suc i < length cs \<and> is_wide_continuation (cs ! Suc i)"
    "is_wide_continuation (cs ! i) \<Longrightarrow> 0 < i \<and> is_wide (cs ! (i - 1)) \<and> \<not> is_wide (cs ! i)"
proof -
  note h = tiledD[OF assms(1)[unfolded cells_ok_def]]
  show ok: "cell_ok (cs ! i)" using h(3) assms(2) by blast
  show "is_wide (cs ! i) \<Longrightarrow> Suc i < length cs \<and> is_wide_continuation (cs ! Suc i)"
    using h(1)[of i] assms(2) by (simp add: has_def)
  show "is_wide_continuation (cs ! i) \<Longrightarrow> 0 < i \<and> is_wide (cs ! (i - 1)) \<and> \<not> is_wide (cs ! i)"
    using h(1)[of "i - 1"] h(2) assms(2) packed.cont_blank[OF ok] by (cases i) (auto simp: has_def)
qed

lemma row_okD: "row_ok n r \<Longrightarrow> length (cells r) = n" "row_ok n r \<Longrightarrow> cells_ok (cells r)"
  by (simp_all add: row_ok_def)

lemma row_new_ok [simp]: "row_ok n (row_new n)"
  by (auto simp: row_ok_def row_new_def cells_ok_def list_all_iff intro!: packed.tiled_plain)

lemma row_clear_ok [simp]:
  assumes "row_ok n r"
  shows "row_ok n (row_clear a r)"
proof -
  have "tiled cell_ok is_wide is_wide_continuation (map (cell_clear a) (cells r))"
    by (rule packed.tiled_plain) (use assms in \<open>auto simp: row_ok_def cells_ok_def tiled_def list_all_iff\<close>)
  then show ?thesis using assms by (simp add: row_ok_def row_clear_def cells_ok_def)
qed

lemma row_wrap_ok [simp]: "row_ok n (row_wrap b r) = row_ok n r"
  by (simp add: row_ok_def row_wrap_def)

lemma row_get_Some [simp]: "row_ok n r \<Longrightarrow> i < n \<Longrightarrow> row_get i r = Some (cells r ! i)"
  by (simp add: row_ok_def row_get_def)

text \<open>\<open>clear_wide\<close> followed by an edit that makes the cell itself plain.\<close>

lemma cells_clear_wide:
  assumes "row_ok n r" "i < n"
  shows "cells (row_clear_wide i r) =
    (if is_wide (cells r ! i) then (cells r)[Suc i := cell_clear (cell_attrs (cells r ! Suc i)) (cells r ! Suc i)]
     else if is_wide_continuation (cells r ! i)
       then (cells r)[i - 1 := cell_clear (cell_attrs (cells r ! (i - 1))) (cells r ! (i - 1))]
     else cells r)"
  using assms cells_okD[of "cells r" i] by (auto simp: row_clear_wide_def row_ok_def)

lemma length_clear_wide [simp]: "length (cells (row_clear_wide i r)) = length (cells r)"
  by (auto simp: row_clear_wide_def Let_def split: option.split)

lemma clear_wide_plain_ok:
  assumes "row_ok n r" "i < n" "cell_ok p" "\<not> is_wide p" "\<not> is_wide_continuation p"
  shows "cells_ok ((cells (row_clear_wide i r))[i := p])"
proof -
  note ok = row_okD[OF assms(1)]
  have all: "list_all cell_ok (cells r)" using ok(2) by (simp add: cells_ok_def tiled_def)
  show ?thesis
    unfolding cells_ok_def
  proof (rule packed.tiled_blank_char[OF ok(2)[unfolded cells_ok_def], of i])
    show "list_all cell_ok ((cells (row_clear_wide i r))[i := p])"
      using all assms ok cells_okD[OF ok(2), of i]
      by (auto simp: cells_clear_wide[OF assms(1,2)] list_all_length nth_list_update)
  qed (use assms ok cells_okD[OF ok(2), of i] in
      \<open>auto simp: cells_clear_wide[OF assms(1,2)] nth_list_update char_at_def split: if_splits\<close>)
qed

lemma row_erase_ok:
  assumes "row_ok n r" "i < n" "n \<le> u16_max"
  shows "\<exists>r'. row_erase i a r = Some r' \<and> row_ok n r' \<and>
    (\<exists>d. cells r' = (cells (row_clear_wide i r))[i := d] \<and> \<not> has_contents d \<and> cell_attrs d = a)"
proof -
  let ?d = "cell_clear a (cells (row_clear_wide i r) ! i)"
  have len: "length (cells r) = n" using assms by (simp add: row_ok_def)
  have "cell_ok (cells (row_clear_wide i r) ! i)"
    using assms cells_okD[OF row_okD(2)[OF assms(1)], of i] len
    by (auto simp: cells_clear_wide[OF assms(1,2)] nth_list_update)
  then have "cells_ok ((cells (row_clear_wide i r))[i := ?d])"
    by (intro clear_wide_plain_ok[OF assms(1,2)]) auto
  then show ?thesis
    using assms len by (auto simp: row_erase_def row_edit_def row_get_def row_cols_def row_ok_def Let_def)
qed

lemma row_remove_ok:
  assumes "row_ok (Suc n) r" "i < Suc n"
  shows "\<exists>r'. row_remove i r = Some r' \<and> row_ok n r'"
proof -
  let ?cs = "cells (row_clear_wide i r)"
  have len: "length ?cs = Suc n" using assms by (simp add: row_ok_def)
  have "cells_ok (?cs[i := cell_new])" by (rule clear_wide_plain_ok[OF assms]) auto
  then have "cells_ok (take i (?cs[i := cell_new]) @ drop (Suc i) (?cs[i := cell_new]))"
    unfolding cells_ok_def by (rule packed.tiled_remove_plain) (use len assms in auto)
  then have "cells_ok (take i ?cs @ drop (Suc i) ?cs)" by simp
  then show ?thesis using len assms by (simp add: row_remove_def row_ok_def)
qed

lemma row_insert_ok:
  assumes "row_ok n r" "i \<le> n" "i < n \<Longrightarrow> \<not> is_wide_continuation (cells r ! i)"
  shows "\<exists>r'. row_insert i cell_new r = Some r' \<and> row_ok (Suc n) r'"
proof -
  have "cells_ok (take i (cells r) @ cell_new # drop i (cells r))"
    unfolding cells_ok_def
    by (rule packed.tiled_insert_plain) (use assms in \<open>auto simp: row_ok_def cells_ok_def has_def\<close>)
  then show ?thesis using assms by (simp add: row_insert_def row_ok_def)
qed

lemma row_truncate_ok:
  assumes "row_ok m r" "n \<le> m"
  shows "row_ok n (row_truncate n r)"
proof -
  have len: "length (take n (cells r)) = n" using assms by (simp add: row_ok_def)
  have t: "tiled cell_ok is_wide is_wide_continuation (cells r)"
    using assms by (simp add: row_ok_def cells_ok_def)
  show ?thesis
  proof (cases "0 < n \<and> is_wide (cells r ! (n - 1))")
    case True
    then have ne: "take n (cells r) \<noteq> []" using len by auto
    then have "last (take n (cells r)) = cells r ! (n - 1)"
      using len True by (simp add: last_conv_nth)
    moreover have "cells_ok ((take n (cells r))[n - 1 := cell_clear (cell_attrs (cells r ! (n - 1))) (cells r ! (n - 1))])"
      unfolding cells_ok_def
      by (rule packed.tiled_cut[OF t]) (use True len in \<open>auto simp: has_def\<close>)
    ultimately show ?thesis using True len ne by (simp add: row_truncate_def row_ok_def Let_def)
  next
    case False
    have "cells_ok (take n (cells r))"
      unfolding cells_ok_def
      by (rule packed.tiled_take[OF t]) (use False in \<open>auto simp: has_def\<close>)
    moreover have "\<not> (take n (cells r) \<noteq> [] \<and> is_wide (last (take n (cells r))))"
      using False len by (auto simp: last_conv_nth)
    ultimately show ?thesis using len by (auto simp: row_truncate_def row_ok_def Let_def)
  qed
qed

lemma row_resize_ok:
  assumes "row_ok m r"
  shows "row_ok n (row_resize n cell_new r)"
proof (cases "n < m")
  case True
  then show ?thesis using row_truncate_ok[OF assms, of n] assms by (simp add: row_resize_def row_ok_def)
next
  case False
  have "cells_ok (cells r @ replicate (n - m) cell_new)"
    unfolding cells_ok_def
    by (rule packed.tiled_append)
      (use assms in \<open>auto simp: row_ok_def cells_ok_def list_all_iff intro!: packed.tiled_plain\<close>)
  then show ?thesis using False assms by (simp add: row_resize_def row_ok_def vec_resize_def)
qed

lemma row_set_plain_ok:
  assumes "row_ok n r" "i < n" "\<not> is_wide (cells r ! i)" "\<not> is_wide_continuation (cells r ! i)"
    "scalar ch" "(case width ch of Some w \<Rightarrow> w | None \<Rightarrow> 1) \<le> 1"
  shows "\<exists>d. row_edit i (cell_set width ch a) r = Some (r\<lparr>cells := (cells r)[i := d]\<rparr>) \<and>
    row_ok n (r\<lparr>cells := (cells r)[i := d]\<rparr>) \<and> cell_ok d \<and> cell_contents d = Some [ch] \<and>
    has_contents d \<and> cell_attrs d = a \<and> \<not> is_wide d \<and> \<not> is_wide_continuation d"
proof -
  note ok = row_okD[OF assms(1)]
  have "length (cell_bytes (cells r ! i)) = CONTENT_BYTES"
    using cells_okD(1)[OF ok(2), of i] ok(1) assms(2) by (simp add: cell_ok_def)
  then obtain d where d: "cell_set width ch a (cells r ! i) = Some d" "cell_ok d"
    "cell_contents d = Some [ch]" "has_contents d" "cell_attrs d = a" "\<not> is_wide_continuation d"
    "\<not> is_wide d"
    using cell_set_ok[OF _ assms(5), of _ width a] assms(6) by (metis linorder_not_le)
  have "cells_ok ((cells r)[i := d])"
    unfolding cells_ok_def by (rule packed.tiled_write_plain)
      (use assms ok d in \<open>auto simp: cells_ok_def\<close>)
  then show ?thesis using d assms ok by (auto simp: row_edit_def row_ok_def row_get_def)
qed

section \<open>Reading a row as text\<close>

definition cell_text :: "Cell \<Rightarrow> ustr" where
  "cell_text c =
     (if is_wide_continuation c then [] else if has_contents c then the (cell_contents c) else [32])"

definition row_text :: "Cell list \<Rightarrow> ustr" where
  "row_text cs = concat (map cell_text (rev (dropWhile (\<lambda>c. \<not> has_contents c) (rev cs))))"

lemma drop_blank: "list_all (\<lambda>c. \<not> has_contents c) cs \<Longrightarrow> dropWhile (\<lambda>c. \<not> has_contents c) (rev cs) = []"
  by (simp add: list_all_iff)

lemma row_text_blank: "list_all (\<lambda>c. \<not> has_contents c) cs \<Longrightarrow> row_text cs = []"
  by (simp add: row_text_def drop_blank)

lemma row_text_Cons:
  assumes "\<not> list_all (\<lambda>c. \<not> has_contents c) (c # cs)"
  shows "row_text (c # cs) = cell_text c @ row_text cs"
proof (cases "list_all (\<lambda>c. \<not> has_contents c) cs")
  case True
  then show ?thesis using assms
    by (simp add: row_text_def drop_blank dropWhile_append)
next
  case False
  then show ?thesis by (auto simp: row_text_def list_all_iff dropWhile_append)
qed

text \<open>The halves follow each other along a segment of a row; the flag says whether the cell
  before it is a first half.\<close>

fun linked :: "bool \<Rightarrow> Cell list \<Rightarrow> bool" where
  "linked p [] = True"
| "linked p (c # cs) = (cell_ok c \<and> is_wide_continuation c = p \<and> linked (is_wide c) cs)"

lemma linked_nth:
  "linked p cs \<longleftrightarrow> list_all cell_ok cs \<and>
     (\<forall>i<length cs. is_wide_continuation (cs ! i) = (if i = 0 then p else is_wide (cs ! (i - 1))))"
proof (induction cs arbitrary: p)
  case (Cons c cs)
  show ?case
    by (simp add: Cons.IH All_less_Suc2 less_Suc_eq_0_disj) (auto simp: nth_Cons')
qed simp

lemma linked_segment:
  assumes "row_ok n r" "\<not> (start < n \<and> is_wide_continuation (cells r ! start))"
  shows "linked False (take width (drop start (cells r)))"
proof -
  note ok = row_okD[OF assms(1)]
  note t = tiledD[OF ok(2)[unfolded cells_ok_def]]
  have step: "is_wide_continuation (cells r ! (start + i)) = (0 < i \<and> is_wide (cells r ! (start + (i - 1))))"
    if "start + i < n" for i
    using t(1)[of "start + (i - 1)"] that assms(2) ok(1) by (cases i) (auto simp: has_def)
  have "list_all cell_ok (take width (drop start (cells r)))"
    using ok(2) by (auto simp: cells_ok_def tiled_def list_all_iff dest: in_set_takeD in_set_dropD)
  then show ?thesis using ok(1) step step[of 0] by (auto simp: linked_nth)
qed

lemma write_cells_text:
  assumes "linked p cs" "k + length cs < u16_max" "if p then q = Suc k else q \<le> k"
  shows "\<exists>q'. write_cells (enumerate k cs) p q out =
      Some (q', out @ (if list_all (\<lambda>c. \<not> has_contents c) cs then [] else replicate (k - q) 32 @ row_text cs)) \<and>
    q \<le> q' \<and> (q' = q \<longleftrightarrow> list_all (\<lambda>c. \<not> has_contents c) cs)"
  using assms
proof (induction cs arbitrary: p k q out)
  case Nil
  then show ?case by simp
next
  case (Cons c cs)
  have c: "cell_ok c" "is_wide_continuation c = p" "linked (is_wide c) cs" using Cons.prems by auto
  show ?case
  proof (cases p)
    case True
    then have b: "\<not> has_contents c" "\<not> is_wide c" using packed.cont_blank[of c] c by auto
    have "cell_text c = []" using c True by (simp add: cell_text_def)
    then show ?thesis using Cons.IH[of False "Suc k" q out] c b True Cons.prems
      by (cases "list_all (\<lambda>c. \<not> has_contents c) cs") (auto simp: row_text_Cons enumerate_simps)
  next
    case p: False
    show ?thesis
    proof (cases "has_contents c")
      case True
      let ?q = "Suc k + (if is_wide c then 1 else 0)"
      obtain t where t: "cell_contents c = Some t" using c(1) by (auto elim: cell_okE)
      have "cell_text c = t" using t True c(2) p by (simp add: cell_text_def)
      moreover have "?q \<le> u16_max" using Cons.prems by simp
      ultimately show ?thesis
        using Cons.IH[of "is_wide c" "Suc k" ?q "out @ replicate (k - q) 32 @ t"] c p t True Cons.prems
        by (cases "list_all (\<lambda>c. \<not> has_contents c) cs")
          (auto simp: row_text_Cons row_text_blank)
    next
      case False
      then have b: "\<not> is_wide c" "cell_text c = [32]"
        using c(1,2) p by (auto simp: cell_ok_def cell_text_def)
      have "Suc k - q = Suc (k - q)" using Cons.prems p by simp
      then show ?thesis using Cons.IH[of False "Suc k" q out] c p b False Cons.prems
        by (cases "list_all (\<lambda>c. \<not> has_contents c) cs")
          (auto simp: row_text_Cons replicate_append_same[symmetric])
    qed
  qed
qed

lemma row_write_contents_text_aux:
  fixes width :: nat
  assumes "row_ok n r" "n < u16_max" "\<not> (start < n \<and> is_wide_continuation (cells r ! start))"
  defines "window \<equiv> take width (drop start (cells r))"
  shows "row_write_contents start width wrapping r out = Some (out @ row_text window @
    (if list_all (\<lambda>c. \<not> has_contents c) window \<and> wrapping then [10] else []))"
proof -
  have len: "length (cells r) = n" using assms(1) by (simp add: row_ok_def)
  have num: "take width (drop start (enumerate 0 (cells r))) = enumerate start window"
    if "start \<le> n"
    using that len by (auto simp: window_def nth_enumerate_eq intro!: nth_equalityI)
  show ?thesis
  proof (cases "start \<le> n")
    case True
    have "start + length window < u16_max" using True len assms(2) by (simp add: window_def)
    then show ?thesis
      using write_cells_text[OF linked_segment[OF assms(1,3), of width, folded window_def], of start start out]
        row_text_blank[of window] by (auto simp: row_write_contents_def num[OF True])
  next
    case False
    then show ?thesis using len by (simp add: row_write_contents_def window_def row_text_blank)
  qed
qed

text \<open>What a row is read out as. For any window of columns that does not begin on the
  second half of a wide character, \<open>write_contents\<close> never panics and appends the text of the
  cells in order - a space for an empty cell, a wide character once - without the empty cells
  after the last text; a window with no text gives nothing, or a line feed when the row
  continues a wrapped line.\<close>

theorem row_write_contents_text:
  fixes width :: nat
  assumes "row_ok n r" "n < u16_max" "\<not> (start < n \<and> is_wide_continuation (cells r ! start))"
  defines "window \<equiv> take width (drop start (cells r))"
  shows "row_write_contents start width wrapping r out = Some (out @ row_text window @
    (if list_all (\<lambda>c. \<not> has_contents c) window \<and> wrapping then [10] else []))"
  unfolding window_def by (rule row_write_contents_text_aux[OF assms(1-3)])

lemma row_write_contents_text_witness:
  "\<exists>r. row_edit 1 (cell_set (\<lambda>_. Some 1) 97 attrs_default) (row_new 3) = Some r \<and>
     row_write_contents 0 3 True r [] = Some [32, 97]"
proof -
  obtain d where d: "row_edit 1 (cell_set (\<lambda>_. Some 1) 97 attrs_default) (row_new 3) =
      Some ((row_new 3)\<lparr>cells := (cells (row_new 3))[1 := d]\<rparr>)"
    "row_ok 3 ((row_new 3)\<lparr>cells := (cells (row_new 3))[1 := d]\<rparr>)"
    "cell_contents d = Some [97]" "has_contents d" "\<not> is_wide_continuation d"
    using row_set_plain_ok[of 3 "row_new 3" 1 97 "\<lambda>_. Some 1" attrs_default]
    by (auto simp: row_new_def scalar_def simp del: row_new_ok intro: row_new_ok[unfolded row_new_def])
  have cs: "(cells (row_new 3))[1 := d] = [cell_new, d, cell_new]"
    by (simp add: row_new_def numeral_3_eq_3)
  have first: "cells (row_new 3) ! 0 = cell_new" by (simp add: row_new_def)
  have "row_text [cell_new, d, cell_new] = [32, 97]"
    using d by (simp add: row_text_def cell_text_def)
  then show ?thesis
    using row_write_contents_text[OF d(2), of 0 3 True "[]"] d(1,4) cs first by simp
qed

end
