(* ===== verification/VtGrid.thy ===== *)
theory VtGrid
  imports VtRow
begin

text \<open>
  The grid of a terminal: \<open>src/src/vt100/grid.rs\<close>, with its cursor, scroll region and
  scrollback. Coordinates are naturals; every \<open>u16\<close> operation is written with the saturation or
  the overflow check of the source, and every index that the source unwraps is an index that may
  fail, so that \<^const>\<open>None\<close> is a panic. \<open>grid_ok\<close> is the invariant (a grid of the alternate
  screen may have no rows yet), \<open>grid_ready\<close> adds that the rows are there. Each operation is
  shown to return and to keep \<open>grid_ready\<close>, the size and the scrollback limit
  (\<open>grid_step\<close>). The columns are bounded by 65527, the widest grid on which the tab operation
  cannot overflow; the program clamps its terminals to far smaller sizes.
\<close>

record Size =
  size_rows :: nat
  size_cols :: nat

record Pos =
  pos_row :: nat
  pos_col :: nat

record Grid =
  gsize :: Size
  gpos :: Pos
  saved_pos :: Pos
  grows :: "Row list"
  scroll_top :: nat
  scroll_bottom :: nat
  origin_mode :: bool
  saved_origin_mode :: bool
  scrollback :: "Row list"
  scrollback_len :: nat
  scrollback_offset :: nat

abbreviation pos_default :: Pos where "pos_default \<equiv> \<lparr>pos_row = 0, pos_col = 0\<rparr>"

definition grid_new :: "Size \<Rightarrow> nat \<Rightarrow> Grid option" where
  "grid_new sz len =
     do { bottom \<leftarrow> sub16 (size_rows sz) 1;
          Some \<lparr>gsize = sz, gpos = pos_default, saved_pos = pos_default, grows = [],
                scroll_top = 0, scroll_bottom = bottom, origin_mode = False,
                saved_origin_mode = False, scrollback = [], scrollback_len = len,
                scrollback_offset = 0\<rparr> }"

definition new_row :: "Grid \<Rightarrow> Row" where
  "new_row g = row_new (size_cols (gsize g))"

definition allocate_rows :: "Grid \<Rightarrow> Grid" where
  "allocate_rows g =
     (if grows g = [] then g\<lparr>grows := replicate (size_rows (gsize g)) (new_row g)\<rparr> else g)"

definition grid_clear :: "Grid \<Rightarrow> Grid option" where
  "grid_clear g =
     do { bottom \<leftarrow> sub16 (size_rows (gsize g)) 1;
          Some (g\<lparr>gpos := pos_default, saved_pos := pos_default,
                  grows := map (row_clear attrs_default) (grows g), scroll_top := 0,
                  scroll_bottom := bottom, origin_mode := False, saved_origin_mode := False\<rparr>) }"

section \<open>The cursor\<close>

definition set_row :: "nat \<Rightarrow> Grid \<Rightarrow> Grid" where
  "set_row i g = g\<lparr>gpos := (gpos g)\<lparr>pos_row := i\<rparr>\<rparr>"

definition set_col :: "nat \<Rightarrow> Grid \<Rightarrow> Grid" where
  "set_col i g = g\<lparr>gpos := (gpos g)\<lparr>pos_col := i\<rparr>\<rparr>"

text \<open>The clamping steps; the first two also answer by how many rows the cursor was moved.\<close>

definition row_clamp_top :: "bool \<Rightarrow> Grid \<Rightarrow> nat \<times> Grid" where
  "row_clamp_top limit_to_scroll_region g =
     (if limit_to_scroll_region \<and> pos_row (gpos g) < scroll_top g
      then (scroll_top g - pos_row (gpos g), set_row (scroll_top g) g) else (0, g))"

definition row_clamp_bottom :: "bool \<Rightarrow> Grid \<Rightarrow> (nat \<times> Grid) option" where
  "row_clamp_bottom limit_to_scroll_region g =
     do { bottom \<leftarrow> (if limit_to_scroll_region then Some (scroll_bottom g)
                     else sub16 (size_rows (gsize g)) 1);
          Some (if bottom < pos_row (gpos g) then (pos_row (gpos g) - bottom, set_row bottom g)
                else (0, g)) }"

definition row_clamp :: "Grid \<Rightarrow> Grid option" where
  "row_clamp g =
     do { bottom \<leftarrow> sub16 (size_rows (gsize g)) 1;
          Some (if bottom < pos_row (gpos g) then set_row bottom g else g) }"

definition col_clamp :: "Grid \<Rightarrow> Grid option" where
  "col_clamp g =
     do { right \<leftarrow> sub16 (size_cols (gsize g)) 1;
          Some (if right < pos_col (gpos g) then set_col right g else g) }"

definition set_pos :: "Pos \<Rightarrow> Grid \<Rightarrow> Grid option" where
  "set_pos p g =
     do { let p = (if origin_mode g then p\<lparr>pos_row := sat_add (pos_row p) (scroll_top g)\<rparr> else p);
          let (_, g) = row_clamp_top (origin_mode g) (g\<lparr>gpos := p\<rparr>);
          (_, g) \<leftarrow> row_clamp_bottom (origin_mode g) g;
          col_clamp g }"

definition grid_save_cursor :: "Grid \<Rightarrow> Grid" where
  "grid_save_cursor g = g\<lparr>saved_pos := gpos g, saved_origin_mode := origin_mode g\<rparr>"

definition grid_restore_cursor :: "Grid \<Rightarrow> Grid" where
  "grid_restore_cursor g = g\<lparr>gpos := saved_pos g, origin_mode := saved_origin_mode g\<rparr>"

text \<open>\<open>set_size\<close> in its three parts: the rows and the bottom of the scroll region take the new
  size, then the region and the cursor are brought back inside, then the saved cursor.\<close>

definition set_size_rows :: "Size \<Rightarrow> Grid \<Rightarrow> Grid option" where
  "set_size_rows sz g =
     do { let g = (if size_cols sz \<noteq> size_cols (gsize g)
                   then g\<lparr>grows := map (row_wrap False) (grows g)\<rparr> else g);
          old \<leftarrow> sub16 (size_rows (gsize g)) 1;
          g \<leftarrow> (if scroll_bottom g = old
               then do { bottom \<leftarrow> sub16 (size_rows sz) 1; Some (g\<lparr>scroll_bottom := bottom\<rparr>) }
               else Some g);
          let g = g\<lparr>gsize := sz\<rparr>;
          let g = g\<lparr>grows := map (row_resize (size_cols sz) cell_new) (grows g)\<rparr>;
          Some (g\<lparr>grows := vec_resize (size_rows sz) (new_row g) (grows g)\<rparr>) }"

definition set_size_clamp :: "Size \<Rightarrow> Grid \<Rightarrow> Grid option" where
  "set_size_clamp sz g =
     do { g \<leftarrow> (if size_rows sz \<le> scroll_bottom g
               then do { bottom \<leftarrow> sub16 (size_rows sz) 1; Some (g\<lparr>scroll_bottom := bottom\<rparr>) }
               else Some g);
          let g = (if scroll_bottom g < scroll_top g then g\<lparr>scroll_top := 0\<rparr> else g);
          let (_, g) = row_clamp_top False g;
          (_, g) \<leftarrow> row_clamp_bottom False g;
          col_clamp g }"

definition set_size_saved :: "Grid \<Rightarrow> Grid option" where
  "set_size_saved g =
     do { bottom \<leftarrow> sub16 (size_rows (gsize g)) 1;
          let g = (if bottom < pos_row (saved_pos g)
                   then g\<lparr>saved_pos := (saved_pos g)\<lparr>pos_row := bottom\<rparr>\<rparr> else g);
          right \<leftarrow> sub16 (size_cols (gsize g)) 1;
          Some (if right < pos_col (saved_pos g)
                then g\<lparr>saved_pos := (saved_pos g)\<lparr>pos_col := right\<rparr>\<rparr> else g) }"

definition set_size :: "Size \<Rightarrow> Grid \<Rightarrow> Grid option" where
  "set_size sz g = do { g \<leftarrow> set_size_rows sz g; g \<leftarrow> set_size_clamp sz g; set_size_saved g }"

definition in_scroll_region :: "Grid \<Rightarrow> bool" where
  "in_scroll_region g \<longleftrightarrow> scroll_top g \<le> pos_row (gpos g) \<and> pos_row (gpos g) \<le> scroll_bottom g"

definition scroll_region_active :: "Grid \<Rightarrow> bool option" where
  "scroll_region_active g =
     (if scroll_top g \<noteq> 0 then Some True
      else do { bottom \<leftarrow> sub16 (size_rows (gsize g)) 1; Some (scroll_bottom g \<noteq> bottom) })"

section \<open>Views\<close>

text \<open>The rows in view: the scrolled-back part of the history, then the screen.\<close>

definition visible_rows :: "Grid \<Rightarrow> Row list option" where
  "visible_rows g =
     do { hidden \<leftarrow> sub16 (length (scrollback g)) (scrollback_offset g);
          Some (take (length (grows g)) (drop hidden (scrollback g))
                @ take (length (grows g) - scrollback_offset g) (grows g)) }"

definition visible_cell :: "Pos \<Rightarrow> Grid \<Rightarrow> Cell option option" where
  "visible_cell p g =
     do { rows \<leftarrow> visible_rows g;
          Some (Option.bind (vec_get (pos_row p) rows) (row_get (pos_col p))) }"

definition drawing_row :: "nat \<Rightarrow> Grid \<Rightarrow> Row option" where
  "drawing_row i g = vec_get i (grows g)"

definition drawing_cell :: "Pos \<Rightarrow> Grid \<Rightarrow> Cell option" where
  "drawing_cell p g = Option.bind (drawing_row (pos_row p) g) (row_get (pos_col p))"

definition set_scrollback :: "nat \<Rightarrow> Grid \<Rightarrow> Grid" where
  "set_scrollback rows g = g\<lparr>scrollback_offset := min rows (length (scrollback g))\<rparr>"

fun write_rows :: "nat \<Rightarrow> Row list \<Rightarrow> bool \<Rightarrow> ustr \<Rightarrow> ustr option" where
  "write_rows cols [] wrapping out = Some out"
| "write_rows cols (r # rs) wrapping out =
     do { out \<leftarrow> row_write_contents 0 cols wrapping r out;
          write_rows cols rs (wrapped r) (if wrapped r then out else out @ [10]) }"

definition grid_write_contents :: "Grid \<Rightarrow> ustr \<Rightarrow> ustr option" where
  "grid_write_contents g out =
     do { rows \<leftarrow> visible_rows g;
          out \<leftarrow> write_rows (size_cols (gsize g)) rows False out;
          Some (rev (dropWhile (\<lambda>c. c = 10) (rev out))) }"

section \<open>Edits\<close>

text \<open>\<open>drawing_row_mut(i).unwrap()\<close>, \<open>drawing_cell_mut(pos).unwrap()\<close> followed by an edit.\<close>

definition edit_row :: "nat \<Rightarrow> (Row \<Rightarrow> Row option) \<Rightarrow> Grid \<Rightarrow> Grid option" where
  "edit_row i f g =
     do { r \<leftarrow> drawing_row i g; r \<leftarrow> f r; Some (g\<lparr>grows := (grows g)[i := r]\<rparr>) }"

definition edit_cell :: "Pos \<Rightarrow> (Cell \<Rightarrow> Cell option) \<Rightarrow> Grid \<Rightarrow> Grid option" where
  "edit_cell p f g = edit_row (pos_row p) (row_edit (pos_col p) f) g"

definition edit_current :: "(Row \<Rightarrow> Row option) \<Rightarrow> Grid \<Rightarrow> Grid option" where
  "edit_current f g = edit_row (pos_row (gpos g)) f g"

definition erase_all :: "Attrs \<Rightarrow> Grid \<Rightarrow> Grid" where
  "erase_all a g = g\<lparr>grows := map (row_clear a) (grows g)\<rparr>"

definition erase_row :: "Attrs \<Rightarrow> Grid \<Rightarrow> Grid option" where
  "erase_row a g = edit_current (\<lambda>r. Some (row_clear a r)) g"

definition erase_row_forward :: "Attrs \<Rightarrow> Grid \<Rightarrow> Grid option" where
  "erase_row_forward a g =
     edit_current (fold_opt (\<lambda>col. row_erase col a) [pos_col (gpos g)..<size_cols (gsize g)]) g"

definition erase_row_backward :: "Attrs \<Rightarrow> Grid \<Rightarrow> Grid option" where
  "erase_row_backward a g =
     do { right \<leftarrow> sub16 (size_cols (gsize g)) 1;
          edit_current (fold_opt (\<lambda>col. row_erase col a) [0..<Suc (min (pos_col (gpos g)) right)]) g }"

definition erase_all_forward :: "Attrs \<Rightarrow> Grid \<Rightarrow> Grid option" where
  "erase_all_forward a g =
     (let n = pos_row (gpos g) + 1
      in erase_row_forward a
           (g\<lparr>grows := take n (grows g) @ map (row_clear a) (drop n (grows g))\<rparr>))"

definition erase_all_backward :: "Attrs \<Rightarrow> Grid \<Rightarrow> Grid option" where
  "erase_all_backward a g =
     (let n = pos_row (gpos g)
      in erase_row_backward a
           (g\<lparr>grows := map (row_clear a) (take n (grows g)) @ drop n (grows g)\<rparr>))"

definition insert_cells :: "nat \<Rightarrow> Grid \<Rightarrow> Grid option" where
  "insert_cells count g =
     do { let col = pos_col (gpos g);
          wide \<leftarrow> (if col < size_cols (gsize g)
                  then do { c \<leftarrow> drawing_cell (gpos g) g; Some (is_wide_continuation c) }
                  else Some False);
          edit_current (\<lambda>r.
            do { r \<leftarrow> repeat_opt count (\<lambda>r.
                   do { r \<leftarrow> (if wide then row_edit col (\<lambda>c. Some (set_wide_continuation False c)) r
                             else Some r);
                        r \<leftarrow> row_insert col cell_new r;
                        if wide then row_edit col (\<lambda>c. Some (set_wide_continuation True c)) r
                        else Some r }) r;
                 Some (row_truncate (size_cols (gsize g)) r) }) g }"

definition delete_cells :: "nat \<Rightarrow> Grid \<Rightarrow> Grid option" where
  "delete_cells count g =
     do { room \<leftarrow> sub16 (size_cols (gsize g)) (pos_col (gpos g));
          edit_current (\<lambda>r.
            do { r \<leftarrow> repeat_opt (min count room) (row_remove (pos_col (gpos g))) r;
                 Some (row_resize (size_cols (gsize g)) cell_new r) }) g }"

definition erase_cells :: "nat \<Rightarrow> Attrs \<Rightarrow> Grid \<Rightarrow> Grid option" where
  "erase_cells count a g =
     (let col = pos_col (gpos g)
      in edit_current (fold_opt (\<lambda>col. row_erase col a)
           [col..<min (sat_add col count) (size_cols (gsize g))]) g)"

definition insert_lines :: "nat \<Rightarrow> Grid \<Rightarrow> Grid option" where
  "insert_lines count =
     repeat_opt count (\<lambda>g.
       do { (_, rows) \<leftarrow> vec_remove (scroll_bottom g) (grows g);
            rows \<leftarrow> vec_insert (pos_row (gpos g)) (new_row g) rows;
            edit_row (scroll_bottom g) (\<lambda>r. Some (row_wrap False r)) (g\<lparr>grows := rows\<rparr>) })"

definition delete_lines :: "nat \<Rightarrow> Grid \<Rightarrow> Grid option" where
  "delete_lines count g =
     do { room \<leftarrow> sub16 (size_rows (gsize g)) (pos_row (gpos g));
          repeat_opt (min count room) (\<lambda>g.
            do { rows \<leftarrow> vec_insert (scroll_bottom g + 1) (new_row g) (grows g);
                 (_, rows) \<leftarrow> vec_remove (pos_row (gpos g)) rows;
                 Some (g\<lparr>grows := rows\<rparr>) }) g }"

fun pop_excess :: "nat \<Rightarrow> 'a list \<Rightarrow> 'a list" where
  "pop_excess limit [] = []"
| "pop_excess limit (x # xs) = (if limit < length (x # xs) then pop_excess limit xs else x # xs)"

definition push_scrollback :: "Row \<Rightarrow> Grid \<Rightarrow> Grid" where
  "push_scrollback removed g =
     (let history = pop_excess (scrollback_len g) (scrollback g @ [removed]) in
      g\<lparr>scrollback := history,
        scrollback_offset :=
          (if 0 < scrollback_offset g then min (length history) (scrollback_offset g + 1)
           else scrollback_offset g)\<rparr>)"

definition scroll_up :: "nat \<Rightarrow> Grid \<Rightarrow> Grid option" where
  "scroll_up count g =
     do { room \<leftarrow> sub16 (size_rows (gsize g)) (scroll_top g);
          repeat_opt (min count room) (\<lambda>g.
            do { rows \<leftarrow> vec_insert (scroll_bottom g + 1) (new_row g) (grows g);
                 (removed, rows) \<leftarrow> vec_remove (scroll_top g) rows;
                 let g = g\<lparr>grows := rows\<rparr>;
                 keep \<leftarrow> (if 0 < scrollback_len g then map_option Not (scroll_region_active g)
                         else Some False);
                 Some (if keep then push_scrollback removed g else g) }) g }"

definition scroll_down :: "nat \<Rightarrow> Grid \<Rightarrow> Grid option" where
  "scroll_down count =
     repeat_opt count (\<lambda>g.
       do { (_, rows) \<leftarrow> vec_remove (scroll_bottom g) (grows g);
            rows \<leftarrow> vec_insert (scroll_top g) (new_row g) rows;
            edit_row (scroll_bottom g) (\<lambda>r. Some (row_wrap False r)) (g\<lparr>grows := rows\<rparr>) })"

section \<open>Cursor movement\<close>

definition set_scroll_region :: "nat \<Rightarrow> nat \<Rightarrow> Grid \<Rightarrow> Grid option" where
  "set_scroll_region t b g =
     do { bottom \<leftarrow> sub16 (size_rows (gsize g)) 1;
          let b = min b bottom;
          let g = (if t < b then g\<lparr>scroll_top := t, scroll_bottom := b\<rparr>
                   else g\<lparr>scroll_top := 0, scroll_bottom := bottom\<rparr>);
          Some (set_col 0 (set_row (scroll_top g) g)) }"

definition set_origin_mode :: "bool \<Rightarrow> Grid \<Rightarrow> Grid option" where
  "set_origin_mode m g = set_pos pos_default (g\<lparr>origin_mode := m\<rparr>)"

definition row_inc_clamp :: "nat \<Rightarrow> Grid \<Rightarrow> Grid option" where
  "row_inc_clamp count g =
     map_option snd (row_clamp_bottom (in_scroll_region g) (set_row (sat_add (pos_row (gpos g)) count) g))"

definition row_inc_scroll :: "nat \<Rightarrow> Grid \<Rightarrow> (nat \<times> Grid) option" where
  "row_inc_scroll count g =
     do { let inside = in_scroll_region g;
          (lines, g) \<leftarrow> row_clamp_bottom inside (set_row (sat_add (pos_row (gpos g)) count) g);
          if inside then do { g \<leftarrow> scroll_up lines g; Some (lines, g) } else Some (0, g) }"

definition row_dec_clamp :: "nat \<Rightarrow> Grid \<Rightarrow> Grid" where
  "row_dec_clamp count g =
     snd (row_clamp_top (in_scroll_region g) (set_row (sat_sub (pos_row (gpos g)) count) g))"

definition row_dec_scroll :: "nat \<Rightarrow> Grid \<Rightarrow> Grid option" where
  "row_dec_scroll count g =
     do { let inside = in_scroll_region g;
          let extra_lines = sat_sub count (pos_row (gpos g));
          let (lines, g) = row_clamp_top inside (set_row (sat_sub (pos_row (gpos g)) count) g);
          n \<leftarrow> add16 lines extra_lines;
          scroll_down n g }"

definition row_set :: "nat \<Rightarrow> Grid \<Rightarrow> Grid option" where
  "row_set i g = row_clamp (set_row i g)"

definition col_inc :: "nat \<Rightarrow> Grid \<Rightarrow> Grid" where
  "col_inc count g = set_col (sat_add (pos_col (gpos g)) count) g"

definition col_inc_clamp :: "nat \<Rightarrow> Grid \<Rightarrow> Grid option" where
  "col_inc_clamp count g = col_clamp (col_inc count g)"

definition col_dec :: "nat \<Rightarrow> Grid \<Rightarrow> Grid" where
  "col_dec count g = set_col (sat_sub (pos_col (gpos g)) count) g"

definition col_tab :: "Grid \<Rightarrow> Grid option" where
  "col_tab g =
     do { let stop = pos_col (gpos g) - pos_col (gpos g) mod 8;
          col \<leftarrow> add16 stop 8;
          col_clamp (set_col col g) }"

definition col_set :: "nat \<Rightarrow> Grid \<Rightarrow> Grid option" where
  "col_set i g = col_clamp (set_col i g)"

definition col_wrap :: "nat \<Rightarrow> bool \<Rightarrow> Grid \<Rightarrow> Grid option" where
  "col_wrap width wrap g =
     (if sat_sub (size_cols (gsize g)) width < pos_col (gpos g) then
        do { let prev_row = pos_row (gpos g);
             g \<leftarrow> edit_row prev_row (\<lambda>r. Some (row_wrap wrap r)) g;
             (scrolled, g) \<leftarrow> row_inc_scroll 1 (set_col 0 g);
             if scrolled = 0 \<and> pos_row (gpos g) = prev_row
             then edit_row prev_row (\<lambda>r. Some (row_wrap False r)) g else Some g }
      else Some g)"

end
