(* ===== verification/VtGridInv.thy ===== *)
theory VtGridInv
  imports VtGrid
begin

text \<open>
  The invariant of a grid and the proof that no operation of \<open>VtGrid\<close> panics or breaks it.
  \<open>grid_step g g'\<close> collects what every operation guarantees of its result.
\<close>

abbreviation max_cols :: nat where "max_cols \<equiv> 65527"

definition size_ok :: "Size \<Rightarrow> bool" where
  "size_ok sz \<longleftrightarrow> 1 \<le> size_rows sz \<and> size_rows sz \<le> u16_max \<and>
     1 \<le> size_cols sz \<and> size_cols sz \<le> max_cols"

text \<open>The cursor is on a row of the grid; its column may be one past the last one, which is where
  it waits after a character in the last column.\<close>

definition pos_ok :: "Size \<Rightarrow> Pos \<Rightarrow> bool" where
  "pos_ok sz p \<longleftrightarrow> pos_row p < size_rows sz \<and> pos_col p \<le> size_cols sz"

definition history_ok :: "Row \<Rightarrow> bool" where
  "history_ok r \<longleftrightarrow> length (cells r) \<le> max_cols \<and> cells_ok (cells r)"

definition grid_ok :: "Grid \<Rightarrow> bool" where
  "grid_ok g \<longleftrightarrow> size_ok (gsize g) \<and> pos_ok (gsize g) (gpos g) \<and> pos_ok (gsize g) (saved_pos g) \<and>
     scroll_top g \<le> scroll_bottom g \<and> scroll_bottom g < size_rows (gsize g) \<and>
     (grows g = [] \<or> length (grows g) = size_rows (gsize g)) \<and>
     list_all (row_ok (size_cols (gsize g))) (grows g) \<and>
     length (scrollback g) \<le> scrollback_len g \<and> list_all history_ok (scrollback g) \<and>
     scrollback_offset g \<le> length (scrollback g)"

definition grid_ready :: "Grid \<Rightarrow> bool" where
  "grid_ready g \<longleftrightarrow> grid_ok g \<and> grows g \<noteq> []"

definition grid_step :: "Grid \<Rightarrow> Grid \<Rightarrow> bool" where
  "grid_step g g' \<longleftrightarrow> grid_ready g' \<and> gsize g' = gsize g \<and> scrollback_len g' = scrollback_len g"

lemma grid_step_refl: "grid_ready g \<Longrightarrow> grid_step g g"
  by (simp add: grid_step_def)

lemma grid_step_trans: "grid_step g h \<Longrightarrow> grid_step h k \<Longrightarrow> grid_step g k"
  by (simp add: grid_step_def)

lemma grid_stepD: "grid_step g h \<Longrightarrow> grid_ready h"
  by (simp add: grid_step_def)

lemma grid_readyD:
  assumes "grid_ready g"
  shows "size_ok (gsize g)" "pos_row (gpos g) < size_rows (gsize g)"
    "pos_col (gpos g) \<le> size_cols (gsize g)" "length (grows g) = size_rows (gsize g)"
    "scroll_top g \<le> scroll_bottom g" "scroll_bottom g < size_rows (gsize g)"
    "1 \<le> size_rows (gsize g)" "1 \<le> size_cols (gsize g)" "size_rows (gsize g) \<le> u16_max"
    "size_cols (gsize g) \<le> max_cols" "list_all (row_ok (size_cols (gsize g))) (grows g)"
    "i < size_rows (gsize g) \<Longrightarrow> row_ok (size_cols (gsize g)) (grows g ! i)"
  using assms by (auto simp: grid_ready_def grid_ok_def pos_ok_def size_ok_def list_all_length)

lemma grid_new_ok:
  assumes "size_ok sz"
  shows "returns (grid_new sz len) (\<lambda>g. grid_ok g \<and> gsize g = sz \<and> scrollback_len g = len \<and> grows g = [])"
  using assms by (simp add: grid_new_def grid_ok_def pos_ok_def size_ok_def)

lemma allocate_rows_ok: "grid_ok g \<Longrightarrow> grid_step g (allocate_rows g)"
  by (auto simp: grid_step_def grid_ready_def grid_ok_def allocate_rows_def new_row_def list_all_iff
      size_ok_def)

lemma grid_clear_ok:
  assumes "grid_ok g"
  shows "returns (grid_clear g) (\<lambda>h. grid_ok h \<and> gsize h = gsize g \<and>
    scrollback_len h = scrollback_len g \<and> (grows h = [] \<longleftrightarrow> grows g = []))"
  using assms by (auto simp: grid_clear_def grid_ok_def pos_ok_def size_ok_def list_all_iff)

section \<open>The cursor\<close>

lemma set_row_col_simps [simp]:
  "gsize (set_row i g) = gsize g" "grows (set_row i g) = grows g" "saved_pos (set_row i g) = saved_pos g"
  "scroll_top (set_row i g) = scroll_top g" "scroll_bottom (set_row i g) = scroll_bottom g"
  "origin_mode (set_row i g) = origin_mode g" "scrollback (set_row i g) = scrollback g"
  "scrollback_len (set_row i g) = scrollback_len g" "saved_origin_mode (set_row i g) = saved_origin_mode g"
  "scrollback_offset (set_row i g) = scrollback_offset g"
  "gsize (set_col j g) = gsize g" "grows (set_col j g) = grows g" "saved_pos (set_col j g) = saved_pos g"
  "scroll_top (set_col j g) = scroll_top g" "scroll_bottom (set_col j g) = scroll_bottom g"
  "origin_mode (set_col j g) = origin_mode g" "scrollback (set_col j g) = scrollback g"
  "scrollback_len (set_col j g) = scrollback_len g" "saved_origin_mode (set_col j g) = saved_origin_mode g"
  "scrollback_offset (set_col j g) = scrollback_offset g"
  "pos_row (gpos (set_row i g)) = i" "pos_col (gpos (set_row i g)) = pos_col (gpos g)"
  "pos_row (gpos (set_col j g)) = pos_row (gpos g)" "pos_col (gpos (set_col j g)) = j"
  "set_row i (set_row k g) = set_row i g" "set_col j (set_col k g) = set_col j g"
  "set_row (pos_row (gpos g)) g = g" "set_col (pos_col (gpos g)) g = g"
  "set_row i (set_col j g) = set_col j (set_row i g)"
  by (simp_all add: set_row_def set_col_def)

lemma set_gpos: "g\<lparr>gpos := p\<rparr> = set_col (pos_col p) (set_row (pos_row p) g)"
  by (simp add: set_row_def set_col_def)

lemma move_cursor_ok:
  "grid_ready g \<Longrightarrow> i < size_rows (gsize g) \<Longrightarrow> j \<le> size_cols (gsize g) \<Longrightarrow>
     grid_step g (set_col j (set_row i g))"
  by (auto simp: grid_step_def grid_ready_def grid_ok_def pos_ok_def)

lemma move_row_ok: "grid_ready g \<Longrightarrow> i < size_rows (gsize g) \<Longrightarrow> grid_step g (set_row i g)"
  using move_cursor_ok[of g i "pos_col (gpos g)"] grid_readyD(3)[of g]
  by (metis set_row_col_simps(22,28))

lemma move_col_ok: "grid_ready g \<Longrightarrow> j \<le> size_cols (gsize g) \<Longrightarrow> grid_step g (set_col j g)"
  using move_cursor_ok[of g "pos_row (gpos g)" j] grid_readyD(2)[of g] by simp

text \<open>The clamps in closed form.\<close>

lemma row_clamp_top_eq:
  "row_clamp_top limited g =
     (if limited then (scroll_top g - pos_row (gpos g), set_row (max (scroll_top g) (pos_row (gpos g))) g)
      else (0, g))"
  by (auto simp: row_clamp_top_def max_def)

lemma row_clamp_bottom_eq:
  "1 \<le> size_rows (gsize g) \<Longrightarrow> row_clamp_bottom limited g =
     (let bottom = (if limited then scroll_bottom g else size_rows (gsize g) - 1)
      in Some (pos_row (gpos g) - bottom, set_row (min bottom (pos_row (gpos g))) g))"
  by (auto simp: row_clamp_bottom_def min_def Let_def)

lemma row_clamp_eq:
  "1 \<le> size_rows (gsize g) \<Longrightarrow>
     row_clamp g = Some (set_row (min (size_rows (gsize g) - 1) (pos_row (gpos g))) g)"
  by (auto simp: row_clamp_def min_def)

lemma col_clamp_eq:
  "1 \<le> size_cols (gsize g) \<Longrightarrow>
     col_clamp g = Some (set_col (min (size_cols (gsize g) - 1) (pos_col (gpos g))) g)"
  by (auto simp: col_clamp_def min_def)

lemmas clamp_eqs = row_clamp_top_eq row_clamp_bottom_eq row_clamp_eq col_clamp_eq Let_def

lemma set_pos_ok:
  assumes "grid_ready g"
  shows "returns (set_pos p g) (grid_step g)"
proof -
  note h = grid_readyD[OF assms]
  show ?thesis
    using h by (auto simp: set_pos_def set_gpos clamp_eqs intro!: move_cursor_ok[OF assms])
qed

lemma set_origin_mode_ok:
  assumes "grid_ready g"
  shows "returns (set_origin_mode m g) (grid_step g)"
proof -
  have "grid_step g (g\<lparr>origin_mode := m\<rparr>)"
    using assms by (auto simp: grid_step_def grid_ready_def grid_ok_def)
  note s = this
  show ?thesis
    unfolding set_origin_mode_def
    by (rule returns_mono[OF set_pos_ok[OF grid_stepD[OF s]] grid_step_trans[OF s]])
qed

lemma save_restore_ok:
  assumes "grid_ready g"
  shows "grid_step g (grid_save_cursor g)" "grid_step g (grid_restore_cursor g)"
  using assms by (auto simp: grid_save_cursor_def grid_restore_cursor_def grid_step_def
      grid_ready_def grid_ok_def)

lemma set_scrollback_ok: "grid_ready g \<Longrightarrow> grid_step g (set_scrollback n g)"
  by (auto simp: set_scrollback_def grid_step_def grid_ready_def grid_ok_def)

lemma set_scroll_region_ok:
  assumes "grid_ready g"
  shows "returns (set_scroll_region t b g) (grid_step g)"
  using assms grid_readyD(7)[OF assms]
  by (auto simp: set_scroll_region_def grid_step_def grid_ready_def grid_ok_def pos_ok_def Let_def)

lemma col_moves_ok:
  assumes "grid_ready g"
  shows "returns (col_inc_clamp n g) (grid_step g)" "grid_step g (col_dec n g)"
    "returns (col_tab g) (grid_step g)" "returns (col_set i g) (grid_step g)"
proof -
  note h = grid_readyD[OF assms]
  show "returns (col_inc_clamp n g) (grid_step g)" "returns (col_set i g) (grid_step g)"
    "grid_step g (col_dec n g)"
    using h by (auto simp: col_inc_clamp_def col_inc_def col_set_def col_dec_def sat_sub_def clamp_eqs
        intro!: move_col_ok[OF assms])
  have "pos_col (gpos g) - pos_col (gpos g) mod 8 \<le> 65520"
    using h(3,10) by presburger
  then show "returns (col_tab g) (grid_step g)"
    using h by (auto simp: col_tab_def clamp_eqs intro!: move_col_ok[OF assms])
qed

lemma row_moves_ok:
  assumes "grid_ready g"
  shows "returns (row_inc_clamp n g) (grid_step g)" "grid_step g (row_dec_clamp n g)"
    "returns (row_set i g) (grid_step g)"
  using grid_readyD[OF assms]
  by (auto simp: row_inc_clamp_def row_dec_clamp_def row_set_def sat_sub_def clamp_eqs in_scroll_region_def
      intro!: move_row_ok[OF assms])

section \<open>Edits of one row\<close>

lemma edit_row_ok:
  assumes "grid_ready g" "i < size_rows (gsize g)"
    and "\<And>r. row_ok (size_cols (gsize g)) r \<Longrightarrow> r = grows g ! i \<Longrightarrow> returns (f r) (row_ok (size_cols (gsize g)))"
  shows "returns (edit_row i f g) (grid_step g)"
proof -
  note h = grid_readyD[OF assms(1)]
  show ?thesis
    using assms(1,2) h(4) assms(3)[OF h(12)[OF assms(2)] refl]
    by (auto simp: edit_row_def drawing_row_def grid_step_def grid_ready_def grid_ok_def
        list_all_length nth_list_update elim!: returns_mono)
qed

lemma edit_current_ok:
  assumes "grid_ready g"
    and "\<And>r. row_ok (size_cols (gsize g)) r \<Longrightarrow> r = grows g ! pos_row (gpos g) \<Longrightarrow>
      returns (f r) (row_ok (size_cols (gsize g)))"
  shows "returns (edit_current f g) (grid_step g)"
  unfolding edit_current_def using edit_row_ok[OF assms(1) grid_readyD(2)[OF assms(1)] assms(2)] .

lemma erase_range_ok:
  assumes "row_ok n r" "n \<le> max_cols" "\<forall>col\<in>set cols. col < n"
  shows "returns (fold_opt (\<lambda>col. row_erase col a) cols r) (row_ok n)"
  by (rule returns_fold) (use assms row_erase_ok[of n] in \<open>auto simp: returns_def, fastforce\<close>)

lemma erase_row_moves_ok:
  assumes "grid_ready g"
  shows "returns (erase_row a g) (grid_step g)" "returns (erase_row_forward a g) (grid_step g)"
    "returns (erase_row_backward a g) (grid_step g)" "returns (erase_cells n a g) (grid_step g)"
proof -
  note h = grid_readyD[OF assms]
  show "returns (erase_row a g) (grid_step g)" "returns (erase_row_forward a g) (grid_step g)"
    "returns (erase_cells n a g) (grid_step g)"
    unfolding erase_row_def erase_row_forward_def erase_cells_def Let_def
    by (rule edit_current_ok[OF assms]; (intro erase_range_ok)?; use h in auto)+
  show "returns (erase_row_backward a g) (grid_step g)"
    using h by (auto simp: erase_row_backward_def intro!: edit_current_ok[OF assms] erase_range_ok)
qed

lemma clear_rows_ok:
  assumes "grid_ready g"
  shows "grid_step g (erase_all a g)"
    "grid_step g (g\<lparr>grows := take n (grows g) @ map (row_clear a) (drop n (grows g))\<rparr>)"
    "grid_step g (g\<lparr>grows := map (row_clear a) (take n (grows g)) @ drop n (grows g)\<rparr>)"
  using assms grid_readyD(4)[OF assms] by (auto simp: erase_all_def grid_step_def grid_ready_def
      grid_ok_def list_all_iff dest: in_set_takeD in_set_dropD)

lemma erase_screen_ok:
  assumes "grid_ready g"
  shows "returns (erase_all_forward a g) (grid_step g)" "returns (erase_all_backward a g) (grid_step g)"
  unfolding erase_all_forward_def erase_all_backward_def Let_def
  by (rule returns_mono[OF erase_row_moves_ok(2)[OF grid_stepD[OF clear_rows_ok(2)[OF assms]]]]
      returns_mono[OF erase_row_moves_ok(3)[OF grid_stepD[OF clear_rows_ok(3)[OF assms]]]],
      rule grid_step_trans[OF clear_rows_ok(2)[OF assms]] grid_step_trans[OF clear_rows_ok(3)[OF assms]],
      assumption)+

section \<open>Inserting and deleting cells\<close>

text \<open>One round of \<open>insert_cells\<close> in the middle of a wide character.\<close>

lemma insert_half_ok:
  assumes "row_ok n r" "i < n" "is_wide_continuation (cells r ! i)"
  shows "returns (do { r \<leftarrow> row_edit i (\<lambda>c. Some (set_wide_continuation False c)) r;
      r \<leftarrow> row_insert i cell_new r;
      row_edit i (\<lambda>c. Some (set_wide_continuation True c)) r })
    (\<lambda>r'. row_ok (Suc n) r' \<and> is_wide_continuation (cells r' ! i))"
proof -
  let ?xs = "cells r"
  let ?ys = "take i ?xs @ set_wide_continuation True cell_new
    # set_wide_continuation False (?xs ! i) # drop (Suc i) ?xs"
  have len: "length ?xs = n" using assms(1) by (simp add: row_ok_def)
  have "cells_ok ?ys"
    unfolding cells_ok_def by (rule packed.tiled_insert_half)
      (use assms len in \<open>auto simp: row_ok_def cells_ok_def has_def\<close>)
  moreover have "drop i (?xs[i := x]) = x # drop (Suc i) ?xs" for x
    using assms(2) len by (simp add: drop_update_swap Cons_nth_drop_Suc[symmetric])
  ultimately show ?thesis
    using assms(2) len
    by (simp add: row_edit_def row_get_def row_insert_def row_ok_def nth_append list_update_append)
qed

lemma insert_cells_row_ok:
  assumes "row_ok n r" "i \<le> n" "wide = (i < n \<and> is_wide_continuation (cells r ! i))"
  shows "returns (repeat_opt count (\<lambda>r.
      do { r \<leftarrow> (if wide then row_edit i (\<lambda>c. Some (set_wide_continuation False c)) r else Some r);
           r \<leftarrow> row_insert i cell_new r;
           if wide then row_edit i (\<lambda>c. Some (set_wide_continuation True c)) r else Some r }) r)
    (\<lambda>r'. \<exists>m\<ge>n. row_ok m r')"
proof -
  let ?I = "\<lambda>r. \<exists>m\<ge>n. row_ok m r \<and> wide = (i < m \<and> is_wide_continuation (cells r ! i))"
  have "returns (repeat_opt count (\<lambda>r.
      do { r \<leftarrow> (if wide then row_edit i (\<lambda>c. Some (set_wide_continuation False c)) r else Some r);
           r \<leftarrow> row_insert i cell_new r;
           if wide then row_edit i (\<lambda>c. Some (set_wide_continuation True c)) r else Some r }) r) ?I"
  proof (rule returns_repeat)
    fix q assume "?I q"
    then obtain m where q: "n \<le> m" "row_ok m q" "wide = (i < m \<and> is_wide_continuation (cells q ! i))"
      by blast
    show "returns (do { r \<leftarrow> (if wide then row_edit i (\<lambda>c. Some (set_wide_continuation False c)) q else Some q);
           r \<leftarrow> row_insert i cell_new r;
           if wide then row_edit i (\<lambda>c. Some (set_wide_continuation True c)) r else Some r }) ?I"
    proof (cases wide)
      case True
      then show ?thesis
        using insert_half_ok[OF q(2), of i] q assms(2)
        by (auto elim!: returns_mono intro!: exI[of _ "Suc m"])
    next
      case False
      then obtain q' where "row_insert i cell_new q = Some q'" "row_ok (Suc m) q'"
        using row_insert_ok[OF q(2), of i] q assms(2) by auto
      moreover have "cells q' ! i = cell_new"
        using calculation(1) q assms(2) by (auto simp: row_insert_def row_ok_def nth_append)
      ultimately show ?thesis using False q by (auto intro!: exI[of _ "Suc m"])
    qed
  qed (use assms in auto)
  then show ?thesis by (rule returns_mono) auto
qed

lemma insert_cells_ok:
  assumes "grid_ready g"
  shows "returns (insert_cells count g) (grid_step g)"
proof -
  note h = grid_readyD[OF assms]
  let ?i = "pos_col (gpos g)" and ?n = "size_cols (gsize g)"
  define wide where "wide = (?i < ?n \<and> is_wide_continuation (cells (grows g ! pos_row (gpos g)) ! ?i))"
  have w: "(if ?i < ?n then do { c \<leftarrow> drawing_cell (gpos g) g; Some (is_wide_continuation c) }
      else Some False) = Some wide"
    using h(2,4) h(12)[OF h(2)] by (auto simp: drawing_cell_def drawing_row_def wide_def)
  show ?thesis
    unfolding insert_cells_def Let_def w bind.bind_lunit
  proof (rule edit_current_ok[OF assms])
    fix r assume "row_ok ?n r" "r = grows g ! pos_row (gpos g)"
    then have "returns (repeat_opt count (\<lambda>r.
      do { r \<leftarrow> (if wide then row_edit ?i (\<lambda>c. Some (set_wide_continuation False c)) r else Some r);
           r \<leftarrow> row_insert ?i cell_new r;
           if wide then row_edit ?i (\<lambda>c. Some (set_wide_continuation True c)) r else Some r }) r)
      (\<lambda>r'. \<exists>m\<ge>?n. row_ok m r')"
      using h(3) by (intro insert_cells_row_ok) (auto simp: wide_def)
    then show "returns (do { r \<leftarrow> repeat_opt count (\<lambda>r.
        do { r \<leftarrow> (if wide then row_edit ?i (\<lambda>c. Some (set_wide_continuation False c)) r else Some r);
           r \<leftarrow> row_insert ?i cell_new r;
           if wide then row_edit ?i (\<lambda>c. Some (set_wide_continuation True c)) r else Some r }) r;
        Some (row_truncate ?n r) }) (row_ok ?n)"
      unfolding returns_simps(3) by (rule returns_mono) (auto intro: row_truncate_ok)
  qed
qed

lemma remove_cells_ok:
  "row_ok n r \<Longrightarrow> i + k \<le> n \<Longrightarrow> returns (repeat_opt k (row_remove i) r) (row_ok (n - k))"
proof (induction k arbitrary: n r)
  case (Suc k)
  then obtain m where "n = Suc m" by (cases n) auto
  with Suc show ?case
    using row_remove_ok[of m r i] by (auto simp: returns_def)
qed simp

lemma delete_cells_ok:
  assumes "grid_ready g"
  shows "returns (delete_cells count g) (grid_step g)"
proof -
  note h = grid_readyD[OF assms]
  show ?thesis
    unfolding delete_cells_def using h(3)
    by (auto intro!: edit_current_ok[OF assms] returns_mono[OF remove_cells_ok] row_resize_ok)
qed

section \<open>Scrolling\<close>

lemma set_rows_ok:
  assumes "grid_ready g" "length rs = size_rows (gsize g)" "list_all (row_ok (size_cols (gsize g))) rs"
  shows "grid_step g (g\<lparr>grows := rs\<rparr>)"
  using assms grid_readyD(4,7)[OF assms(1)] by (auto simp: grid_step_def grid_ready_def grid_ok_def)

lemma new_row_ok [simp]: "row_ok (size_cols (gsize g)) (new_row g)"
  by (simp add: new_row_def)

text \<open>Remove the row at \<open>i\<close>, insert a blank one at \<open>j\<close>, and the other way round.\<close>

lemma shift_rows:
  assumes "list_all p rs" "p x"
  shows "list_all p (take j (take i rs @ drop k rs) @ x # drop j (take i rs @ drop k rs))"
    "list_all p (take i (take j rs @ x # drop j rs) @ drop k (take j rs @ x # drop j rs))"
  using assms unfolding list_all_iff by (auto dest!: in_set_takeD in_set_dropD)

lemma length_shift_rows:
  assumes "i < length rs" "j < length rs"
  shows "length (take j (take i rs @ drop (Suc i) rs) @ x # drop j (take i rs @ drop (Suc i) rs)) = length rs"
    "length (take i (take (Suc j) rs @ x # drop (Suc j) rs) @ drop (Suc i) (take (Suc j) rs @ x # drop (Suc j) rs))
       = length rs"
  using assms by auto

lemma scroll_in_row_ok:
  assumes "grid_ready g" "j < size_rows (gsize g)"
  shows "returns (do { (_, rows) \<leftarrow> vec_remove (scroll_bottom g) (grows g);
      rows \<leftarrow> vec_insert j (new_row g) rows;
      edit_row (scroll_bottom g) (\<lambda>r. Some (row_wrap False r)) (g\<lparr>grows := rows\<rparr>) }) (grid_step g)"
proof -
  note h = grid_readyD[OF assms(1)]
  let ?rs = "take (scroll_bottom g) (grows g) @ drop (Suc (scroll_bottom g)) (grows g)"
  have step: "grid_step g (g\<lparr>grows := take j ?rs @ new_row g # drop j ?rs\<rparr>)"
    by (rule set_rows_ok[OF assms(1) trans[OF length_shift_rows(1) h(4)] shift_rows(1)[OF h(11) new_row_ok]])
      (use h assms(2) in auto)
  have "returns (edit_row (scroll_bottom g) (\<lambda>r. Some (row_wrap False r))
      (g\<lparr>grows := take j ?rs @ new_row g # drop j ?rs\<rparr>)) (grid_step g)"
    by (rule returns_mono[OF edit_row_ok[OF grid_stepD[OF step]]])
      (use h grid_step_trans[OF step] in auto)
  moreover have "vec_insert j (new_row g) ?rs = Some (take j ?rs @ new_row g # drop j ?rs)"
    by (rule vec_insert_Some) (use h(4,6) assms(2) in auto)
  ultimately show ?thesis using h(4,6) by simp
qed

lemma scroll_out_row:
  assumes "grid_ready g" "i < size_rows (gsize g)"
  defines "rs \<equiv> take (Suc (scroll_bottom g)) (grows g) @ new_row g # drop (Suc (scroll_bottom g)) (grows g)"
  shows "vec_insert (scroll_bottom g + 1) (new_row g) (grows g) = Some rs"
    "vec_remove i rs = Some (rs ! i, take i rs @ drop (Suc i) rs)"
    "grid_step g (g\<lparr>grows := take i rs @ drop (Suc i) rs\<rparr>)"
proof -
  note h = grid_readyD[OF assms(1)]
  show "vec_insert (scroll_bottom g + 1) (new_row g) (grows g) = Some rs"
    using h(4,6) by (simp add: rs_def)
  show "vec_remove i rs = Some (rs ! i, take i rs @ drop (Suc i) rs)"
    using h(4) assms(2) by (simp add: rs_def)
  show "grid_step g (g\<lparr>grows := take i rs @ drop (Suc i) rs\<rparr>)"
    unfolding rs_def
    by (rule set_rows_ok[OF assms(1) trans[OF length_shift_rows(2) h(4)] shift_rows(2)[OF h(11) new_row_ok]])
      (use h assms(2) in auto)
qed

lemma grid_steps:
  assumes "grid_ready g" "\<And>h. grid_ready h \<Longrightarrow> gsize h = gsize g \<Longrightarrow> gpos h = gpos g \<Longrightarrow>
      returns (f h) (\<lambda>k. grid_step h k \<and> gpos k = gpos h)"
  shows "returns (repeat_opt n f g) (\<lambda>k. grid_step g k \<and> gpos k = gpos g)"
proof (rule returns_repeat)
  fix h assume "grid_step g h \<and> gpos h = gpos g"
  then show "returns (f h) (\<lambda>k. grid_step g k \<and> gpos k = gpos g)"
    using assms(2)[of h] grid_step_trans[of g h] by (auto simp: grid_step_def elim!: returns_mono)
qed (use assms grid_step_refl in auto)

lemma edit_row_pos: "edit_row i f g = Some h \<Longrightarrow> gpos h = gpos g"
  by (auto simp: edit_row_def split: bind_splits)

lemma scroll_in_row_pos:
  assumes "grid_ready g" "j < size_rows (gsize g)"
  shows "returns (do { (_, rows) \<leftarrow> vec_remove (scroll_bottom g) (grows g);
      rows \<leftarrow> vec_insert j (new_row g) rows;
      edit_row (scroll_bottom g) (\<lambda>r. Some (row_wrap False r)) (g\<lparr>grows := rows\<rparr>) })
    (\<lambda>k. grid_step g k \<and> gpos k = gpos g)"
  using scroll_in_row_ok[OF assms]
  by (auto simp: returns_def split: bind_splits prod.splits) (drule edit_row_pos, simp)+

lemma scroll_out_row_pos:
  assumes "grid_ready g" "i < size_rows (gsize g)"
  shows "returns (do { rows \<leftarrow> vec_insert (scroll_bottom g + 1) (new_row g) (grows g);
      (_, rows) \<leftarrow> vec_remove i rows;
      Some (g\<lparr>grows := rows\<rparr>) }) (\<lambda>k. grid_step g k \<and> gpos k = gpos g)"
  unfolding scroll_out_row(1)[OF assms] bind.bind_lunit scroll_out_row(2)[OF assms] prod.case returns_simps(1)
  using scroll_out_row(3)[OF assms] by (rule conjI) simp

lemma line_moves_ok:
  assumes "grid_ready g"
  shows "returns (insert_lines n g) (grid_step g)" "returns (delete_lines n g) (grid_step g)"
    "returns (scroll_down n g) (grid_step g)"
proof -
  note h = grid_readyD[OF assms]
  show "returns (insert_lines n g) (grid_step g)"
    unfolding insert_lines_def
    by (rule returns_mono[OF grid_steps[OF assms]], rule scroll_in_row_pos)
      (use grid_readyD(2)[OF assms] in simp_all)
  have top: "scroll_top k < size_rows (gsize g)" if "grid_ready k" "gsize k = gsize g" for k
    using grid_readyD(5,6)[OF that(1)] that(2) by simp
  show "returns (scroll_down n g) (grid_step g)"
    unfolding scroll_down_def
    by (rule returns_mono[OF grid_steps[OF assms]], rule scroll_in_row_pos) (use top in auto)
  have "returns (repeat_opt k (\<lambda>g. do { rows \<leftarrow> vec_insert (scroll_bottom g + 1) (new_row g) (grows g);
                 (_, rows) \<leftarrow> vec_remove (pos_row (gpos g)) rows;
                 Some (g\<lparr>grows := rows\<rparr>) }) g) (\<lambda>k. grid_step g k \<and> gpos k = gpos g)" for k
    by (rule grid_steps[OF assms], rule scroll_out_row_pos) (auto dest: grid_readyD(2))
  then show "returns (delete_lines n g) (grid_step g)"
    using h(2) by (auto simp: delete_lines_def intro: returns_mono)
qed

lemma pop_excess_eq: "pop_excess n xs = drop (length xs - n) xs"
  by (induction n xs rule: pop_excess.induct) (auto simp: Suc_diff_le)

lemma push_scrollback_ok:
  assumes "grid_ready g" "history_ok r"
  shows "grid_step g (push_scrollback r g)"
proof -
  let ?h = "drop (length (scrollback g @ [r]) - scrollback_len g) (scrollback g @ [r])"
  have old: "list_all history_ok (scrollback g)" "length (scrollback g) \<le> scrollback_len g"
    using assms(1) by (auto simp: grid_ready_def grid_ok_def)
  have "list_all history_ok ?h"
    using old assms(2) by (auto simp: list_all_iff dest!: in_set_dropD)
  moreover have "length ?h \<le> scrollback_len g" "scrollback_offset g \<le> length (scrollback g)"
    using old assms(1) by (auto simp: grid_ready_def grid_ok_def)
  ultimately show ?thesis
    using assms(1) unfolding push_scrollback_def pop_excess_eq Let_def
    by (auto simp add: grid_step_def grid_ready_def grid_ok_def simp del: length_drop drop_append)
qed

lemma scroll_up_ok:
  assumes "grid_ready g"
  shows "returns (scroll_up n g) (\<lambda>k. grid_step g k \<and> gpos k = gpos g)"
proof -
  note h = grid_readyD[OF assms]
  have body: "returns (do { rows \<leftarrow> vec_insert (scroll_bottom g + 1) (new_row g) (grows g);
       (removed, rows) \<leftarrow> vec_remove (scroll_top g) rows;
       let g = g\<lparr>grows := rows\<rparr>;
       keep \<leftarrow> (if 0 < scrollback_len g then map_option Not (scroll_region_active g) else Some False);
       Some (if keep then push_scrollback removed g else g) }) (\<lambda>k. grid_step g k \<and> gpos k = gpos g)"
    if g: "grid_ready g" for g
  proof -
    note h = grid_readyD[OF g]
    have t: "scroll_top g < size_rows (gsize g)" using h(5,6) by simp
    let ?rs = "take (Suc (scroll_bottom g)) (grows g) @ new_row g # drop (Suc (scroll_bottom g)) (grows g)"
    let ?g = "g\<lparr>grows := take (scroll_top g) ?rs @ drop (Suc (scroll_top g)) ?rs\<rparr>"
    note s = scroll_out_row[OF g t]
    have "?rs ! scroll_top g = grows g ! scroll_top g"
      using h(4-6) by (auto simp: nth_append)
    then have hist: "history_ok (?rs ! scroll_top g)"
      using h(12)[OF t] h(10) by (simp add: row_ok_def history_ok_def)
    have "returns (scroll_region_active ?g) (\<lambda>_. True)"
      using h(7) by (simp add: scroll_region_active_def)
    then obtain a where a: "scroll_region_active ?g = Some a" by (auto simp: returns_def)
    have push: "grid_step g (push_scrollback (?rs ! scroll_top g) ?g)"
      "gpos (push_scrollback (?rs ! scroll_top g) ?g) = gpos g"
      using grid_step_trans[OF s(3) push_scrollback_ok[OF grid_stepD[OF s(3)] hist]]
      by (simp_all add: push_scrollback_def Let_def)
    show ?thesis unfolding s(1) using push s(3) a by (simp add: s(2) Let_def)
  qed
  show ?thesis
    using h(5,6) grid_steps[OF assms body] by (simp add: scroll_up_def)
qed

lemma row_inc_scroll_ok:
  assumes "grid_ready g"
  shows "returns (row_inc_scroll n g) (\<lambda>(k, h). grid_step g h \<and> pos_col (gpos h) = pos_col (gpos g))"
proof -
  note h = grid_readyD[OF assms]
  let ?m = "set_row (min (scroll_bottom g) (sat_add (pos_row (gpos g)) n)) g"
  have "grid_step g ?m" by (rule move_row_ok[OF assms]) (use h(6) in auto)
  then have "returns (scroll_up k ?m) (\<lambda>h. grid_step g h \<and> pos_col (gpos h) = pos_col (gpos g))" for k
    by (intro returns_mono[OF scroll_up_ok]) (auto dest: grid_stepD grid_step_trans)
  then show ?thesis
    using h by (auto simp: row_inc_scroll_def clamp_eqs intro!: move_row_ok[OF assms] elim!: returns_mono)
qed

lemma row_dec_scroll_ok:
  assumes "grid_ready g"
  shows "returns (row_dec_scroll 1 g) (grid_step g)"
proof -
  note h = grid_readyD[OF assms]
  have "returns (scroll_down k (set_row i g)) (grid_step g)" if "i < size_rows (gsize g)" for i k
    by (rule returns_mono[OF line_moves_ok(3)[OF grid_stepD[OF move_row_ok[OF assms that]]]
          grid_step_trans[OF move_row_ok[OF assms that]]])
  then show ?thesis
    using h by (auto simp: row_dec_scroll_def sat_sub_def clamp_eqs in_scroll_region_def)
qed

lemma col_wrap_ok:
  assumes "grid_ready g" "w \<le> size_cols (gsize g)"
  shows "returns (col_wrap w wrap g) (\<lambda>h. grid_step g h \<and> pos_col (gpos h) \<le> size_cols (gsize g) - w)"
proof (cases "sat_sub (size_cols (gsize g)) w < pos_col (gpos g)")
  case True
  note h = grid_readyD[OF assms(1)]
  have e: "returns (edit_row (pos_row (gpos k)) (\<lambda>r. Some (row_wrap b r)) k) (grid_step k)"
    if "grid_ready k" for b k
    by (rule edit_row_ok[OF that grid_readyD(2)[OF that]]) simp
  obtain k where k: "edit_row (pos_row (gpos g)) (\<lambda>r. Some (row_wrap wrap r)) g = Some k" "grid_step g k"
    using e[OF assms(1)] by (auto elim: returnsE)
  have c: "grid_step k (set_col 0 k)" by (rule move_col_ok[OF grid_stepD[OF k(2)]]) simp
  obtain n q where q: "row_inc_scroll 1 (set_col 0 k) = Some (n, q)" "grid_step (set_col 0 k) q"
    "pos_col (gpos q) = 0"
    using row_inc_scroll_ok[OF grid_stepD[OF c], of 1] by (auto simp: returns_def)
  have gq: "grid_step g q" using k(2) c q(2) grid_step_trans by blast
  obtain z where z: "edit_row (pos_row (gpos q)) (\<lambda>r. Some (row_wrap False r)) q = Some z" "grid_step q z"
    using e[OF grid_stepD[OF gq]] by (auto elim: returnsE)
  then have "pos_col (gpos z) = 0" using edit_row_pos[OF z(1)] q(3) by simp
  then show ?thesis
    using True k(1) q z gq grid_step_trans[OF gq z(2)] by (auto simp: col_wrap_def Let_def)
qed (use assms grid_step_refl in \<open>auto simp: col_wrap_def sat_sub_def\<close>)

section \<open>Resizing\<close>

lemma resized_rows_ok:
  assumes "list_all (row_ok c) rs"
  shows "list_all (row_ok d) (vec_resize n (row_new d) (map (row_resize d cell_new) rs))"
    "list_all (row_ok d) (vec_resize n (row_new d) (map (row_resize d cell_new \<circ> row_wrap False) rs))"
  using assms by (auto simp: vec_resize_def list_all_iff row_resize_ok[of c] dest!: in_set_takeD)

lemma set_size_rows_ok:
  assumes "grid_ok g" "size_ok sz"
  shows "returns (set_size_rows sz g) (\<lambda>h. gsize h = sz \<and> scrollback_len h = scrollback_len g \<and>
    scrollback h = scrollback g \<and> scrollback_offset h = scrollback_offset g \<and>
    length (grows h) = size_rows sz \<and> list_all (row_ok (size_cols sz)) (grows h))"
proof -
  have one: "Suc 0 \<le> size_rows (gsize g)" "Suc 0 \<le> size_rows sz"
    using assms by (auto simp: grid_ok_def size_ok_def)
  have "list_all (row_ok (size_cols (gsize g))) (grows g)" using assms(1) by (simp add: grid_ok_def)
  note rows = resized_rows_ok[OF this, of "size_cols sz" "size_rows sz"]
  show ?thesis
    using one rows
    by (cases "size_cols sz = size_cols (gsize g)") (simp_all add: set_size_rows_def new_row_def Let_def)
qed

lemma set_size_clamp_ok:
  assumes "size_ok sz" "gsize g = sz"
  shows "returns (set_size_clamp sz g) (\<lambda>h. pos_ok sz (gpos h) \<and> scroll_top h \<le> scroll_bottom h \<and>
    scroll_bottom h < size_rows sz \<and> gsize h = sz \<and> scrollback_len h = scrollback_len g \<and>
    scrollback h = scrollback g \<and> scrollback_offset h = scrollback_offset g \<and> grows h = grows g)"
  using assms by (simp add: set_size_clamp_def clamp_eqs size_ok_def pos_ok_def) linarith

lemma set_size_saved_ok:
  assumes "size_ok (gsize g)"
  shows "returns (set_size_saved g) (\<lambda>h. h = g\<lparr>saved_pos := saved_pos h\<rparr> \<and> pos_ok (gsize g) (saved_pos h))"
  using assms by (auto simp: set_size_saved_def size_ok_def pos_ok_def Let_def)

lemma set_size_ok:
  assumes "grid_ok g" "size_ok sz"
  shows "returns (set_size sz g)
    (\<lambda>h. grid_ready h \<and> gsize h = sz \<and> scrollback_len h = scrollback_len g)"
proof -
  obtain h where h: "set_size_rows sz g = Some h" "gsize h = sz" "scrollback_len h = scrollback_len g"
    "scrollback h = scrollback g" "scrollback_offset h = scrollback_offset g"
    "length (grows h) = size_rows sz" "list_all (row_ok (size_cols sz)) (grows h)"
    using set_size_rows_ok[OF assms] by (auto simp: returns_def)
  obtain k where k: "set_size_clamp sz h = Some k" "pos_ok sz (gpos k)" "scroll_top k \<le> scroll_bottom k"
    "scroll_bottom k < size_rows sz" "gsize k = sz" "scrollback_len k = scrollback_len h"
    "scrollback k = scrollback h" "scrollback_offset k = scrollback_offset h" "grows k = grows h"
    using set_size_clamp_ok[OF assms(2) h(2)] by (auto simp: returns_def)
  obtain p where p: "set_size_saved k = Some (k\<lparr>saved_pos := p\<rparr>)" "pos_ok sz p"
    using set_size_saved_ok[of k] k(5) assms(2) by (auto elim!: returnsE)
  have "grows h \<noteq> []" using h(6) assms(2) by (auto simp: size_ok_def)
  then show ?thesis
    using assms h k p by (auto simp: set_size_def grid_ready_def grid_ok_def)
qed

section \<open>Reading the screen\<close>

lemma visible_rows_ok:
  assumes "grid_ok g"
  shows "returns (visible_rows g) (\<lambda>rs. length rs = length (grows g) \<and> list_all history_ok rs)"
proof -
  have g: "size_ok (gsize g)" "list_all (row_ok (size_cols (gsize g))) (grows g)"
    "list_all history_ok (scrollback g)" "scrollback_offset g \<le> length (scrollback g)"
    using assms by (auto simp: grid_ok_def)
  have "list_all history_ok (grows g)"
    using g(1,2) by (auto simp: list_all_iff size_ok_def row_ok_def history_ok_def)
  then show ?thesis
    using g(3,4) by (auto simp: visible_rows_def list_all_iff dest: in_set_takeD in_set_dropD)
qed

lemma write_rows_ok:
  "list_all history_ok rs \<Longrightarrow> \<exists>t. write_rows cols rs wrapping out = Some t"
proof (induction rs arbitrary: wrapping out)
  case (Cons r rs)
  have r: "row_ok (length (cells r)) r" "length (cells r) < u16_max"
    using Cons.prems by (simp_all add: history_ok_def row_ok_def)
  have "\<not> (0 < length (cells r) \<and> is_wide_continuation (cells r ! 0))"
    using cells_okD(3)[OF row_okD(2)[OF r(1)], of 0] by auto
  from row_write_contents_text_aux[OF r this] show ?case using Cons by simp
qed simp

lemma grid_write_contents_ok: "grid_ok g \<Longrightarrow> \<exists>t. grid_write_contents g out = Some t"
  by (erule visible_rows_ok[THEN returnsE])
    (use write_rows_ok[of _ "size_cols (gsize g)" False out] in \<open>fastforce simp: grid_write_contents_def\<close>)

end
