(* ===== verification/VtScreen.thy ===== *)
theory VtScreen
  imports VtGridInv
begin

text \<open>
  The screen of a terminal: \<open>src/src/vt100/screen.rs\<close>. It holds the main and the alternate
  grid, the drawing attributes and the mode bits; every control function of the terminal is an
  operation here. \<open>on_grid\<close> is \<open>grid_mut()\<close>: it applies an operation to the grid that the mode
  bits select. \<open>width\<close>, the display width of a character, comes from the crate
  \<open>unicode-width\<close> and is a parameter. Parameters of control sequences are lists of lists of
  \<open>u16\<close> values, as \<open>vte::Params\<close> iterates them. Not modelled: the escape-sequence output
  (\<open>*_formatted\<close>, \<open>*_diff\<close>). The callbacks of \<open>src/src/vt100/callbacks.rs\<close> are the unit
  implementation, which does nothing, as in \<open>Parser::new\<close>.
\<close>

definition MODE_APPLICATION_KEYPAD :: byte where "MODE_APPLICATION_KEYPAD = 1"
definition MODE_APPLICATION_CURSOR :: byte where "MODE_APPLICATION_CURSOR = 2"
definition MODE_HIDE_CURSOR :: byte where "MODE_HIDE_CURSOR = 4"
definition MODE_ALTERNATE_SCREEN :: byte where "MODE_ALTERNATE_SCREEN = 8"
definition MODE_BRACKETED_PASTE :: byte where "MODE_BRACKETED_PASTE = 16"

datatype MouseProtocolMode = MouseNone | Press | PressRelease | ButtonMotion | AnyMotion
datatype MouseProtocolEncoding = DefaultEncoding | Utf8Encoding | SgrEncoding

record Screen =
  grid :: Grid
  alternate_grid :: Grid
  attrs :: Attrs
  saved_attrs :: Attrs
  modes :: byte
  mouse_protocol_mode :: MouseProtocolMode
  mouse_protocol_encoding :: MouseProtocolEncoding

definition screen_new :: "Size \<Rightarrow> nat \<Rightarrow> Screen option" where
  "screen_new sz len =
     do { g \<leftarrow> grid_new sz len;
          alternate \<leftarrow> grid_new sz 0;
          Some \<lparr>grid = allocate_rows g, alternate_grid = alternate, attrs = attrs_default,
                saved_attrs = attrs_default, modes = 0, mouse_protocol_mode = MouseNone,
                mouse_protocol_encoding = DefaultEncoding\<rparr> }"

definition screen_set_size :: "nat \<Rightarrow> nat \<Rightarrow> Screen \<Rightarrow> Screen option" where
  "screen_set_size rows cols s =
     do { g \<leftarrow> set_size \<lparr>size_rows = rows, size_cols = cols\<rparr> (grid s);
          h \<leftarrow> set_size \<lparr>size_rows = rows, size_cols = cols\<rparr> (alternate_grid s);
          Some (s\<lparr>grid := g, alternate_grid := h\<rparr>) }"

definition has_mode :: "byte \<Rightarrow> Screen \<Rightarrow> bool" where
  "has_mode m s \<longleftrightarrow> modes s AND m \<noteq> 0"

definition set_mode :: "byte \<Rightarrow> Screen \<Rightarrow> Screen" where
  "set_mode m s = s\<lparr>modes := modes s OR m\<rparr>"

definition clear_mode :: "byte \<Rightarrow> Screen \<Rightarrow> Screen" where
  "clear_mode m s = s\<lparr>modes := modes s AND NOT m\<rparr>"

definition clear_mouse_mode :: "MouseProtocolMode \<Rightarrow> Screen \<Rightarrow> Screen" where
  "clear_mouse_mode m s =
     (if mouse_protocol_mode s = m then s\<lparr>mouse_protocol_mode := MouseNone\<rparr> else s)"

definition clear_mouse_encoding :: "MouseProtocolEncoding \<Rightarrow> Screen \<Rightarrow> Screen" where
  "clear_mouse_encoding e s =
     (if mouse_protocol_encoding s = e then s\<lparr>mouse_protocol_encoding := DefaultEncoding\<rparr> else s)"

definition cur_grid :: "Screen \<Rightarrow> Grid" where
  "cur_grid s = (if has_mode MODE_ALTERNATE_SCREEN s then alternate_grid s else grid s)"

definition on_grid :: "(Grid \<Rightarrow> Grid option) \<Rightarrow> Screen \<Rightarrow> Screen option" where
  "on_grid f s =
     (if has_mode MODE_ALTERNATE_SCREEN s
      then do { g \<leftarrow> f (alternate_grid s); Some (s\<lparr>alternate_grid := g\<rparr>) }
      else do { g \<leftarrow> f (grid s); Some (s\<lparr>grid := g\<rparr>) })"

definition screen_size :: "Screen \<Rightarrow> nat \<times> nat" where
  "screen_size s = (size_rows (gsize (cur_grid s)), size_cols (gsize (cur_grid s)))"

definition screen_set_scrollback :: "nat \<Rightarrow> Screen \<Rightarrow> Screen option" where
  "screen_set_scrollback n s = on_grid (\<lambda>g. Some (set_scrollback n g)) s"

definition screen_contents :: "Screen \<Rightarrow> ustr option" where
  "screen_contents s = grid_write_contents (cur_grid s) []"

definition enter_alternate_grid :: "Screen \<Rightarrow> Screen option" where
  "enter_alternate_grid s =
     do { s \<leftarrow> on_grid (\<lambda>g. Some (set_scrollback 0 g)) s;
          let s = set_mode MODE_ALTERNATE_SCREEN s;
          Some (s\<lparr>alternate_grid := allocate_rows (alternate_grid s)\<rparr>) }"

definition exit_alternate_grid :: "Screen \<Rightarrow> Screen" where
  "exit_alternate_grid s = clear_mode MODE_ALTERNATE_SCREEN s"

definition save_cursor :: "Screen \<Rightarrow> Screen option" where
  "save_cursor s =
     do { s \<leftarrow> on_grid (\<lambda>g. Some (grid_save_cursor g)) s; Some (s\<lparr>saved_attrs := attrs s\<rparr>) }"

definition restore_cursor :: "Screen \<Rightarrow> Screen option" where
  "restore_cursor s =
     do { s \<leftarrow> on_grid (\<lambda>g. Some (grid_restore_cursor g)) s; Some (s\<lparr>attrs := saved_attrs s\<rparr>) }"

section \<open>Selecting text\<close>

definition contents_between :: "nat \<Rightarrow> nat \<Rightarrow> nat \<Rightarrow> nat \<Rightarrow> Screen \<Rightarrow> ustr option" where
  "contents_between start_row start_col end_row end_col s =
     (if start_row < end_row then
        do { let (_, cols) = screen_size s;
             rows \<leftarrow> visible_rows (cur_grid s);
             fold_opt (\<lambda>(i, r) out.
                 if i = start_row then
                   do { n \<leftarrow> sub16 cols start_col;
                        out \<leftarrow> row_write_contents start_col n False r out;
                        Some (if wrapped r then out else out @ [10]) }
                 else if i = end_row then row_write_contents 0 end_col False r out
                 else
                   do { out \<leftarrow> row_write_contents 0 cols False r out;
                        Some (if wrapped r then out else out @ [10]) })
               (take (end_row - start_row + 1) (drop start_row (enumerate 0 rows))) [] }
      else if start_row = end_row then
        (if start_col < end_col then
           do { rows \<leftarrow> visible_rows (cur_grid s);
                case vec_get start_row rows of
                  None \<Rightarrow> Some []
                | Some r \<Rightarrow> row_write_contents start_col (end_col - start_col) False r [] }
         else Some [])
      else Some [])"

section \<open>Writing a character\<close>

text \<open>A combining character goes to the cell before \<open>col\<close>, or to the first half of the wide
  character there.\<close>

definition text_append :: "nat \<Rightarrow> nat \<Rightarrow> nat \<Rightarrow> Grid \<Rightarrow> Grid option" where
  "text_append c row col g =
     do { j \<leftarrow> sub16 col 1;
          prev \<leftarrow> drawing_cell \<lparr>pos_row = row, pos_col = j\<rparr> g;
          j \<leftarrow> (if is_wide_continuation prev then sub16 col 2 else Some j);
          edit_cell \<lparr>pos_row = row, pos_col = j\<rparr> (cell_append c) g }"

definition text_combine :: "nat \<Rightarrow> Pos \<Rightarrow> Size \<Rightarrow> Grid \<Rightarrow> Grid option" where
  "text_combine c p sz g =
     (if 0 < pos_col p then text_append c (pos_row p) (pos_col p) g
      else if 0 < pos_row p then
        do { prev_row \<leftarrow> drawing_row (pos_row p - 1) g;
             if wrapped prev_row then text_append c (pos_row p - 1) (size_cols sz) g else Some g }
      else Some g)"

text \<open>The second half of a wide character, at the cursor.\<close>

definition text_second_half :: "Attrs \<Rightarrow> Size \<Rightarrow> Grid \<Rightarrow> Grid option" where
  "text_second_half a sz g =
     do { let p = gpos g;
          cell \<leftarrow> drawing_cell p g;
          g \<leftarrow> (if is_wide cell then
                  do { j \<leftarrow> add16 (pos_col p) 1;
                       g \<leftarrow> edit_cell (p\<lparr>pos_col := j\<rparr>) (\<lambda>d. Some (cell_clear a d)) g;
                       right \<leftarrow> sub16 (size_cols sz) 1;
                       if j = right then edit_row (pos_row p) (\<lambda>r. Some (row_wrap False r)) g
                       else Some g }
                else Some g);
          g \<leftarrow> edit_cell p (\<lambda>d. Some (set_wide_continuation True (cell_clear attrs_default d))) g;
          Some (col_inc 1 g) }"

definition text_place ::
  "(nat \<Rightarrow> nat option) \<Rightarrow> nat \<Rightarrow> nat \<Rightarrow> Attrs \<Rightarrow> Pos \<Rightarrow> Size \<Rightarrow> Grid \<Rightarrow> Grid option" where
  "text_place width c w a p sz g =
     do { cell \<leftarrow> drawing_cell p g;
          g \<leftarrow> (if is_wide_continuation cell then
                  do { j \<leftarrow> sub16 (pos_col p) 1;
                       edit_cell (p\<lparr>pos_col := j\<rparr>) (\<lambda>d. Some (cell_clear a d)) g }
                else Some g);
          cell \<leftarrow> drawing_cell p g;
          g \<leftarrow> (if is_wide cell then
                  do { j \<leftarrow> add16 (pos_col p) 1;
                       edit_cell (p\<lparr>pos_col := j\<rparr>) (cell_set width 32 a) g }
                else Some g);
          g \<leftarrow> edit_cell p (cell_set width c a) g;
          let g = col_inc 1 g;
          if 1 < w then text_second_half a sz g else Some g }"

definition text_on_grid :: "(nat \<Rightarrow> nat option) \<Rightarrow> nat \<Rightarrow> Attrs \<Rightarrow> Grid \<Rightarrow> Grid option" where
  "text_on_grid width c a g =
     (let p = gpos g; sz = gsize g; w = (case width c of Some w \<Rightarrow> w | None \<Rightarrow> 1)
      in if width c = None \<and> c < 256 then Some g
         else if u16_max < w then None
         else if size_cols sz < w then Some g
         else
           do { left \<leftarrow> sub16 (size_cols sz) w;
                wrap \<leftarrow> (if left < pos_col p then
                          do { right \<leftarrow> sub16 (size_cols sz) 1;
                               last_cell \<leftarrow> drawing_cell \<lparr>pos_row = pos_row p, pos_col = right\<rparr> g;
                               Some (has_contents last_cell \<or> is_wide_continuation last_cell \<or> 1 < w) }
                        else Some False);
                g \<leftarrow> col_wrap w wrap g;
                if w = 0 then text_combine c (gpos g) sz g
                else text_place width c w a (gpos g) sz g })"

definition screen_text :: "(nat \<Rightarrow> nat option) \<Rightarrow> nat \<Rightarrow> Screen \<Rightarrow> Screen option" where
  "screen_text width c s = on_grid (text_on_grid width c (attrs s)) s"

section \<open>Control functions\<close>

definition bs :: "Screen \<Rightarrow> Screen option" where "bs = on_grid (\<lambda>g. Some (col_dec 1 g))"
definition tab :: "Screen \<Rightarrow> Screen option" where "tab = on_grid col_tab"
definition lf :: "Screen \<Rightarrow> Screen option" where
  "lf = on_grid (\<lambda>g. map_option snd (row_inc_scroll 1 g))"
definition cr :: "Screen \<Rightarrow> Screen option" where "cr = on_grid (col_set 0)"
definition ri :: "Screen \<Rightarrow> Screen option" where "ri = on_grid (row_dec_scroll 1)"

definition ris :: "Screen \<Rightarrow> Screen option" where
  "ris s = screen_new (gsize (grid s)) (scrollback_len (grid s))"

definition ich :: "nat \<Rightarrow> Screen \<Rightarrow> Screen option" where "ich n = on_grid (insert_cells n)"
definition cuu :: "nat \<Rightarrow> Screen \<Rightarrow> Screen option" where "cuu n = on_grid (\<lambda>g. Some (row_dec_clamp n g))"
definition cud :: "nat \<Rightarrow> Screen \<Rightarrow> Screen option" where "cud n = on_grid (row_inc_clamp n)"
definition cuf :: "nat \<Rightarrow> Screen \<Rightarrow> Screen option" where "cuf n = on_grid (col_inc_clamp n)"
definition cub :: "nat \<Rightarrow> Screen \<Rightarrow> Screen option" where "cub n = on_grid (\<lambda>g. Some (col_dec n g))"

definition cnl :: "nat \<Rightarrow> Screen \<Rightarrow> Screen option" where
  "cnl n s = do { s \<leftarrow> on_grid (col_set 0) s; on_grid (row_inc_clamp n) s }"

definition cpl :: "nat \<Rightarrow> Screen \<Rightarrow> Screen option" where
  "cpl n s = do { s \<leftarrow> on_grid (col_set 0) s; on_grid (\<lambda>g. Some (row_dec_clamp n g)) s }"

definition cha :: "nat \<Rightarrow> Screen \<Rightarrow> Screen option" where
  "cha col s = do { i \<leftarrow> sub16 col 1; on_grid (col_set i) s }"

definition cup :: "nat \<times> nat \<Rightarrow> Screen \<Rightarrow> Screen option" where
  "cup rc s =
     do { i \<leftarrow> sub16 (fst rc) 1; j \<leftarrow> sub16 (snd rc) 1;
          on_grid (set_pos \<lparr>pos_row = i, pos_col = j\<rparr>) s }"

definition ed :: "nat \<Rightarrow> Screen \<Rightarrow> Screen option" where
  "ed m s =
     (if m = 0 then on_grid (erase_all_forward (attrs s)) s
      else if m = 1 then on_grid (erase_all_backward (attrs s)) s
      else if m = 2 then on_grid (\<lambda>g. Some (erase_all (attrs s) g)) s
      else Some s)"

definition el :: "nat \<Rightarrow> Screen \<Rightarrow> Screen option" where
  "el m s =
     (if m = 0 then on_grid (erase_row_forward (attrs s)) s
      else if m = 1 then on_grid (erase_row_backward (attrs s)) s
      else if m = 2 then on_grid (erase_row (attrs s)) s
      else Some s)"

definition il :: "nat \<Rightarrow> Screen \<Rightarrow> Screen option" where "il n = on_grid (insert_lines n)"
definition dl :: "nat \<Rightarrow> Screen \<Rightarrow> Screen option" where "dl n = on_grid (delete_lines n)"
definition dch :: "nat \<Rightarrow> Screen \<Rightarrow> Screen option" where "dch n = on_grid (delete_cells n)"
definition su :: "nat \<Rightarrow> Screen \<Rightarrow> Screen option" where "su n = on_grid (scroll_up n)"
definition sd :: "nat \<Rightarrow> Screen \<Rightarrow> Screen option" where "sd n = on_grid (scroll_down n)"

definition ech :: "nat \<Rightarrow> Screen \<Rightarrow> Screen option" where
  "ech n s = on_grid (erase_cells n (attrs s)) s"

definition vpa :: "nat \<Rightarrow> Screen \<Rightarrow> Screen option" where
  "vpa row s = do { i \<leftarrow> sub16 row 1; on_grid (row_set i) s }"

definition decstbm :: "nat \<times> nat \<Rightarrow> Screen \<Rightarrow> Screen option" where
  "decstbm tb s =
     do { t \<leftarrow> sub16 (fst tb) 1; b \<leftarrow> sub16 (snd tb) 1; on_grid (set_scroll_region t b) s }"

definition decset_one :: "nat list \<Rightarrow> Screen \<Rightarrow> Screen option" where
  "decset_one param s =
     (if param = [1] then Some (set_mode MODE_APPLICATION_CURSOR s)
      else if param = [6] then on_grid (set_origin_mode True) s
      else if param = [9] then Some (s\<lparr>mouse_protocol_mode := Press\<rparr>)
      else if param = [25] then Some (clear_mode MODE_HIDE_CURSOR s)
      else if param = [47] then enter_alternate_grid s
      else if param = [1000] then Some (s\<lparr>mouse_protocol_mode := PressRelease\<rparr>)
      else if param = [1002] then Some (s\<lparr>mouse_protocol_mode := ButtonMotion\<rparr>)
      else if param = [1003] then Some (s\<lparr>mouse_protocol_mode := AnyMotion\<rparr>)
      else if param = [1005] then Some (s\<lparr>mouse_protocol_encoding := Utf8Encoding\<rparr>)
      else if param = [1006] then Some (s\<lparr>mouse_protocol_encoding := SgrEncoding\<rparr>)
      else if param = [1049] then
        do { s \<leftarrow> save_cursor s;
             g \<leftarrow> grid_clear (alternate_grid s);
             enter_alternate_grid (s\<lparr>alternate_grid := g\<rparr>) }
      else if param = [2004] then Some (set_mode MODE_BRACKETED_PASTE s)
      else Some s)"

definition decset :: "nat list list \<Rightarrow> Screen \<Rightarrow> Screen option" where
  "decset params s = fold_opt decset_one params s"

definition decrst_one :: "nat list \<Rightarrow> Screen \<Rightarrow> Screen option" where
  "decrst_one param s =
     (if param = [1] then Some (clear_mode MODE_APPLICATION_CURSOR s)
      else if param = [6] then on_grid (set_origin_mode False) s
      else if param = [9] then Some (clear_mouse_mode Press s)
      else if param = [25] then Some (set_mode MODE_HIDE_CURSOR s)
      else if param = [47] then Some (exit_alternate_grid s)
      else if param = [1000] then Some (clear_mouse_mode PressRelease s)
      else if param = [1002] then Some (clear_mouse_mode ButtonMotion s)
      else if param = [1003] then Some (clear_mouse_mode AnyMotion s)
      else if param = [1005] then Some (clear_mouse_encoding Utf8Encoding s)
      else if param = [1006] then Some (clear_mouse_encoding SgrEncoding s)
      else if param = [1049] then restore_cursor (exit_alternate_grid s)
      else if param = [2004] then Some (clear_mode MODE_BRACKETED_PASTE s)
      else Some s)"

definition decrst :: "nat list list \<Rightarrow> Screen \<Rightarrow> Screen option" where
  "decrst params s = fold_opt decrst_one params s"

section \<open>Graphic rendition\<close>

definition u16_to_u8 :: "nat \<Rightarrow> byte option" where
  "u16_to_u8 i = (if 255 < i then None else Some (of_nat i))"

definition idx_color :: "nat \<Rightarrow> nat \<Rightarrow> Color option" where
  "idx_color n base = map_option (\<lambda>b. Idx (b - of_nat base)) (u16_to_u8 n)"

definition rgb_color :: "nat \<Rightarrow> nat \<Rightarrow> nat \<Rightarrow> Color option" where
  "rgb_color r g b =
     (case (u16_to_u8 r, u16_to_u8 g, u16_to_u8 b) of
        (Some r, Some g, Some b) \<Rightarrow> Some (Rgb r g b) | _ \<Rightarrow> None)"

text \<open>The colour that follows a lone 38 or 48, and the parameters after it; \<^const>\<open>None\<close> where
  the source returns from \<open>sgr\<close>.\<close>

definition next_u8 :: "nat list list \<Rightarrow> (byte \<times> nat list list) option" where
  "next_u8 ps =
     (case ps of
        [] \<Rightarrow> None
      | p # rest \<Rightarrow> (case p of [n] \<Rightarrow> map_option (\<lambda>b. (b, rest)) (u16_to_u8 n) | _ \<Rightarrow> None))"

definition extended_color :: "nat list list \<Rightarrow> (Color \<times> nat list list) option" where
  "extended_color ps =
     (case ps of
        [] \<Rightarrow> None
      | p # rest \<Rightarrow>
          if p = [2] then
            do { (r, rest) \<leftarrow> next_u8 rest;
                 (g, rest) \<leftarrow> next_u8 rest;
                 (b, rest) \<leftarrow> next_u8 rest;
                 Some (Rgb r g b, rest) }
          else if p = [5] then do { (i, rest) \<leftarrow> next_u8 rest; Some (Idx i, rest) }
          else None)"

lemma next_u8_shorter: "next_u8 ps = Some (b, rest) \<Longrightarrow> length rest < length ps"
  by (auto simp: next_u8_def split: list.splits)

lemma extended_color_shorter [termination_simp]:
  "extended_color ps = Some (c, rest) \<Longrightarrow> length rest < Suc (length ps)"
  by (auto simp: extended_color_def split: list.splits if_splits bind_splits
      dest!: next_u8_shorter)

text \<open>One parameter that needs no further ones: the attributes after it, or \<^const>\<open>None\<close> where
  the source returns. A parameter that is not handled leaves them as they are.\<close>

definition sgr_one :: "nat list \<Rightarrow> Attrs \<Rightarrow> Attrs option" where
  "sgr_one p a =
     (if p = [0] then Some attrs_default
      else if p = [1] then Some (set_bold a)
      else if p = [2] then Some (set_dim a)
      else if p = [3] then Some (set_italic True a)
      else if p = [4] then Some (set_underline True a)
      else if p = [7] then Some (set_inverse True a)
      else if p = [22] then Some (set_normal_intensity a)
      else if p = [23] then Some (set_italic False a)
      else if p = [24] then Some (set_underline False a)
      else if p = [27] then Some (set_inverse False a)
      else
        (case p of
           [n] \<Rightarrow>
             if 30 \<le> n \<and> n \<le> 37 then map_option (\<lambda>c. a\<lparr>fgcolor := c\<rparr>) (idx_color n 30)
             else if n = 39 then Some (a\<lparr>fgcolor := DefaultColor\<rparr>)
             else if 40 \<le> n \<and> n \<le> 47 then map_option (\<lambda>c. a\<lparr>bgcolor := c\<rparr>) (idx_color n 40)
             else if n = 49 then Some (a\<lparr>bgcolor := DefaultColor\<rparr>)
             else if 90 \<le> n \<and> n \<le> 97 then map_option (\<lambda>c. a\<lparr>fgcolor := c\<rparr>) (idx_color n 82)
             else if 100 \<le> n \<and> n \<le> 107 then map_option (\<lambda>c. a\<lparr>bgcolor := c\<rparr>) (idx_color n 92)
             else Some a
         | [k, m, i] \<Rightarrow>
             if k = 38 \<and> m = 5 then map_option (\<lambda>c. a\<lparr>fgcolor := c\<rparr>) (idx_color i 0)
             else if k = 48 \<and> m = 5 then map_option (\<lambda>c. a\<lparr>bgcolor := c\<rparr>) (idx_color i 0)
             else Some a
         | [k, m, r, g, b] \<Rightarrow>
             if k = 38 \<and> m = 2 then map_option (\<lambda>c. a\<lparr>fgcolor := c\<rparr>) (rgb_color r g b)
             else if k = 48 \<and> m = 2 then map_option (\<lambda>c. a\<lparr>bgcolor := c\<rparr>) (rgb_color r g b)
             else Some a
         | _ \<Rightarrow> Some a))"

fun sgr_loop :: "nat list list \<Rightarrow> Attrs \<Rightarrow> Attrs" where
  "sgr_loop [] a = a"
| "sgr_loop (p # ps) a =
     (if p = [38] then
        (case extended_color ps of None \<Rightarrow> a | Some (c, rest) \<Rightarrow> sgr_loop rest (a\<lparr>fgcolor := c\<rparr>))
      else if p = [48] then
        (case extended_color ps of None \<Rightarrow> a | Some (c, rest) \<Rightarrow> sgr_loop rest (a\<lparr>bgcolor := c\<rparr>))
      else (case sgr_one p a of None \<Rightarrow> a | Some b \<Rightarrow> sgr_loop ps b))"

definition sgr :: "nat list list \<Rightarrow> Screen \<Rightarrow> Screen" where
  "sgr params s =
     (if params = [] then s\<lparr>attrs := attrs_default\<rparr> else s\<lparr>attrs := sgr_loop params (attrs s)\<rparr>)"

end
