(* ===== verification/VtText.thy ===== *)
theory VtText
  imports VtScreen
begin

text \<open>
  Writing a character never panics and keeps the halves of wide characters together: the proof
  for \<open>Screen::text\<close> (\<open>src/src/vt100/screen.rs\<close>), the longest operation of the terminal. The
  edits it makes are followed as updates of the list of cells of the cursor's row.
\<close>

text \<open>What the code relies on of the crate \<open>unicode-width\<close>: a width is at most two, and a space
  is one column wide.\<close>

definition char_width_ok :: "(nat \<Rightarrow> nat option) \<Rightarrow> bool" where
  "char_width_ok width \<longleftrightarrow> (\<forall>c w. width c = Some w \<longrightarrow> w \<le> 2) \<and> width 32 = Some 1"

section \<open>Rows of cells\<close>

definition plain :: "Cell \<Rightarrow> bool" where
  "plain c \<longleftrightarrow> cell_ok c \<and> \<not> is_wide c \<and> \<not> is_wide_continuation c"

text \<open>Overwriting the cell at \<open>i\<close> with \<open>p\<close>, the other half of the character there with \<open>e\<close> (the
  first half) or \<open>f\<close> (the second).\<close>

definition overwrite :: "Cell \<Rightarrow> Cell \<Rightarrow> Cell \<Rightarrow> nat \<Rightarrow> Cell list \<Rightarrow> Cell list" where
  "overwrite e f p i cs =
     (let cs1 = (if is_wide_continuation (cs ! i) then cs[i - 1 := e] else cs);
          cs2 = (if is_wide (cs ! i) then cs1[Suc i := f] else cs1)
      in cs2[i := p])"

lemma length_overwrite [simp]: "length (overwrite e f p i cs) = length cs"
  by (simp add: overwrite_def Let_def)

lemma overwrite_ok:
  assumes "cells_ok cs" "i < length cs" "plain e" "plain f" "plain p"
  shows "cells_ok (overwrite e f p i cs)"
proof -
  note d = cells_okD[OF assms(1,2)]
  show ?thesis
    unfolding cells_ok_def
  proof (rule packed.tiled_blank_char[OF assms(1)[unfolded cells_ok_def] assms(2)])
    show "list_all cell_ok (overwrite e f p i cs)"
      using assms d by (auto simp: overwrite_def Let_def list_all_length nth_list_update
          cells_okD(1) plain_def)
  qed (use assms d in \<open>auto simp: overwrite_def Let_def nth_list_update char_at_def plain_def split: if_splits\<close>)
qed

text \<open>Writing a wide character at \<open>i\<close> and \<open>i + 1\<close>.\<close>

lemma overwrite_wide_ok:
  assumes "cells_ok cs" "Suc i < length cs" "plain e" "plain f" "plain h"
    "cell_ok w" "is_wide w" "\<not> is_wide_continuation w"
    "cell_ok m" "\<not> is_wide m" "is_wide_continuation m"
  defines "cs1 \<equiv> overwrite e f w i cs"
  shows "cells_ok ((if is_wide (cs1 ! Suc i) then cs1[Suc (Suc i) := h] else cs1)[Suc i := m])"
    "is_wide (cs1 ! Suc i) \<Longrightarrow> Suc (Suc i) < length cs"
proof -
  let ?p = "cell_new"
  let ?ds = "overwrite e f ?p i cs"
  have p: "plain ?p" by (simp add: plain_def)
  have ds: "cells_ok ?ds" using assms by (intro overwrite_ok) (auto simp: p)
  have cs1: "cs1 = ?ds[i := w]" by (simp add: cs1_def overwrite_def Let_def)
  have i: "?ds ! i = ?p" using assms(2) by (simp add: overwrite_def Let_def)
  have same: "cs1 ! Suc i = ?ds ! Suc i" by (simp add: cs1)
  have cont: "\<not> is_wide_continuation (?ds ! Suc i)"
    using cells_okD(3)[OF ds, of "Suc i"] assms(2) by (auto simp: i)
  let ?es = "overwrite ?p h ?p (Suc i) ?ds"
  have es: "cells_ok ?es" using assms(2,5) p by (intro overwrite_ok[OF ds]) auto
  have ei: "?es ! i = ?p" "?es ! Suc i = ?p"
    using assms(2) i cont by (auto simp: overwrite_def Let_def nth_list_update)
  have "cells_ok (?es[i := w, Suc i := m])"
    unfolding cells_ok_def
    by (rule packed.tiled_write_wide[OF es[unfolded cells_ok_def]]) (use assms ei in auto)
  moreover have "?es[i := w, Suc i := m] =
      (if is_wide (cs1 ! Suc i) then cs1[Suc (Suc i) := h] else cs1)[Suc i := m]"
    unfolding same unfolding cs1 using cont
    by (auto simp: overwrite_def[of _ _ _ "Suc i"] Let_def list_update_swap)
  ultimately show "cells_ok ((if is_wide (cs1 ! Suc i) then cs1[Suc (Suc i) := h] else cs1)[Suc i := m])"
    by simp
  show "is_wide (cs1 ! Suc i) \<Longrightarrow> Suc (Suc i) < length cs"
    using cells_okD(2)[OF ds, of "Suc i"] assms(2) by (simp add: same)
qed

lemma plain_clear: "cell_ok c \<Longrightarrow> plain (cell_clear a c)"
  by (simp add: plain_def)

lemma cell_set_plain:
  assumes "cell_ok c" "scalar ch" "(case width ch of Some w \<Rightarrow> w | None \<Rightarrow> 1) \<le> 1"
  shows "\<exists>d. cell_set width ch a c = Some d \<and> plain d \<and> cell_contents d = Some [ch] \<and>
    has_contents d \<and> cell_attrs d = a"
  using cell_set_ok[of c ch width a] assms by (auto simp: plain_def cell_ok_def)

section \<open>Edits of the cursor's row\<close>

definition put_cells :: "nat \<Rightarrow> Cell list \<Rightarrow> Grid \<Rightarrow> Grid" where
  "put_cells i cs g = g\<lparr>grows := (grows g)[i := (grows g ! i)\<lparr>cells := cs\<rparr>]\<rparr>"

lemma put_cells_simps [simp]:
  "gsize (put_cells i cs g) = gsize g" "gpos (put_cells i cs g) = gpos g"
  "length (grows (put_cells i cs g)) = length (grows g)"
  "i < length (grows g) \<Longrightarrow> grows (put_cells i cs g) ! i = (grows g ! i)\<lparr>cells := cs\<rparr>"
  "i < length (grows g) \<Longrightarrow> put_cells i ds (put_cells i cs g) = put_cells i ds g"
  "put_cells i cs (set_col j g) = set_col j (put_cells i cs g)"
  by (simp_all add: put_cells_def set_col_def)

lemma put_cells_same: "put_cells i (cells (grows g ! i)) g = g"
  by (simp add: put_cells_def)

lemma put_cells_step:
  assumes "grid_ready g" "cells_ok cs" "length cs = size_cols (gsize g)"
  shows "grid_step g (put_cells i cs g)"
proof -
  have "list_all (row_ok (size_cols (gsize g))) ((grows g)[i := (grows g ! i)\<lparr>cells := cs\<rparr>])"
    using grid_readyD(11)[OF assms(1)] assms(2,3)
    by (auto simp: list_all_length row_ok_def) (metis Row.select_convs(1) Row.surjective Row.update_convs(1)
        nth_list_update_eq nth_list_update_neq)+
  then show ?thesis
    unfolding put_cells_def
    by (rule set_rows_ok[OF assms(1), rotated]) (simp add: grid_readyD(4)[OF assms(1)])
qed

lemma drawing_cell_at:
  "i < length (grows g) \<Longrightarrow> j < length (cells (grows g ! i)) \<Longrightarrow>
     drawing_cell \<lparr>pos_row = i, pos_col = j\<rparr> g = Some (cells (grows g ! i) ! j)"
  by (simp add: drawing_cell_def drawing_row_def row_get_def)

lemma edit_cell_at:
  "i < length (grows g) \<Longrightarrow> j < length (cells (grows g ! i)) \<Longrightarrow>
     edit_cell \<lparr>pos_row = i, pos_col = j\<rparr> f g =
       map_option (\<lambda>d. put_cells i ((cells (grows g ! i))[j := d]) g) (f (cells (grows g ! i) ! j))"
  by (cases "f (cells (grows g ! i) ! j)")
    (simp_all add: edit_cell_def edit_row_def drawing_row_def row_edit_def row_get_def put_cells_def)

definition put_wrap :: "nat \<Rightarrow> bool \<Rightarrow> Grid \<Rightarrow> Grid" where
  "put_wrap i b g = g\<lparr>grows := (grows g)[i := row_wrap b (grows g ! i)]\<rparr>"

lemma put_wrap_simps [simp]:
  "gsize (put_wrap i b g) = gsize g" "gpos (put_wrap i b g) = gpos g"
  "length (grows (put_wrap i b g)) = length (grows g)"
  "i < length (grows g) \<Longrightarrow> cells (grows (put_wrap i b g) ! i) = cells (grows g ! i)"
  "put_wrap i b (set_col j g) = set_col j (put_wrap i b g)"
  "i < length (grows g) \<Longrightarrow> put_cells i cs (put_wrap i b g) = put_wrap i b (put_cells i cs g)"
  by (simp_all add: put_wrap_def put_cells_def set_col_def row_wrap_def) (cases "grows g ! i"; simp)

lemma edit_wrap_at:
  "i < length (grows g) \<Longrightarrow> edit_row i (\<lambda>r. Some (row_wrap b r)) g = Some (put_wrap i b g)"
  by (simp add: edit_row_def drawing_row_def put_wrap_def)

lemma put_wrap_step:
  assumes "grid_ready g" "i < size_rows (gsize g)"
  shows "grid_step g (put_wrap i b g)"
proof -
  have "returns (edit_row i (\<lambda>r. Some (row_wrap b r)) g) (grid_step g)"
    by (rule edit_row_ok[OF assms]) simp
  then show ?thesis using assms(2) grid_readyD(4)[OF assms(1)] by (simp add: edit_wrap_at)
qed

lemma col_inc_step:
  "grid_ready g \<Longrightarrow> pos_col (gpos g) < size_cols (gsize g) \<Longrightarrow>
     grid_step g (col_inc 1 g) \<and> pos_col (gpos (col_inc 1 g)) = Suc (pos_col (gpos g))"
  using grid_readyD(10)[of g] by (auto simp: col_inc_def sat_add_def intro: move_col_ok)

section \<open>Placing a character\<close>

lemma place_first:
  assumes "grid_ready g" "char_width_ok width" "scalar c" "pos_col (gpos g) < size_cols (gsize g)"
    "w = (case width c of Some w \<Rightarrow> w | None \<Rightarrow> 1)"
  defines "i \<equiv> pos_row (gpos g)" and "j \<equiv> pos_col (gpos g)"
  shows "\<exists>e f d. plain e \<and> plain f \<and> cell_ok d \<and> cell_contents d = Some [c] \<and> cell_attrs d = a \<and>
    \<not> is_wide_continuation d \<and> is_wide d = (1 < w) \<and>
    text_place width c w a (gpos g) sz g =
      (let h = col_inc 1 (put_cells i (overwrite e f d j (cells (grows g ! i))) g)
       in if 1 < w then text_second_half a sz h else Some h)"
proof -
  note r = grid_readyD[OF assms(1)]
  let ?cs = "cells (grows g ! i)"
  have row: "row_ok (size_cols (gsize g)) (grows g ! i)" using r(2,12) by (simp add: i_def)
  then have cs: "cells_ok ?cs" "length ?cs = size_cols (gsize g)" by (simp_all add: row_ok_def)
  have i: "i < length (grows g)" using r(2,4) by (simp add: i_def)
  have j: "j < length ?cs" using cs(2) assms(4) by (simp add: j_def)
  have p: "gpos g = \<lparr>pos_row = i, pos_col = j\<rparr>" by (simp add: i_def j_def)
  have j16: "j + 1 \<le> u16_max" using r(10) assms(4) by (simp add: j_def)
  note d = cells_okD[OF cs(1) j]
  have bytes: "length (cell_bytes (?cs ! j)) = CONTENT_BYTES" using d(1) by (simp add: cell_ok_def)
  obtain n where n: "cell_set width c a (?cs ! j) = Some n" "cell_ok n" "cell_contents n = Some [c]"
    "cell_attrs n = a" "\<not> is_wide_continuation n" "is_wide n = (1 < w)"
    using cell_set_ok[OF bytes assms(3), of width a] assms(5) by auto
  consider "is_wide_continuation (?cs ! j)" "0 < j" "\<not> is_wide (?cs ! j)"
    | "is_wide (?cs ! j)" "\<not> is_wide_continuation (?cs ! j)" "Suc j < length ?cs"
    | "\<not> is_wide_continuation (?cs ! j)" "\<not> is_wide (?cs ! j)"
    using d(2,3) by blast
  then show ?thesis
  proof cases
    case 1
    let ?e = "cell_clear a (?cs ! (j - 1))"
    have "plain ?e" by (rule plain_clear) (use 1 j cs in \<open>auto intro: cells_okD(1)\<close>)
    then show ?thesis
      using 1 i j n plain_clear[of cell_new a]
      by (intro exI[of _ ?e] exI[of _ "cell_clear a cell_new"] exI[of _ n])
        (simp add: p text_place_def drawing_cell_at edit_cell_at overwrite_def Let_def)
  next
    case 2
    have "cell_ok (?cs ! Suc j)" using 2 cs by (auto intro: cells_okD(1))
    then obtain f where f: "cell_set width 32 a (?cs ! Suc j) = Some f" "plain f"
      using cell_set_plain[of "?cs ! Suc j" 32 width a] assms(2)
      by (auto simp: char_width_ok_def scalar_def)
    then show ?thesis
      using 2 i j n j16 plain_clear[of cell_new a]
      by (intro exI[of _ "cell_clear a cell_new"] exI[of _ f] exI[of _ n])
        (simp add: p text_place_def drawing_cell_at edit_cell_at overwrite_def Let_def)
  next
    case 3
    then show ?thesis
      using i j n plain_clear[of cell_new a]
      by (intro exI[of _ "cell_clear a cell_new"] exI[of _ n])
        (simp add: p text_place_def drawing_cell_at edit_cell_at overwrite_def Let_def)
  qed
qed

lemma second_half:
  assumes "grid_ready g" "i = pos_row (gpos g)" "Suc (pos_col (gpos g)) < size_cols (gsize g)"
    "j = Suc (pos_col (gpos g))" "length cs = size_cols (gsize g)" "list_all cell_ok cs"
    "is_wide (cs ! j) \<Longrightarrow> Suc j < length cs"
  shows "\<exists>b e m. plain e \<and> cell_ok m \<and> \<not> is_wide m \<and> is_wide_continuation m \<and>
    text_second_half a (gsize g) (col_inc 1 (put_cells i cs g)) =
      Some (set_col (Suc j) (let h = put_cells i ((if is_wide (cs ! j) then cs[Suc j := e] else cs)[j := m]) g
        in if b then put_wrap i False h else h))"
proof -
  note r = grid_readyD[OF assms(1)]
  have i: "i < length (grows g)" using r(2,4) assms(2) by simp
  have j: "j < length cs" using assms(3-5) by simp
  let ?g = "set_col j (put_cells i cs g)"
  have inc: "col_inc 1 (put_cells i cs g) = ?g" "\<And>k. k \<le> max_cols \<Longrightarrow> sat_add k 1 = Suc k"
    using r(3,10) assms(4) by (simp_all add: col_inc_def sat_add_def)
  have p: "gpos ?g = \<lparr>pos_row = i, pos_col = j\<rparr>"
    using assms(2) by (simp add: set_col_def)
  have c: "cells (grows ?g ! i) = cs" using i by simp
  have j16: "j \<le> max_cols" "1 \<le> size_cols (gsize g)" using r(8,10) assms(3,4) by simp_all
  have ok: "cell_ok (cs ! k)" if "k < length cs" for k using assms(6) that by (simp add: list_all_length)
  let ?m = "\<lambda>x. set_wide_continuation True (cell_clear attrs_default x)"
  have m: "cell_ok (?m (cs ! j)) \<and> \<not> is_wide (?m (cs ! j)) \<and> is_wide_continuation (?m (cs ! j))"
    using ok[OF j] by (simp add: mark_continuation_ok)
  show ?thesis
  proof (cases "is_wide (cs ! j)")
    case False
    show ?thesis
      unfolding text_second_half_def inc(1) Let_def p
      using False i j c m j16 plain_clear[of cell_new a]
      by (intro exI[of _ False] exI[of _ "cell_clear a cell_new"] exI[of _ "?m (cs ! j)"])
        (simp add: drawing_cell_at edit_cell_at col_inc_def inc(2)[unfolded One_nat_def])
  next
    case True
    have k: "Suc j < length cs" using assms(7) True .
    have "plain (cell_clear a (cs ! Suc j))" using ok[OF k] by (rule plain_clear)
    then show ?thesis
      unfolding text_second_half_def inc(1) Let_def p
      using True i j k c m j16
      by (intro exI[of _ "Suc j = size_cols (gsize g) - 1"] exI[of _ "cell_clear a (cs ! Suc j)"]
          exI[of _ "?m (cs ! j)"])
        (simp add: drawing_cell_at edit_cell_at edit_wrap_at col_inc_def inc(2)[unfolded One_nat_def])
  qed
qed

lemma text_place_ok:
  assumes "grid_ready g" "char_width_ok width" "scalar c" "w \<noteq> 0"
    "w = (case width c of Some w \<Rightarrow> w | None \<Rightarrow> 1)" "pos_col (gpos g) \<le> size_cols (gsize g) - w"
    "w \<le> size_cols (gsize g)"
  shows "returns (text_place width c w a (gpos g) (gsize g) g) (grid_step g)"
proof -
  note r = grid_readyD[OF assms(1)]
  let ?i = "pos_row (gpos g)" and ?j = "pos_col (gpos g)"
  let ?cs = "cells (grows g ! ?i)"
  have cs: "cells_ok ?cs" "length ?cs = size_cols (gsize g)"
    using r(12)[OF r(2)] by (simp_all add: row_ok_def)
  have j: "?j < size_cols (gsize g)" using assms(4,6,7) by linarith
  obtain e f d where d: "plain e" "plain f" "cell_ok d" "\<not> is_wide_continuation d" "is_wide d = (1 < w)"
    "text_place width c w a (gpos g) (gsize g) g =
      (let h = col_inc 1 (put_cells ?i (overwrite e f d ?j ?cs) g)
       in if 1 < w then text_second_half a (gsize g) h else Some h)"
    using place_first[OF assms(1-3) j assms(5), of a "gsize g"] by blast
  show ?thesis
  proof (cases "1 < w")
    case False
    have "cells_ok (overwrite e f d ?j ?cs)"
      using cs j d False by (intro overwrite_ok) (auto simp: plain_def)
    then have s: "grid_step g (put_cells ?i (overwrite e f d ?j ?cs) g)"
      using put_cells_step[OF assms(1)] cs by simp
    have "grid_step g (col_inc 1 (put_cells ?i (overwrite e f d ?j ?cs) g))"
      by (rule grid_step_trans[OF s]) (use col_inc_step[OF grid_stepD[OF s]] j in simp)
    then show ?thesis using d(6) False by simp
  next
    case True
    have "w \<le> 2" using assms(2,5) by (cases "width c") (auto simp: char_width_ok_def)
    then have w2: "w = 2" using True by linarith
    have j2: "Suc ?j < size_cols (gsize g)" using assms(6,7) w2 by linarith
    let ?cs1 = "overwrite e f d ?j ?cs"
    have wide: "is_wide d" using d(5) True by simp
    note ow = overwrite_wide_ok[OF cs(1) _ d(1,2) _ d(3) wide d(4), unfolded cs(2), OF j2]
    have next_wide: "Suc (Suc ?j) < size_cols (gsize g)" if "is_wide (?cs1 ! Suc ?j)"
      by (rule ow(2)[OF _ _ _ _ that, where h = cell_new and m = "set_wide_continuation True cell_new"])
        (simp_all add: plain_def mark_continuation_ok)
    have "list_all cell_ok ?cs1"
    proof -
      have "cells_ok (overwrite e f cell_new ?j ?cs)"
        using cs j d by (intro overwrite_ok) (auto simp: plain_def)
      moreover have "?cs1 = (overwrite e f cell_new ?j ?cs)[?j := d]"
        by (simp add: overwrite_def Let_def)
      ultimately show ?thesis using d(3)
        by (auto simp: cells_ok_def tiled_def list_all_iff dest!: set_update_subset_insert[THEN subsetD])
    qed
    then obtain b h m where m: "plain h" "cell_ok m" "\<not> is_wide m" "is_wide_continuation m"
      "text_second_half a (gsize g) (col_inc 1 (put_cells ?i ?cs1 g)) =
        Some (set_col (Suc (Suc ?j)) (let k = put_cells ?i
            ((if is_wide (?cs1 ! Suc ?j) then ?cs1[Suc (Suc ?j) := h] else ?cs1)[Suc ?j := m]) g
          in if b then put_wrap ?i False k else k))"
      using second_half[OF assms(1) refl j2 refl _ _, of ?cs1 a] next_wide cs(2) by auto
    let ?ds = "(if is_wide (?cs1 ! Suc ?j) then ?cs1[Suc (Suc ?j) := h] else ?cs1)[Suc ?j := m]"
    have "cells_ok ?ds" by (rule ow(1)[OF m(1-4)])
    then have s: "grid_step g (put_cells ?i ?ds g)"
      using put_cells_step[OF assms(1)] cs(2) by simp
    have s': "grid_step g (let k = put_cells ?i ?ds g in if b then put_wrap ?i False k else k)"
      using s grid_step_trans[OF s put_wrap_step[OF grid_stepD[OF s]]] r(2) by (simp add: Let_def)
    have "grid_step g (set_col (Suc (Suc ?j)) (let k = put_cells ?i ?ds g in if b then put_wrap ?i False k else k))"
      by (rule grid_step_trans[OF s' move_col_ok[OF grid_stepD[OF s']]])
        (use j2 in \<open>simp add: Let_def\<close>)
    then show ?thesis using d(6) True m(5) by simp
  qed
qed

section \<open>Combining characters\<close>

lemma same_halves_ok:
  assumes "cells_ok cs" "j < length cs" "cell_ok d" "is_wide d = is_wide (cs ! j)"
    "is_wide_continuation d = is_wide_continuation (cs ! j)"
  shows "cells_ok (cs[j := d])"
  unfolding cells_ok_def
  by (rule packed.tiled_blank[OF assms(1)[unfolded cells_ok_def], where S = "{}"])
    (use assms in \<open>auto simp: nth_list_update cells_ok_def tiled_def list_all_length\<close>)

lemma text_append_ok:
  assumes "grid_ready g" "i < size_rows (gsize g)" "0 < col" "col \<le> size_cols (gsize g)" "scalar c"
  shows "returns (text_append c i col g) (grid_step g)"
proof -
  note r = grid_readyD[OF assms(1)]
  let ?cs = "cells (grows g ! i)"
  have cs: "cells_ok ?cs" "length ?cs = size_cols (gsize g)"
    using r(12)[OF assms(2)] by (simp_all add: row_ok_def)
  have i: "i < length (grows g)" using assms(2) r(4) by simp
  define j where "j = (if is_wide_continuation (?cs ! (col - 1)) then col - 2 else col - 1)"
  note prev = cells_okD[OF cs(1), of "col - 1"]
  have j: "j < length ?cs" "\<not> is_wide_continuation (?cs ! j)"
    "is_wide_continuation (?cs ! (col - 1)) \<Longrightarrow> 2 \<le> col"
  proof -
    show two: "2 \<le> col" if "is_wide_continuation (?cs ! (col - 1))"
      using prev(3) that cs(2) assms(3,4) by (cases col) auto
    show "j < length ?cs" using assms(3,4) cs(2) by (auto simp: j_def)
    then show "\<not> is_wide_continuation (?cs ! j)"
      using prev(3) cells_okD(3)[OF cs(1), of j] cs(2) assms(3,4) two
      by (auto simp: j_def numeral_2_eq_2 split: if_splits)
  qed
  obtain d where d: "cell_append c (?cs ! j) = Some d" "cell_ok d" "is_wide d = is_wide (?cs ! j)"
    "\<not> is_wide_continuation d"
    using cell_append_ok[OF cells_okD(1)[OF cs(1) j(1)] assms(5) j(2)] by blast
  have "cells_ok (?cs[j := d])" by (rule same_halves_ok) (use cs j d in auto)
  then have "grid_step g (put_cells i (?cs[j := d]) g)"
    using put_cells_step[OF assms(1)] cs(2) by simp
  moreover have "text_append c i col g = Some (put_cells i (?cs[j := d]) g)"
    using assms(3,4) cs(2) i j d(1)
    by (auto simp: text_append_def drawing_cell_at edit_cell_at j_def)
  ultimately show ?thesis by simp
qed

lemma text_combine_ok:
  assumes "grid_ready g" "scalar c"
  shows "returns (text_combine c (gpos g) (gsize g) g) (grid_step g)"
  using grid_readyD[OF assms(1)] assms text_append_ok[OF assms(1)] grid_step_refl[OF assms(1)]
  by (auto simp: text_combine_def drawing_row_def)

section \<open>The whole operation\<close>

lemma text_on_grid_ok:
  assumes "grid_ready g" "char_width_ok width" "scalar c"
  shows "returns (text_on_grid width c a g) (grid_step g)"
proof -
  note r = grid_readyD[OF assms(1)]
  let ?w = "case width c of Some w \<Rightarrow> w | None \<Rightarrow> 1"
  have w: "?w \<le> 2" using assms(2) by (cases "width c") (auto simp: char_width_ok_def)
  have last_cell: "drawing_cell \<lparr>pos_row = pos_row (gpos g), pos_col = size_cols (gsize g) - 1\<rparr> g \<noteq> None"
    using r(2,4,8) r(12)[OF r(2)] by (subst drawing_cell_at) (auto simp: row_ok_def)
  show ?thesis
  proof (cases "(width c = None \<and> c < 256) \<or> size_cols (gsize g) < ?w")
    case True
    then show ?thesis using w grid_step_refl[OF assms(1)] by (auto simp: text_on_grid_def Let_def)
  next
    case False
    then have fits: "?w \<le> size_cols (gsize g)" by simp
    have body: "returns (do { g \<leftarrow> col_wrap ?w wrap g;
        if ?w = 0 then text_combine c (gpos g) (gsize g0) g
        else text_place width c ?w a (gpos g) (gsize g0) g }) (grid_step g)"
      if "gsize g0 = gsize g" for wrap g0
      unfolding returns_simps(3)
    proof (rule returns_mono[OF col_wrap_ok[OF assms(1) fits, of wrap]])
      fix h assume h: "grid_step g h \<and> pos_col (gpos h) \<le> size_cols (gsize g) - ?w"
      then have ready: "grid_ready h" and sz: "gsize h = gsize g" by (simp_all add: grid_step_def)
      have "returns (if ?w = 0 then text_combine c (gpos h) (gsize h) h
        else text_place width c ?w a (gpos h) (gsize h) h) (grid_step h)"
        using text_combine_ok[OF ready assms(3)]
          text_place_ok[OF ready assms(2,3) _ refl, of a] h fits sz by auto
      then show "returns (if ?w = 0 then text_combine c (gpos h) (gsize g0) h
        else text_place width c ?w a (gpos h) (gsize g0) h) (grid_step g)"
        unfolding that sz by (rule returns_mono) (use h grid_step_trans in blast)
    qed
    have "\<exists>wrap. text_on_grid width c a g = do { g' \<leftarrow> col_wrap ?w wrap g;
        if ?w = 0 then text_combine c (gpos g') (gsize g) g'
        else text_place width c ?w a (gpos g') (gsize g) g' }"
      using False w fits last_cell r(8)
      by (cases "size_cols (gsize g) - ?w < pos_col (gpos g)")
        (auto simp: text_on_grid_def Let_def)
    then show ?thesis using body[OF refl] by auto
  qed
qed

end
