(* ===== verification/VtPerform.thy ===== *)
theory VtPerform
  imports VtText
begin

text \<open>
  The terminal as a machine: \<open>src/src/vt100/perform.rs\<close> and \<open>src/src/vt100/parser.rs\<close>. The
  byte parser is the crate \<open>vte\<close>; what it makes of the program's output is a sequence of
  \<open>vte_event\<close>s (the methods of its \<open>Perform\<close> trait), and the theorems hold for every such
  sequence. \<open>term_step\<close> adds the two operations the rest of the program applies to a screen:
  resizing it and scrolling it back. The callbacks are the unit implementation, so a sequence
  that only reaches a callback leaves the screen as it is. The properties: no event sequence
  makes the terminal panic, whatever the sizes it is given on the way; the grids stay well
  formed; the history never exceeds its limit; and events never change the size.
\<close>

section \<open>Parameters\<close>

definition first_value :: "nat list list \<Rightarrow> nat" where
  "first_value params =
     (case params of [] \<Rightarrow> 0 | x # _ \<Rightarrow> (case x of [] \<Rightarrow> 0 | n # _ \<Rightarrow> n))"

definition canonicalize_params_1 :: "nat list list \<Rightarrow> nat \<Rightarrow> nat" where
  "canonicalize_params_1 params dflt =
     (let first = first_value params in if first = 0 then dflt else first)"

definition canonicalize_params_2 :: "nat list list \<Rightarrow> nat \<Rightarrow> nat \<Rightarrow> nat \<times> nat" where
  "canonicalize_params_2 params default1 default2 =
     (let first = first_value params;
          first = (if first = 0 then default1 else first);
          second = first_value (drop 1 params);
          second = (if second = 0 then default2 else second)
      in (first, second))"

definition canonicalize_params_decstbm :: "nat list list \<Rightarrow> Size \<Rightarrow> nat \<times> nat" where
  "canonicalize_params_decstbm params sz =
     (let t = first_value params;
          t = (if t = 0 then 1 else t);
          b = first_value (drop 1 params);
          b = (if b = 0 then size_rows sz else b)
      in (t, b))"

section \<open>Events\<close>

datatype vte_event =
    Print nat
  | Execute nat
  | EscDispatch "nat list" nat
  | CsiDispatch "nat list list" "nat list" nat
  | OscDispatch "nat list list"

definition perform_print :: "(nat \<Rightarrow> nat option) \<Rightarrow> nat \<Rightarrow> Screen \<Rightarrow> Screen option" where
  "perform_print width c s =
     (if c = 65533 \<or> (128 \<le> c \<and> c < 160) then Some s else screen_text width c s)"

definition perform_execute :: "nat \<Rightarrow> Screen \<Rightarrow> Screen option" where
  "perform_execute b s =
     (if b = 8 then bs s
      else if b = 9 then tab s
      else if b = 10 \<or> b = 11 \<or> b = 12 then lf s
      else if b = 13 then cr s
      else Some s)"

definition perform_esc :: "nat list \<Rightarrow> nat \<Rightarrow> Screen \<Rightarrow> Screen option" where
  "perform_esc intermediates b s =
     (if intermediates \<noteq> [] then Some s
      else if b = 55 then save_cursor s
      else if b = 56 then restore_cursor s
      else if b = 61 then Some (set_mode MODE_APPLICATION_KEYPAD s)
      else if b = 62 then Some (clear_mode MODE_APPLICATION_KEYPAD s)
      else if b = 77 then ri s
      else if b = 99 then ris s
      else Some s)"

text \<open>\<open>c\<close> is the final character of the sequence, the intermediates begin with \<open>?\<close> (63) in a
  private sequence.\<close>

definition perform_csi :: "nat list list \<Rightarrow> nat list \<Rightarrow> nat \<Rightarrow> Screen \<Rightarrow> Screen option" where
  "perform_csi params intermediates c s =
     (case intermediates of
        [] \<Rightarrow>
          let n = canonicalize_params_1 params 1; m = canonicalize_params_1 params 0
          in if c = of_char CHR ''@'' then ich n s
             else if c = of_char CHR ''A'' then cuu n s
             else if c = of_char CHR ''B'' then cud n s
             else if c = of_char CHR ''C'' then cuf n s
             else if c = of_char CHR ''D'' then cub n s
             else if c = of_char CHR ''E'' then cnl n s
             else if c = of_char CHR ''F'' then cpl n s
             else if c = of_char CHR ''G'' then cha n s
             else if c = of_char CHR ''H'' then cup (canonicalize_params_2 params 1 1) s
             else if c = of_char CHR ''J'' then ed m s
             else if c = of_char CHR ''K'' then el m s
             else if c = of_char CHR ''L'' then il n s
             else if c = of_char CHR ''M'' then dl n s
             else if c = of_char CHR ''P'' then dch n s
             else if c = of_char CHR ''S'' then su n s
             else if c = of_char CHR ''T'' then sd n s
             else if c = of_char CHR ''X'' then ech n s
             else if c = of_char CHR ''d'' then vpa n s
             else if c = of_char CHR ''m'' then Some (sgr params s)
             else if c = of_char CHR ''r''
               then decstbm (canonicalize_params_decstbm params (gsize (cur_grid s))) s
             else Some s
      | i # _ \<Rightarrow>
          if i = 63 then
            (let m = canonicalize_params_1 params 0
             in if c = of_char CHR ''J'' then ed m s
                else if c = of_char CHR ''K'' then el m s
                else if c = of_char CHR ''h'' then decset params s
                else if c = of_char CHR ''l'' then decrst params s
                else Some s)
          else Some s)"

fun perform :: "(nat \<Rightarrow> nat option) \<Rightarrow> vte_event \<Rightarrow> Screen \<Rightarrow> Screen option" where
  "perform width (Print c) s = perform_print width c s"
| "perform width (Execute b) s = perform_execute b s"
| "perform width (EscDispatch intermediates b) s = perform_esc intermediates b s"
| "perform width (CsiDispatch params intermediates c) s = perform_csi params intermediates c s"
| "perform width (OscDispatch params) s = Some s"

datatype term_op = Feed vte_event | Resize nat nat | ScrollBack nat

fun term_step :: "(nat \<Rightarrow> nat option) \<Rightarrow> term_op \<Rightarrow> Screen \<Rightarrow> Screen option" where
  "term_step width (Feed e) s = perform width e s"
| "term_step width (Resize rows cols) s = screen_set_size rows cols s"
| "term_step width (ScrollBack n) s = screen_set_scrollback n s"

section \<open>The invariant of a screen\<close>

definition screen_ok :: "Screen \<Rightarrow> bool" where
  "screen_ok s \<longleftrightarrow> grid_ready (grid s) \<and> grid_ok (alternate_grid s) \<and>
     gsize (alternate_grid s) = gsize (grid s) \<and> scrollback_len (alternate_grid s) = 0 \<and>
     (has_mode MODE_ALTERNATE_SCREEN s \<longrightarrow> grows (alternate_grid s) \<noteq> [])"

definition screen_shape :: "Screen \<Rightarrow> Size \<times> nat" where
  "screen_shape s = (gsize (grid s), scrollback_len (grid s))"

definition screen_step :: "Screen \<Rightarrow> Screen \<Rightarrow> bool" where
  "screen_step s s' \<longleftrightarrow> screen_ok s' \<and> screen_shape s' = screen_shape s"

lemma screen_step_refl: "screen_ok s \<Longrightarrow> screen_step s s"
  by (simp add: screen_step_def)

lemma screen_step_trans: "screen_step s t \<Longrightarrow> screen_step t u \<Longrightarrow> screen_step s u"
  by (simp add: screen_step_def)

lemma screen_stepD: "screen_step s t \<Longrightarrow> screen_ok t"
  by (simp add: screen_step_def)

lemma then_ok:
  assumes "returns m (screen_step s)" "\<And>t. screen_step s t \<Longrightarrow> screen_ok t \<Longrightarrow> returns (f t) (screen_step t)"
  shows "returns (Option.bind m f) (screen_step s)"
  unfolding returns_simps
  by (rule returns_mono[OF assms(1)], rule returns_mono[OF assms(2)])
    (auto dest: screen_stepD intro: screen_step_trans)

lemma cur_grid_ok: "screen_ok s \<Longrightarrow> grid_ready (cur_grid s) \<and> gsize (cur_grid s) = gsize (grid s)"
  by (simp add: screen_ok_def cur_grid_def grid_ready_def)

lemma on_grid_ok:
  assumes "screen_ok s" "\<And>g. grid_ready g \<Longrightarrow> gsize g = gsize (grid s) \<Longrightarrow> returns (f g) (grid_step g)"
  shows "returns (on_grid f s) (screen_step s)"
proof (cases "has_mode MODE_ALTERNATE_SCREEN s")
  case True
  have "returns (f (alternate_grid s)) (grid_step (alternate_grid s))"
    by (rule assms(2)) (use assms(1) True in \<open>simp_all add: screen_ok_def grid_ready_def\<close>)
  then show ?thesis using assms(1) True
    by (auto simp: on_grid_def screen_ok_def screen_step_def grid_step_def grid_ready_def has_mode_def
        screen_shape_def elim!: returns_mono)
next
  case False
  have "returns (f (grid s)) (grid_step (grid s))"
    by (rule assms(2)) (use assms(1) False in \<open>simp_all add: screen_ok_def\<close>)
  then show ?thesis using assms(1) False
    by (auto simp: on_grid_def screen_ok_def screen_step_def grid_step_def has_mode_def
        screen_shape_def elim!: returns_mono)
qed

lemma on_grid_total_ok:
  assumes "screen_ok s" "\<And>g. grid_ready g \<Longrightarrow> grid_step g (f g)"
  shows "returns (on_grid (\<lambda>g. Some (f g)) s) (screen_step s)"
  by (rule on_grid_ok[OF assms(1)]) (simp add: assms(2))

text \<open>Changes outside the grids. Of the mode bits only that of the alternate screen matters.\<close>

lemma screen_step_other:
  assumes "screen_ok s" "grid t = grid s" "alternate_grid t = alternate_grid s"
    "has_mode MODE_ALTERNATE_SCREEN t = has_mode MODE_ALTERNATE_SCREEN s"
  shows "screen_step s t"
  using assms by (simp add: screen_step_def screen_ok_def screen_shape_def)

lemma mode_grids [simp]:
  "grid (set_mode m s) = grid s" "alternate_grid (set_mode m s) = alternate_grid s"
  "grid (clear_mode m s) = grid s" "alternate_grid (clear_mode m s) = alternate_grid s"
  by (simp_all add: set_mode_def clear_mode_def)

lemma other_modes:
  assumes "m = MODE_APPLICATION_KEYPAD \<or> m = MODE_APPLICATION_CURSOR \<or> m = MODE_HIDE_CURSOR \<or>
    m = MODE_BRACKETED_PASTE"
  shows "has_mode MODE_ALTERNATE_SCREEN (set_mode m s) = has_mode MODE_ALTERNATE_SCREEN s"
    "has_mode MODE_ALTERNATE_SCREEN (clear_mode m s) = has_mode MODE_ALTERNATE_SCREEN s"
  using assms by (auto simp: has_mode_def set_mode_def clear_mode_def MODE_ALTERNATE_SCREEN_def
      MODE_APPLICATION_KEYPAD_def MODE_APPLICATION_CURSOR_def MODE_HIDE_CURSOR_def
      MODE_BRACKETED_PASTE_def bit.conj_disj_distrib2 and.assoc)

lemma alternate_mode [simp]:
  "has_mode MODE_ALTERNATE_SCREEN (set_mode MODE_ALTERNATE_SCREEN s)"
  "\<not> has_mode MODE_ALTERNATE_SCREEN (clear_mode MODE_ALTERNATE_SCREEN s)"
  by (simp_all add: has_mode_def set_mode_def clear_mode_def MODE_ALTERNATE_SCREEN_def
      bit.conj_disj_distrib2 and.assoc)

lemma set_mode_ok:
  assumes "screen_ok s" "m = MODE_APPLICATION_KEYPAD \<or> m = MODE_APPLICATION_CURSOR \<or> m = MODE_HIDE_CURSOR \<or>
    m = MODE_BRACKETED_PASTE"
  shows "screen_step s (set_mode m s)" "screen_step s (clear_mode m s)"
  by (rule screen_step_other[OF assms(1)]; simp add: other_modes[OF assms(2)])+

lemma field_updates_ok:
  assumes "screen_ok s"
  shows "screen_step s (s\<lparr>mouse_protocol_mode := x\<rparr>)" "screen_step s (s\<lparr>mouse_protocol_encoding := e\<rparr>)"
    "screen_step s (s\<lparr>attrs := a\<rparr>)" "screen_step s (s\<lparr>saved_attrs := a\<rparr>)"
  by (rule screen_step_other[OF assms]; simp add: has_mode_def)+

lemma mouse_ok:
  assumes "screen_ok s"
  shows "screen_step s (clear_mouse_mode x s)" "screen_step s (clear_mouse_encoding e s)"
  using field_updates_ok[OF assms] screen_step_refl[OF assms]
  by (auto simp: clear_mouse_mode_def clear_mouse_encoding_def)

lemma screen_new_ok:
  assumes "size_ok sz"
  shows "returns (screen_new sz len) (\<lambda>s. screen_ok s \<and> screen_shape s = (sz, len))"
proof -
  obtain g where g: "grid_new sz len = Some g" "grid_ok g" "gsize g = sz" "scrollback_len g = len"
    using grid_new_ok[OF assms, of len] by (auto simp: returns_def)
  obtain h where h: "grid_new sz 0 = Some h" "grid_ok h" "gsize h = sz" "scrollback_len h = 0"
    using grid_new_ok[OF assms, of 0] by (auto simp: returns_def)
  show ?thesis
    using g h allocate_rows_ok[OF g(2)]
    by (simp add: screen_new_def screen_ok_def screen_shape_def grid_step_def has_mode_def)
qed

lemma ris_ok:
  assumes "screen_ok s"
  shows "returns (ris s) (screen_step s)"
  using screen_new_ok[of "gsize (grid s)" "scrollback_len (grid s)"] grid_readyD(1)[of "grid s"] assms
  by (auto simp: ris_def screen_ok_def screen_step_def screen_shape_def elim!: returns_mono)

lemma exit_alternate_ok: "screen_ok s \<Longrightarrow> screen_step s (exit_alternate_grid s)"
  by (simp add: exit_alternate_grid_def screen_step_def screen_ok_def screen_shape_def)

lemma save_restore_cursor_ok:
  assumes "screen_ok s"
  shows "returns (save_cursor s) (screen_step s)" "returns (restore_cursor s) (screen_step s)"
  unfolding save_cursor_def restore_cursor_def
  by (rule then_ok[OF on_grid_total_ok[OF assms save_restore_ok(1)]] 
      then_ok[OF on_grid_total_ok[OF assms save_restore_ok(2)]],
      assumption, simp add: field_updates_ok)+

lemma enter_alternate_ok:
  assumes "screen_ok s"
  shows "returns (enter_alternate_grid s) (screen_step s)"
proof -
  have "screen_step t ((set_mode MODE_ALTERNATE_SCREEN t)\<lparr>alternate_grid :=
      allocate_rows (alternate_grid t)\<rparr>)" if "screen_ok t" for t
    using that allocate_rows_ok[of "alternate_grid t"]
    by (auto simp: screen_ok_def screen_step_def screen_shape_def grid_step_def grid_ready_def
        has_mode_def set_mode_def)
  then show ?thesis
    unfolding enter_alternate_grid_def
    by (intro then_ok[OF on_grid_total_ok[OF assms set_scrollback_ok]]) (simp_all add: Let_def)
qed

lemma screen_resize_ok:
  assumes "screen_ok s" "size_ok \<lparr>size_rows = rows, size_cols = cols\<rparr>"
  shows "returns (screen_set_size rows cols s) (\<lambda>t. screen_ok t \<and>
    screen_shape t = (\<lparr>size_rows = rows, size_cols = cols\<rparr>, scrollback_len (grid s)))"
proof -
  obtain g where g: "set_size \<lparr>size_rows = rows, size_cols = cols\<rparr> (grid s) = Some g" "grid_ready g"
    "gsize g = \<lparr>size_rows = rows, size_cols = cols\<rparr>" "scrollback_len g = scrollback_len (grid s)"
    using set_size_ok[OF _ assms(2), of "grid s"] assms(1)
    by (auto simp: screen_ok_def grid_ready_def returns_def)
  obtain h where h: "set_size \<lparr>size_rows = rows, size_cols = cols\<rparr> (alternate_grid s) = Some h"
    "grid_ready h" "gsize h = \<lparr>size_rows = rows, size_cols = cols\<rparr>" "scrollback_len h = 0"
    using set_size_ok[OF _ assms(2), of "alternate_grid s"] assms(1)
    by (auto simp: screen_ok_def returns_def)
  show ?thesis
    using g h by (simp add: screen_set_size_def screen_ok_def screen_shape_def grid_ready_def)
qed

section \<open>Every event\<close>

lemma csi_args:
  "0 < d \<Longrightarrow> 0 < canonicalize_params_1 ps d"
  "0 < d \<Longrightarrow> 0 < e \<Longrightarrow> 0 < fst (canonicalize_params_2 ps d e) \<and> 0 < snd (canonicalize_params_2 ps d e)"
  "0 < size_rows sz \<Longrightarrow> 0 < fst (canonicalize_params_decstbm ps sz) \<and> 0 < snd (canonicalize_params_decstbm ps sz)"
  by (auto simp: canonicalize_params_1_def canonicalize_params_2_def canonicalize_params_decstbm_def Let_def)

lemma line_feed_ok:
  assumes "grid_ready g"
  shows "returns (map_option snd (row_inc_scroll n g)) (grid_step g)"
  using row_inc_scroll_ok[OF assms, of n] by (auto simp: returns_def)

lemma grid_controls_ok:
  assumes "screen_ok s"
  shows "returns (bs s) (screen_step s)" "returns (tab s) (screen_step s)" "returns (lf s) (screen_step s)"
    "returns (cr s) (screen_step s)" "returns (ri s) (screen_step s)" "returns (ich n s) (screen_step s)"
    "returns (cuu n s) (screen_step s)" "returns (cud n s) (screen_step s)"
    "returns (cuf n s) (screen_step s)" "returns (cub n s) (screen_step s)"
    "returns (il n s) (screen_step s)" "returns (dl n s) (screen_step s)"
    "returns (dch n s) (screen_step s)" "returns (su n s) (screen_step s)"
    "returns (sd n s) (screen_step s)" "returns (ech n s) (screen_step s)"
    "returns (ed n s) (screen_step s)" "returns (el n s) (screen_step s)"
  unfolding bs_def tab_def lf_def cr_def ri_def ich_def cuu_def cud_def cuf_def cub_def il_def dl_def
    dch_def su_def sd_def ech_def ed_def el_def
  using screen_step_refl[OF assms]
  by (auto intro!: on_grid_ok[OF assms] simp: col_moves_ok row_moves_ok row_dec_scroll_ok[unfolded One_nat_def]
      insert_cells_ok line_moves_ok delete_cells_ok erase_row_moves_ok erase_screen_ok clear_rows_ok
      line_feed_ok intro: returns_mono[OF scroll_up_ok])

lemma moves_ok:
  assumes "screen_ok s"
  shows "returns (cnl n s) (screen_step s)" "returns (cpl n s) (screen_step s)"
    "0 < n \<Longrightarrow> returns (cha n s) (screen_step s)" "0 < n \<Longrightarrow> returns (vpa n s) (screen_step s)"
    "0 < fst rc \<Longrightarrow> 0 < snd rc \<Longrightarrow> returns (cup rc s) (screen_step s)"
    "0 < fst rc \<Longrightarrow> 0 < snd rc \<Longrightarrow> returns (decstbm rc s) (screen_step s)"
proof -
  show "returns (cnl n s) (screen_step s)" "returns (cpl n s) (screen_step s)"
    unfolding cnl_def cpl_def
    by (rule then_ok; auto intro!: on_grid_ok assms simp: col_moves_ok row_moves_ok)+
  show "0 < n \<Longrightarrow> returns (cha n s) (screen_step s)" "0 < n \<Longrightarrow> returns (vpa n s) (screen_step s)"
    "0 < fst rc \<Longrightarrow> 0 < snd rc \<Longrightarrow> returns (cup rc s) (screen_step s)"
    "0 < fst rc \<Longrightarrow> 0 < snd rc \<Longrightarrow> returns (decstbm rc s) (screen_step s)"
    by (auto simp: cha_def vpa_def cup_def decstbm_def col_moves_ok row_moves_ok set_pos_ok
        set_scroll_region_ok intro!: on_grid_ok[OF assms])
qed

lemma decset_one_ok:
  assumes "screen_ok s"
  shows "returns (decset_one p s) (screen_step s)"
proof -
  have alt: "returns (do { s \<leftarrow> save_cursor s; g \<leftarrow> grid_clear (alternate_grid s);
      enter_alternate_grid (s\<lparr>alternate_grid := g\<rparr>) }) (screen_step s)"
  proof (rule then_ok[OF save_restore_cursor_ok(1)[OF assms]])
    fix t assume t: "screen_ok t"
    then obtain g where g: "grid_clear (alternate_grid t) = Some g" "grid_ok g"
      "gsize g = gsize (alternate_grid t)" "scrollback_len g = scrollback_len (alternate_grid t)"
      "grows g = [] \<longleftrightarrow> grows (alternate_grid t) = []"
      using grid_clear_ok[of "alternate_grid t"] by (auto simp: screen_ok_def returns_def)
    have "screen_step t (t\<lparr>alternate_grid := g\<rparr>)"
      using t g by (auto simp: screen_step_def screen_ok_def screen_shape_def has_mode_def)
    then show "returns (do { g \<leftarrow> grid_clear (alternate_grid t);
        enter_alternate_grid (t\<lparr>alternate_grid := g\<rparr>) }) (screen_step t)"
      using g(1) enter_alternate_ok[OF screen_stepD, of t "t\<lparr>alternate_grid := g\<rparr>"]
      by (auto elim!: returns_mono intro: screen_step_trans)
  qed
  show ?thesis
    using assms alt by (auto simp: decset_one_def set_mode_ok field_updates_ok enter_alternate_ok
        set_origin_mode_ok screen_step_refl intro!: on_grid_ok[OF assms])
qed

lemma decrst_one_ok:
  assumes "screen_ok s"
  shows "returns (decrst_one p s) (screen_step s)"
proof -
  have "returns (restore_cursor (exit_alternate_grid s)) (screen_step s)"
    by (rule returns_mono[OF save_restore_cursor_ok(2)[OF screen_stepD[OF exit_alternate_ok[OF assms]]]])
      (rule screen_step_trans[OF exit_alternate_ok[OF assms]])
  then show ?thesis
    using assms by (auto simp: decrst_one_def set_mode_ok mouse_ok exit_alternate_ok
        set_origin_mode_ok screen_step_refl intro!: on_grid_ok[OF assms])
qed

lemma steps_ok:
  assumes "screen_ok s" "\<And>x t. screen_ok t \<Longrightarrow> returns (f x t) (screen_step t)"
  shows "returns (fold_opt f xs s) (screen_step s)"
proof (rule returns_fold)
  fix x t assume t: "screen_step s t"
  show "returns (f x t) (screen_step s)"
    by (rule returns_mono[OF assms(2)[OF screen_stepD[OF t]] screen_step_trans[OF t]])
qed (rule screen_step_refl[OF assms(1)])

lemma decset_decrst_ok:
  assumes "screen_ok s"
  shows "returns (decset ps s) (screen_step s)" "returns (decrst ps s) (screen_step s)"
  unfolding decset_def decrst_def by (rule steps_ok[OF assms]; rule decset_one_ok decrst_one_ok; assumption)+

lemma perform_esc_ok:
  assumes "screen_ok s"
  shows "returns (perform_esc ims b s) (screen_step s)"
  using assms by (auto simp: perform_esc_def save_restore_cursor_ok grid_controls_ok ris_ok set_mode_ok
      screen_step_refl)

lemma perform_csi_ok:
  assumes "screen_ok s"
  shows "returns (perform_csi ps ims c s) (screen_step s)"
proof -
  have "0 < size_rows (gsize (cur_grid s))"
    using grid_readyD(7)[of "cur_grid s"] cur_grid_ok[OF assms] by auto
  then show ?thesis
    using assms unfolding perform_csi_def Let_def
    by (auto split: list.split simp: grid_controls_ok moves_ok csi_args decset_decrst_ok
        screen_step_refl sgr_def field_updates_ok simp del: of_char_eq_iff)
qed

lemma perform_print_ok:
  assumes "screen_ok s" "char_width_ok width" "scalar c"
  shows "returns (perform_print width c s) (screen_step s)"
  using assms by (auto simp: perform_print_def screen_text_def screen_step_refl text_on_grid_ok
      intro!: on_grid_ok)

lemma perform_execute_ok: "screen_ok s \<Longrightarrow> returns (perform_execute b s) (screen_step s)"
  by (auto simp: perform_execute_def grid_controls_ok screen_step_refl)

section \<open>The machine\<close>

definition event_ok :: "vte_event \<Rightarrow> bool" where
  "event_ok e \<longleftrightarrow> (case e of Print c \<Rightarrow> scalar c | _ \<Rightarrow> True)"

text \<open>What the rest of the program promises: characters are characters, and a terminal is never
  resized to a size with no rows or columns, or wider than the tab stops reach.\<close>

definition op_ok :: "term_op \<Rightarrow> bool" where
  "op_ok op \<longleftrightarrow>
     (case op of Feed e \<Rightarrow> event_ok e
      | Resize rows cols \<Rightarrow> size_ok \<lparr>size_rows = rows, size_cols = cols\<rparr>
      | ScrollBack n \<Rightarrow> True)"

definition term_ok :: "(nat \<Rightarrow> nat option) \<Rightarrow> term_op \<Rightarrow> bool" where
  "term_ok width op \<longleftrightarrow> char_width_ok width \<and> op_ok op"

lemma perform_ok:
  assumes "screen_ok s" "char_width_ok width" "event_ok e"
  shows "returns (perform width e s) (screen_step s)"
  using assms by (cases e) (simp_all add: event_ok_def perform_print_ok perform_execute_ok
      perform_esc_ok perform_csi_ok screen_step_refl)

lemma term_step_ok:
  assumes "screen_ok s" "term_ok width op"
  shows "returns (term_step width op s) (\<lambda>t. screen_ok t \<and> scrollback_len (grid t) = scrollback_len (grid s))"
proof (cases op)
  case (Feed e)
  then show ?thesis using perform_ok[OF assms(1), of width e] assms(2)
    by (auto simp: term_ok_def op_ok_def screen_step_def screen_shape_def elim!: returns_mono)
next
  case (Resize rows cols)
  then show ?thesis using screen_resize_ok[OF assms(1), of rows cols] assms(2)
    by (auto simp: term_ok_def op_ok_def screen_shape_def elim!: returns_mono)
next
  case (ScrollBack n)
  have "returns (screen_set_scrollback n s) (screen_step s)"
    unfolding screen_set_scrollback_def by (rule on_grid_total_ok[OF assms(1) set_scrollback_ok])
  then show ?thesis using ScrollBack
    by (auto simp: screen_step_def screen_shape_def elim!: returns_mono)
qed

interpretation terminal: observing_machine "term_step width" screen_ok "\<lambda>_. term_ok width"
    "\<lambda>s. scrollback_len (grid s)" for width
proof
  fix s op t
  assume a: "screen_ok s" "term_ok width op"
  show "\<exists>t. term_step width op s = Some t \<and> screen_ok t"
    using term_step_ok[OF a] by (auto simp: returns_def)
  show "scrollback_len (grid t) = scrollback_len (grid s)" if "term_step width op s = Some t"
    using term_step_ok[OF a] that by simp
qed

interpretation feed: observing_machine "perform width" screen_ok
    "\<lambda>_ e. char_width_ok width \<and> event_ok e" screen_shape for width
proof
  fix s e t
  assume a: "screen_ok s" "char_width_ok width \<and> event_ok e"
  show "\<exists>t. perform width e s = Some t \<and> screen_ok t"
    using perform_ok[OF a(1)] a(2) by (auto simp: returns_def screen_step_def)
  show "screen_shape t = screen_shape s" if "perform width e s = Some t"
    using perform_ok[OF a(1), of width e] a(2) that by (simp add: screen_step_def)
qed

lemma screen_ok_readable:
  assumes "screen_ok s"
  shows "\<exists>out. screen_contents s = Some out" "length (scrollback (cur_grid s)) \<le> scrollback_len (grid s)"
proof -
  have g: "grid_ok (cur_grid s)" using cur_grid_ok[OF assms] by (simp add: grid_ready_def)
  then show "\<exists>out. screen_contents s = Some out"
    unfolding screen_contents_def by (rule grid_write_contents_ok)
  show "length (scrollback (cur_grid s)) \<le> scrollback_len (grid s)"
    using assms by (auto simp: cur_grid_def screen_ok_def grid_ready_def grid_ok_def)
qed

lemma terminal_run:
  assumes "size_ok sz" "char_width_ok width" "list_all op_ok ops"
  shows "returns (do { s \<leftarrow> screen_new sz len; fold_opt (term_step width) ops s })
    (\<lambda>t. screen_ok t \<and> scrollback_len (grid t) = len)"
proof -
  obtain s where s: "screen_new sz len = Some s" "screen_ok s" "scrollback_len (grid s) = len"
    using screen_new_ok[OF assms(1), of len] by (auto simp: returns_def screen_shape_def)
  have adm: "admissible (\<lambda>_. term_ok width) (term_step width) ops s"
    by (rule admissible_const) (use assms in \<open>auto simp: term_ok_def list_all_iff\<close>)
  obtain t where t: "fold_opt (term_step width) ops s = Some t" "screen_ok t"
    using terminal.run_safe[OF s(2) adm] by blast
  have "scrollback_len (grid t) = len" using terminal.run_obs[OF s(2) adm t(1)] s(3) by simp
  then show ?thesis using s t by simp
qed

text \<open>C1. The terminal emulator never panics. Whatever a program prints - any sequence of
  characters, control codes, escape sequences and their parameters, interleaved with resizes of
  the terminal and scrolling through its history - every operation returns, the resulting screen
  is well formed (cursor and scroll region inside the grid, every row of the grid's width, both
  halves of every wide character present) and its contents can be read.\<close>

theorem terminal_never_panics:
  assumes "size_ok sz" "char_width_ok width" "list_all op_ok ops"
  shows "\<exists>s t out. screen_new sz len = Some s \<and> fold_opt (term_step width) ops s = Some t \<and>
    screen_ok t \<and> screen_contents t = Some out"
  using terminal_run[OF assms, of len] screen_ok_readable(1)
  by (fastforce simp: returns_def split: bind_splits)

definition one_wide :: "nat \<Rightarrow> nat option" where
  "one_wide c = Some 1"

lemma terminal_never_panics_witness:
  "\<exists>s t out. screen_new \<lparr>size_rows = 2, size_cols = 5\<rparr> 10 = Some s \<and>
     fold_opt (term_step one_wide)
       [Feed (Print 97), Feed (CsiDispatch [[9]] [] 74), Resize 1 3, Feed (Execute 10), ScrollBack 7] s
       = Some t \<and> screen_ok t \<and> screen_contents t = Some out"
  by (rule terminal_never_panics)
    (simp_all add: size_ok_def char_width_ok_def one_wide_def op_ok_def event_ok_def scalar_def)

text \<open>C8. The history is bounded: after any such sequence the main screen's history holds at
  most as many lines as the limit the terminal was created with, the alternate screen has no
  history, and the limit is unchanged.\<close>

theorem history_bounded:
  assumes "size_ok sz" "char_width_ok width" "list_all op_ok ops"
    "screen_new sz len = Some s" "fold_opt (term_step width) ops s = Some t"
  shows "length (scrollback (grid t)) \<le> len \<and> scrollback (alternate_grid t) = [] \<and>
    scrollback_len (grid t) = len"
  using terminal_run[OF assms(1-3), of len] assms(4,5)
  by (auto simp: screen_ok_def grid_ready_def grid_ok_def)

lemma history_bounded_witness:
  "\<exists>s t. screen_new \<lparr>size_rows = 1, size_cols = 5\<rparr> 1 = Some s \<and>
     fold_opt (term_step one_wide) [Feed (Execute 10), Feed (Execute 10)] s = Some t \<and>
     length (scrollback (grid t)) \<le> 1"
proof -
  have ok: "size_ok \<lparr>size_rows = 1, size_cols = 5\<rparr>" "char_width_ok one_wide"
    "list_all op_ok [Feed (Execute 10), Feed (Execute 10)]"
    by (simp_all add: size_ok_def char_width_ok_def one_wide_def op_ok_def event_ok_def)
  obtain s t where "screen_new \<lparr>size_rows = 1, size_cols = 5\<rparr> 1 = Some s"
    "fold_opt (term_step one_wide) [Feed (Execute 10), Feed (Execute 10)] s = Some t"
    using terminal_run[OF ok, of 1] by (auto simp: returns_def split: bind_splits)
  then show ?thesis using history_bounded[OF ok] by blast
qed

text \<open>Output never resizes the terminal: a sequence of events, the reset sequence
  included, leaves the size of both screens and the history limit as they were.\<close>

theorem output_keeps_shape:
  assumes "screen_ok s" "char_width_ok width" "list_all event_ok es"
    "fold_opt (perform width) es s = Some t"
  shows "screen_size t = screen_size s \<and> gsize (alternate_grid t) = gsize (grid s) \<and>
    scrollback_len (grid t) = scrollback_len (grid s)"
proof -
  have adm: "admissible (\<lambda>_ e. char_width_ok width \<and> event_ok e) (perform width) es s"
    by (rule admissible_const) (use assms in \<open>auto simp: list_all_iff\<close>)
  have t: "screen_ok t" "screen_shape t = screen_shape s"
    using feed.run_safe[OF assms(1) adm] feed.run_obs[OF assms(1) adm assms(4)] assms(4) by auto
  then show ?thesis
    using cur_grid_ok[OF t(1)] cur_grid_ok[OF assms(1)]
    by (simp add: screen_shape_def screen_size_def screen_ok_def)
qed

lemma output_keeps_shape_witness:
  "\<exists>s t. screen_new \<lparr>size_rows = 2, size_cols = 5\<rparr> 10 = Some s \<and>
     fold_opt (perform one_wide) [EscDispatch [] 99, Print 97] s = Some t \<and> screen_size t = (2, 5)"
proof -
  have ok: "size_ok \<lparr>size_rows = 2, size_cols = 5\<rparr>" "char_width_ok one_wide"
    "list_all event_ok [EscDispatch [] 99, Print 97]"
    by (simp_all add: size_ok_def char_width_ok_def one_wide_def event_ok_def scalar_def)
  obtain s where s: "screen_new \<lparr>size_rows = 2, size_cols = 5\<rparr> 10 = Some s" "screen_ok s"
    "screen_shape s = (\<lparr>size_rows = 2, size_cols = 5\<rparr>, 10)"
    using screen_new_ok[OF ok(1), of 10] by (auto simp: returns_def)
  have adm: "admissible (\<lambda>_ e. char_width_ok one_wide \<and> event_ok e) (perform one_wide)
      [EscDispatch [] 99, Print 97] s"
    by (rule admissible_const) (use ok in simp)
  obtain t where t: "fold_opt (perform one_wide) [EscDispatch [] 99, Print 97] s = Some t"
    using feed.run_safe[OF s(2) adm] by blast
  have "screen_size s = (2, 5)"
    using s(3) cur_grid_ok[OF s(2)] by (simp add: screen_shape_def screen_size_def)
  then show ?thesis using output_keeps_shape[OF s(2) ok(2,3) t] s(1) t by auto
qed

end
