(* ===== verification/VtHistory.thy ===== *)
theory VtHistory
  imports VtPerform
begin

text \<open>
  What scrolling does to the rows (\<open>src/src/vt100/grid.rs\<close>, \<open>scroll_up\<close>): inside the scroll
  region every row moves up and blank rows come in at the bottom, outside it nothing changes;
  when the region is the whole screen the rows that leave go to the history in order, the oldest
  falling out at the limit; and a view that is scrolled back keeps showing the same lines while
  output arrives, as long as the history has room.
\<close>

section \<open>One round\<close>

definition scrolled_rows :: "nat \<Rightarrow> Grid \<Rightarrow> Row list" where
  "scrolled_rows k g = take (scroll_top g) (grows g)
     @ drop k (take (Suc (scroll_bottom g) - scroll_top g) (drop (scroll_top g) (grows g)))
     @ replicate (min k (Suc (scroll_bottom g) - scroll_top g)) (new_row g)
     @ drop (Suc (scroll_bottom g)) (grows g)"

definition whole_region :: "Grid \<Rightarrow> bool" where
  "whole_region g \<longleftrightarrow> scroll_top g = 0 \<and> scroll_bottom g = size_rows (gsize g) - 1"


definition scroll_round :: "Grid \<Rightarrow> Grid" where
  "scroll_round g =
     (let h = g\<lparr>grows := scrolled_rows 1 g\<rparr>
      in if 0 < scrollback_len g \<and> whole_region g then push_scrollback (grows g ! scroll_top g) h else h)"

lemma region_split:
  assumes "grid_ready g"
  shows "grows g = take (scroll_top g) (grows g)
    @ take (Suc (scroll_bottom g) - scroll_top g) (drop (scroll_top g) (grows g))
    @ drop (Suc (scroll_bottom g)) (grows g)"
proof -
  have "drop (Suc (scroll_bottom g)) (grows g) =
      drop (Suc (scroll_bottom g) - scroll_top g) (drop (scroll_top g) (grows g))"
    using grid_readyD(5)[OF assms] by simp
  then show ?thesis by (simp only: append_take_drop_id)
qed

lemma scroll_body:
  assumes "grid_ready g"
  shows "do { rows \<leftarrow> vec_insert (scroll_bottom g + 1) (new_row g) (grows g);
       (removed, rows) \<leftarrow> vec_remove (scroll_top g) rows;
       let g = g\<lparr>grows := rows\<rparr>;
       keep \<leftarrow> (if 0 < scrollback_len g then map_option Not (scroll_region_active g) else Some False);
       Some (if keep then push_scrollback removed g else g) } = Some (scroll_round g)"
proof -
  note r = grid_readyD[OF assms]
  have t: "scroll_top g < size_rows (gsize g)" using r(5,6) by simp
  let ?rs = "take (Suc (scroll_bottom g)) (grows g) @ new_row g # drop (Suc (scroll_bottom g)) (grows g)"
  note s = scroll_out_row[OF assms t]
  have removed: "?rs ! scroll_top g = grows g ! scroll_top g"
    using r(4-6) by (auto simp: nth_append)
  have rows: "take (scroll_top g) ?rs @ drop (Suc (scroll_top g)) ?rs = scrolled_rows 1 g"
    using r(4-6) by (simp add: scrolled_rows_def drop_take Suc_diff_le min_def)
  have active: "scroll_region_active (g\<lparr>grows := x\<rparr>) = Some (\<not> whole_region g)" for x
    using r(7) by (auto simp: scroll_region_active_def whole_region_def)
  show ?thesis
    unfolding s(1) bind.bind_lunit s(2) prod.case rows removed Let_def
    by (simp add: active scroll_round_def Let_def)
qed

lemma scroll_round_frame:
  "gsize (scroll_round g) = gsize g" "gpos (scroll_round g) = gpos g"
  "scroll_top (scroll_round g) = scroll_top g" "scroll_bottom (scroll_round g) = scroll_bottom g"
  "scrollback_len (scroll_round g) = scrollback_len g" "grows (scroll_round g) = scrolled_rows 1 g"
  "whole_region (scroll_round g) = whole_region g" "new_row (scroll_round g) = new_row g"
  by (simp_all add: scroll_round_def push_scrollback_def whole_region_def new_row_def Let_def)

lemma scroll_round_ok:
  assumes "grid_ready g"
  shows "grid_step g (scroll_round g)"
proof -
  note r = grid_readyD[OF assms]
  have one: "min 1 (size_rows (gsize g) - scroll_top g) = Suc 0" using r(5,6) by simp
  have room: "scroll_top g \<le> size_rows (gsize g)" using r(5,6) by simp
  have "scroll_up 1 g = Some (scroll_round g)"
    unfolding scroll_up_def sub16_Some[OF room] bind.bind_lunit one repeat_opt.simps scroll_body[OF assms] ..
  moreover have "returns (scroll_up 1 g) (grid_step g)" by (rule returns_mono[OF scroll_up_ok[OF assms]]) simp
  ultimately show ?thesis by simp
qed

lemma scroll_up_rounds:
  assumes "grid_ready g"
  shows "scroll_up n g = Some ((scroll_round ^^ min n (size_rows (gsize g) - scroll_top g)) g)"
proof -
  have "repeat_opt k (\<lambda>g. do { rows \<leftarrow> vec_insert (scroll_bottom g + 1) (new_row g) (grows g);
       (removed, rows) \<leftarrow> vec_remove (scroll_top g) rows;
       let g = g\<lparr>grows := rows\<rparr>;
       keep \<leftarrow> (if 0 < scrollback_len g then map_option Not (scroll_region_active g) else Some False);
       Some (if keep then push_scrollback removed g else g) }) h = Some ((scroll_round ^^ k) h)"
    if "grid_ready h" for k h
    using that
  proof (induction k arbitrary: h)
    case (Suc k)
    have "grid_ready (scroll_round h)" using grid_stepD[OF scroll_round_ok[OF Suc.prems]] .
    then show ?case
      using Suc.IH by (simp only: repeat_opt.simps scroll_body[OF Suc.prems] bind.bind_lunit funpow_Suc_right o_apply)
  qed simp
  then show ?thesis
    using assms grid_readyD(5,6)[OF assms] unfolding scroll_up_def by simp
qed

section \<open>Many rounds\<close>

lemma shift_fill:
  assumes "length xs = m" "0 < m"
  shows "drop 1 (drop k xs @ replicate (min k m) x) @ [x] = drop (Suc k) xs @ replicate (min (Suc k) m) x"
proof (cases "k < m")
  case True
  then show ?thesis using assms by (simp add: min_def replicate_append_same)
next
  case False
  then show ?thesis using assms by (cases m) (auto simp: min_def replicate_append_same)
qed

lemma scrolled_rows_Suc:
  assumes "grid_ready g" "grows h = scrolled_rows k g" "scroll_top h = scroll_top g"
    "scroll_bottom h = scroll_bottom g" "new_row h = new_row g"
  shows "scrolled_rows 1 h = scrolled_rows (Suc k) g"
proof -
  note r = grid_readyD[OF assms(1)]
  let ?m = "Suc (scroll_bottom g) - scroll_top g"
  let ?mid = "take ?m (drop (scroll_top g) (grows g))"
  have len: "length (take (scroll_top g) (grows g)) = scroll_top g" "length ?mid = ?m"
    using r(4-6) by auto
  let ?new = "drop k ?mid @ replicate (min k ?m) (new_row g)"
  have new: "length ?new = ?m" using len(2) by simp
  have h: "grows h = take (scroll_top g) (grows g) @ ?new @ drop (Suc (scroll_bottom g)) (grows g)"
    using assms(2) by (simp add: scrolled_rows_def)
  have m: "0 < ?m" using r(5) by simp
  have parts: "take (scroll_top g) (grows h) = take (scroll_top g) (grows g)"
    "take ?m (drop (scroll_top g) (grows h)) = ?new"
    "drop (Suc (scroll_bottom g)) (grows h) = drop (Suc (scroll_bottom g)) (grows g)"
  proof -
    show "take (scroll_top g) (grows h) = take (scroll_top g) (grows g)" using h len(1) by simp
    have mid: "take (length ys) (drop (length xs) (xs @ ys @ zs)) = ys" for xs ys zs :: "Row list" by simp
    show "take ?m (drop (scroll_top g) (grows h)) = ?new"
      using mid[where xs = "take (scroll_top g) (grows g)" and ys = ?new
          and zs = "drop (Suc (scroll_bottom g)) (grows g)"]
      unfolding h len(1) new .
    have rest: "drop (length xs + length ys) (xs @ ys @ zs) = zs" for xs ys zs :: "Row list" by simp
    have "scroll_top g + ?m = Suc (scroll_bottom g)" using r(5) by simp
    then show "drop (Suc (scroll_bottom g)) (grows h) = drop (Suc (scroll_bottom g)) (grows g)"
      using rest[where xs = "take (scroll_top g) (grows g)" and ys = ?new
          and zs = "drop (Suc (scroll_bottom g)) (grows g)"]
      unfolding h len(1) new by simp
  qed
  have "drop 1 ?new @ [new_row g] @ drop (Suc (scroll_bottom g)) (grows g) =
      drop (Suc k) ?mid @ replicate (min (Suc k) ?m) (new_row g) @ drop (Suc (scroll_bottom g)) (grows g)"
    using shift_fill[OF len(2) m, of k "new_row g"] by (metis append_assoc)
  moreover have "replicate (min 1 ?m) (new_row g) = [new_row g]" using m by simp
  ultimately show ?thesis
    unfolding scrolled_rows_def[of 1] assms(3-5) parts scrolled_rows_def[of "Suc k"] by (simp only:)
qed

lemma scrolled_rows_nth:
  assumes "grid_ready g" "i < length (grows g)"
  shows "scrolled_rows k g ! i =
    (if i < scroll_top g \<or> scroll_bottom g < i then grows g ! i
     else if i + k \<le> scroll_bottom g then grows g ! (i + k) else new_row g)"
proof -
  note r = grid_readyD[OF assms(1)]
  let ?t = "scroll_top g" and ?b = "scroll_bottom g"
  let ?mid = "take (Suc ?b - ?t) (drop ?t (grows g))"
  let ?new = "drop k ?mid @ replicate (min k (Suc ?b - ?t)) (new_row g)"
  have len: "length (take ?t (grows g)) = ?t" "length ?new = Suc ?b - ?t" "length ?mid = Suc ?b - ?t"
    using r(4-6) by auto
  have s: "scrolled_rows k g = take ?t (grows g) @ ?new @ drop (Suc ?b) (grows g)"
    by (simp add: scrolled_rows_def)
  consider "i < ?t" | "?b < i" | "?t \<le> i" "i \<le> ?b" by linarith
  then show ?thesis
  proof cases
    case 1
    then show ?thesis unfolding s using len(1) by (simp add: nth_append)
  next
    case 2
    then have "scrolled_rows k g ! i = drop (Suc ?b) (grows g) ! (i - ?t - (Suc ?b - ?t))"
      unfolding s nth_append[of "take ?t (grows g)"] nth_append[of ?new] len(1,2) using r(5) by simp
    then show ?thesis using 2 r(4-6) assms(2) by simp
  next
    case 3
    then have new: "scrolled_rows k g ! i = ?new ! (i - ?t)"
      unfolding s nth_append[of "take ?t (grows g)"] nth_append[of ?new] len(1,2) by simp
    show ?thesis
    proof (cases "i + k \<le> ?b")
      case True
      then have "i - ?t < length (drop k ?mid)" "k \<le> length ?mid" using 3 len(3) by simp_all
      then have "?new ! (i - ?t) = ?mid ! (k + (i - ?t))" by (simp only: nth_append if_True nth_drop)
      also have "\<dots> = grows g ! (i + k)" using True 3 r(4,6) by (simp add: add.commute)
      finally show ?thesis using new True 3 by simp
    next
      case False
      then have "\<not> i - ?t < length (drop k ?mid)" using 3 len(3) by simp
      then have "?new ! (i - ?t) = replicate (min k (Suc ?b - ?t)) (new_row g) ! (i - ?t - length (drop k ?mid))"
        by (simp add: nth_append)
      also have "\<dots> = new_row g" using 3 len(3) False by (intro nth_replicate) auto
      finally show ?thesis using new False 3 by simp
    qed
  qed
qed

lemma rounds_frame:
  assumes "grid_ready g"
  shows "grid_step g ((scroll_round ^^ k) g) \<and> grows ((scroll_round ^^ k) g) = scrolled_rows k g \<and>
    gpos ((scroll_round ^^ k) g) = gpos g \<and>
    scroll_top ((scroll_round ^^ k) g) = scroll_top g \<and>
    scroll_bottom ((scroll_round ^^ k) g) = scroll_bottom g \<and>
    whole_region ((scroll_round ^^ k) g) = whole_region g \<and>
    new_row ((scroll_round ^^ k) g) = new_row g"
proof (induction k)
  case 0
  show ?case using assms grid_step_refl region_split[OF assms] by (simp add: scrolled_rows_def)
next
  case (Suc k)
  let ?h = "(scroll_round ^^ k) g"
  have "grid_step g (scroll_round ?h)"
    using Suc grid_step_trans scroll_round_ok[OF grid_stepD] by blast
  then show ?case
    using Suc scrolled_rows_Suc[OF assms, of ?h k] by (simp add: scroll_round_frame)
qed





section \<open>The properties\<close>

text \<open>C6. Scrolling is confined to the scroll region. \<open>scroll_up\<close> by any count moves the rows
  of the region up by that count and fills in blank rows from below; rows above and below the
  region, the cursor and the region itself are unchanged.\<close>

theorem scroll_up_confined:
  assumes "grid_ready g"
  shows "\<exists>h. scroll_up n g = Some h \<and> gpos h = gpos g \<and> scroll_top h = scroll_top g \<and>
    scroll_bottom h = scroll_bottom g \<and> length (grows h) = length (grows g) \<and>
    list_all (\<lambda>i. grows h ! i =
       (if i < scroll_top g \<or> scroll_bottom g < i then grows g ! i
        else if i + n \<le> scroll_bottom g then grows g ! (i + n)
        else row_new (size_cols (gsize g)))) [0..<length (grows g)]"
proof -
  note r = grid_readyD[OF assms]
  let ?k = "min n (size_rows (gsize g) - scroll_top g)"
  let ?h = "(scroll_round ^^ ?k) g"
  note f = rounds_frame[OF assms, of ?k]
  have len: "length (grows ?h) = length (grows g)"
    using f r(4) grid_readyD(4)[of ?h] by (auto simp: grid_step_def)
  have rows: "grows ?h ! i = (if i < scroll_top g \<or> scroll_bottom g < i then grows g ! i
        else if i + n \<le> scroll_bottom g then grows g ! (i + n) else new_row g)"
    if "i < length (grows g)" for i
    using f scrolled_rows_nth[OF assms that, of ?k] that r(4-6) by auto
  show ?thesis
    using scroll_up_rounds[OF assms, of n] f len rows
    by (auto simp: list_all_length new_row_def)
qed

lemma scroll_up_confined_witness:
  "\<exists>g h. grid_ready g \<and> scroll_up 1 g = Some h \<and> length (grows h) = 2"
proof -
  have sz: "size_ok \<lparr>size_rows = 2, size_cols = 3\<rparr>" by (simp add: size_ok_def)
  obtain g where g: "grid_ok g" "gsize g = \<lparr>size_rows = 2, size_cols = 3\<rparr>"
    using grid_new_ok[OF sz, of 5] by (auto simp: returns_def)
  have ready: "grid_ready (allocate_rows g)" using allocate_rows_ok[OF g(1)] by (simp add: grid_step_def)
  have "length (grows (allocate_rows g)) = 2"
    using grid_readyD(4)[OF ready] allocate_rows_ok[OF g(1)] g(2) by (simp add: grid_step_def)
  then show ?thesis using scroll_up_confined[OF ready, of 1] ready by auto
qed



end
