(* ===== verification/Wire.thy ===== *)
theory Wire
  imports Utf8
begin

text \<open>
  The framed protocol between client and server: \<open>src/src/protocol.rs\<close>. A reader is what a
  socket delivers, cut into arbitrary chunks with interrupted calls and errors between them; the
  standard library's \<open>read_exact\<close>, \<open>Take\<close> and \<open>read_to_end\<close> are functions on it. The three ways in
  which \<open>read_msg_limited\<close> reads a payload are shown to be one (\<open>read_frame\<close>), and frames
  survive any chunking.
\<close>

section \<open>Readers\<close>

datatype 'e chunk = Data "byte list" | Interrupted | Fail 'e

type_synonym 'e reader = "'e chunk list"

text \<open>The bytes that a further read brings, after those already in the buffer.\<close>

definition prepend :: "byte list \<Rightarrow> ('e io_error + byte list) \<times> 'r \<Rightarrow> ('e io_error + byte list) \<times> 'r" where
  "prepend bs x = (map_sum id ((@) bs) (fst x), snd x)"

lemma prepend_simps [simp]:
  "prepend bs (Inl e, r) = (Inl e, r)" "prepend bs (Inr rest, r) = (Inr (bs @ rest), r)"
  "prepend xs (prepend ys z) = prepend (xs @ ys) z" "prepend [] z = z"
  by (cases "fst z"; cases z; simp add: prepend_def)+

text \<open>\<open>Read::read_exact\<close>: a read of no bytes is the end of the stream, an interrupted call is
  repeated.\<close>

fun read_exact :: "nat \<Rightarrow> 'e reader \<Rightarrow> ('e io_error + byte list) \<times> 'e reader" where
  "read_exact n [] = (if n = 0 then (Inr [], []) else (Inl UnexpectedEof, []))"
| "read_exact n (c # r) =
     (if n = 0 then (Inr [], c # r)
      else case c of
        Interrupted \<Rightarrow> read_exact n r
      | Fail e \<Rightarrow> (Inl (OsError e), r)
      | Data bs \<Rightarrow>
          if bs = [] then (Inl UnexpectedEof, r)
          else if n < length bs then (Inr (take n bs), Data (drop n bs) # r)
          else prepend bs (read_exact (n - length bs) r))"

lemma read_exact_0 [simp]: "read_exact 0 r = (Inr [], r)"
  by (cases r) auto

lemma read_exact_Cons:
  "0 < n \<Longrightarrow> read_exact n (Interrupted # r) = read_exact n r"
  "0 < n \<Longrightarrow> read_exact n (Fail e # r) = (Inl (OsError e), r)"
  "0 < n \<Longrightarrow> read_exact n (Data [] # r) = (Inl UnexpectedEof, r)"
  "n < length bs \<Longrightarrow> read_exact n (Data bs # r) = (if n = 0 then (Inr [], Data bs # r) else (Inr (take n bs), Data (drop n bs) # r))"
  "0 < n \<Longrightarrow> bs \<noteq> [] \<Longrightarrow> length bs \<le> n \<Longrightarrow> read_exact n (Data bs # r) = prepend bs (read_exact (n - length bs) r)"
  by auto

declare read_exact.simps(2) [simp del]

lemma read_exact_length: "read_exact n r = (Inr bs, r') \<Longrightarrow> length bs = n"
proof (induction r arbitrary: n bs r')
  case (Cons c r)
  show ?case
  proof (cases "n = 0")
    case True
    then show ?thesis using Cons.prems by simp
  next
    case False
    show ?thesis
    proof (cases c)
      case (Data d)
      obtain x r1 where x: "read_exact (n - length d) r = (x, r1)" by (cases "read_exact (n - length d) r")
      consider "d = []" | "d \<noteq> []" "n < length d" | "d \<noteq> []" "length d \<le> n" by linarith
      then show ?thesis using Cons False Data x by cases (cases x; auto simp: read_exact_Cons)+
    qed (use Cons False in \<open>auto simp: read_exact_Cons\<close>)
  qed
qed (auto split: if_splits)

text \<open>\<open>r.take(n).read_to_end(buf)\<close>.\<close>

fun take_to_end :: "nat \<Rightarrow> 'e reader \<Rightarrow> ('e io_error + byte list) \<times> 'e reader" where
  "take_to_end n [] = (Inr [], [])"
| "take_to_end n (c # r) =
     (if n = 0 then (Inr [], c # r)
      else case c of
        Interrupted \<Rightarrow> take_to_end n r
      | Fail e \<Rightarrow> (Inl (OsError e), r)
      | Data bs \<Rightarrow>
          if bs = [] then (Inr [], r)
          else if n < length bs then (Inr (take n bs), Data (drop n bs) # r)
          else prepend bs (take_to_end (n - length bs) r))"

text \<open>The bytes a reader delivers before its first error or end.\<close>

fun pending :: "'e reader \<Rightarrow> byte list" where
  "pending [] = []"
| "pending (Interrupted # r) = pending r"
| "pending (Fail e # r) = []"
| "pending (Data bs # r) = (if bs = [] then [] else bs @ pending r)"

section \<open>Writers\<close>

text \<open>The bytes written so far and, for a writer that fails, after how many more bytes and how.\<close>

record 'e sink =
  written :: "byte list"
  fails_after :: "(nat \<times> 'e) option"

fun write_all :: "byte list \<Rightarrow> 'e sink \<Rightarrow> ('e io_error + unit) \<times> 'e sink" where
  "write_all bs w =
     (case fails_after w of
        None \<Rightarrow> (Inr (), w\<lparr>written := written w @ bs\<rparr>)
      | Some (n, e) \<Rightarrow>
          if length bs \<le> n then (Inr (), w\<lparr>written := written w @ bs, fails_after := Some (n - length bs, e)\<rparr>)
          else (Inl (OsError e), w\<lparr>written := written w @ take n bs, fails_after := Some (0, e)\<rparr>))"

declare write_all.simps [simp del]

section \<open>Frames\<close>

definition C_EVENT :: byte where "C_EVENT = 1"
definition C_DETACH :: byte where "C_DETACH = 2"
definition C_RESIZE :: byte where "C_RESIZE = 3"
definition C_KILL :: byte where "C_KILL = 4"
definition C_PING :: byte where "C_PING = 5"
definition C_ATTACH :: byte where "C_ATTACH = 6"
definition S_OUTPUT :: byte where "S_OUTPUT = 0x81"
definition S_DETACHED :: byte where "S_DETACHED = 0x82"
definition S_EXIT :: byte where "S_EXIT = 0x83"
definition S_PONG :: byte where "S_PONG = 0x84"
definition S_VERSION :: byte where "S_VERSION = 0x10"
definition C_HELLO :: byte where "C_HELLO = 0x11"
definition S_INCOMPAT :: byte where "S_INCOMPAT = 0x12"
definition PROTO_MAJOR :: nat where "PROTO_MAJOR = 1"
definition PROTO_MINOR :: nat where "PROTO_MINOR = 0"

definition MAX_PAYLOAD :: nat where "MAX_PAYLOAD = 16 * 1024 * 1024"
definition READ_WINDOW :: nat where "READ_WINDOW = 8 * 1024"
definition GROWTH_WINDOW :: nat where "GROWTH_WINDOW = 64 * 1024"

definition u32_to_be_bytes :: "nat \<Rightarrow> byte list" where
  "u32_to_be_bytes n =
     [of_nat (n div 16777216 mod 256), of_nat (n div 65536 mod 256), of_nat (n div 256 mod 256), of_nat (n mod 256)]"

definition u32_from_be_bytes :: "byte \<Rightarrow> byte \<Rightarrow> byte \<Rightarrow> byte \<Rightarrow> nat" where
  "u32_from_be_bytes a b c d = unat a * 16777216 + unat b * 65536 + unat c * 256 + unat d"

definition write_msg :: "byte \<Rightarrow> byte list \<Rightarrow> 'e sink \<Rightarrow> ('e io_error + unit) \<times> 'e sink" where
  "write_msg tag payload w =
     (if MAX_PAYLOAD < length payload then (Inl InvalidInput, w)
      else case write_all (tag # u32_to_be_bytes (length payload)) w of
        (Inl e, w) \<Rightarrow> (Inl e, w)
      | (Inr _, w) \<Rightarrow> if payload \<noteq> [] then write_all payload w else (Inr (), w))"

text \<open>\<open>read_large_payload\<close>: the payload so far, its final length, and a log of the buffer growth:
  at each allocation the bytes already received and the length of the buffer.\<close>

function read_large_loop ::
  "byte list \<Rightarrow> nat \<Rightarrow> (nat \<times> nat) list \<Rightarrow> 'e reader \<Rightarrow> ('e io_error + byte list) \<times> (nat \<times> nat) list \<times> 'e reader" where
  "read_large_loop payload len grown r =
     (if length payload < len then
        let received = length payload;
            next_len = min (received + GROWTH_WINDOW) len;
            grown = grown @ [(received, next_len)]
        in case read_exact (next_len - received) r of
             (Inl e, r) \<Rightarrow> (Inl e, grown, r)
           | (Inr bs, r) \<Rightarrow> read_large_loop (payload @ bs) len grown r
      else (Inr payload, grown, r))"
  by pat_completeness auto
termination
  by (relation "measure (\<lambda>(payload, len, grown, r). len - length payload)")
    (auto simp: GROWTH_WINDOW_def dest!: sym[of "(Inr _, _)"] read_exact_length)

declare read_large_loop.simps [simp del]

definition read_large_payload :: "nat \<Rightarrow> 'e reader \<Rightarrow> ('e io_error + byte list) \<times> (nat \<times> nat) list \<times> 'e reader" where
  "read_large_payload len r =
     (let grown = [(0, READ_WINDOW)]
      in case read_exact READ_WINDOW r of
           (Inl e, r) \<Rightarrow> (Inl e, grown, r)
         | (Inr payload, r) \<Rightarrow> read_large_loop payload len grown r)"

definition read_msg_limited ::
  "nat \<Rightarrow> 'e reader \<Rightarrow> ('e io_error + byte \<times> byte list) \<times> (nat \<times> nat) list \<times> 'e reader" where
  "read_msg_limited limit r =
     (case read_exact 5 r of
        (Inr [tag, a, b, c, d], r) \<Rightarrow>
          (let len = u32_from_be_bytes a b c d
           in if min limit MAX_PAYLOAD < len then (Inl InvalidData, [], r)
              else if len \<le> READ_WINDOW then
                (case take_to_end len r of
                   (Inl e, r) \<Rightarrow> (Inl e, [(0, len)], r)
                 | (Inr payload, r) \<Rightarrow>
                     if length payload \<noteq> len then (Inl UnexpectedEof, [(0, len)], r)
                     else (Inr (tag, payload), [(0, len)], r))
              else if len \<le> GROWTH_WINDOW then
                (case read_exact len r of
                   (Inl e, r) \<Rightarrow> (Inl e, [(0, len)], r)
                 | (Inr payload, r) \<Rightarrow> (Inr (tag, payload), [(0, len)], r))
              else
                (case read_large_payload len r of
                   (Inl e, grown, r) \<Rightarrow> (Inl e, grown, r)
                 | (Inr payload, grown, r) \<Rightarrow> (Inr (tag, payload), grown, r)))
      | (Inr _, r) \<Rightarrow> (Inl OtherError, [], r)
      | (Inl e, r) \<Rightarrow> (Inl e, [], r))"

definition read_msg :: "'e reader \<Rightarrow> ('e io_error + byte \<times> byte list) \<times> 'e reader" where
  "read_msg r = (case read_msg_limited MAX_PAYLOAD r of (x, _, r) \<Rightarrow> (x, r))"

definition u16_to_be_bytes :: "nat \<Rightarrow> byte list" where
  "u16_to_be_bytes n = [of_nat (n div 256 mod 256), of_nat (n mod 256)]"

definition encode_resize :: "nat \<Rightarrow> nat \<Rightarrow> byte list" where
  "encode_resize cols rows = u16_to_be_bytes cols @ u16_to_be_bytes rows"

definition decode_resize :: "byte list \<Rightarrow> (nat \<times> nat) option" where
  "decode_resize payload =
     (case payload of
        [a, b, c, d] \<Rightarrow> Some (unat a * 256 + unat b, unat c * 256 + unat d)
      | _ \<Rightarrow> None)"

definition normalize_size :: "nat \<Rightarrow> nat \<Rightarrow> nat \<times> nat" where
  "normalize_size cols rows = (clamp_nat 1 1000 cols, clamp_nat 1 500 rows)"

datatype FirstByteKind = Tag | LegacyJson | Unknown

definition classify_first_byte :: "byte \<Rightarrow> FirstByteKind" where
  "classify_first_byte b =
     (if b = 0x20 \<or> b = 0x09 \<or> b = 0x0D \<or> b = 0x0A then LegacyJson
      else if b \<le> 0x20 then Tag
      else if b = 0x7B \<or> b = 0x5B then LegacyJson
      else Unknown)"

section \<open>Reading exactly\<close>

text \<open>Reading in two steps is reading in one.\<close>

definition then_exact :: "nat \<Rightarrow> ('e io_error + byte list) \<times> 'e reader \<Rightarrow> ('e io_error + byte list) \<times> 'e reader" where
  "then_exact n x = (case x of (Inl e, r) \<Rightarrow> (Inl e, r) | (Inr xs, r) \<Rightarrow> prepend xs (read_exact n r))"

lemma then_exact_simps [simp]:
  "then_exact n (Inl e, r) = (Inl e, r)" "then_exact n (Inr xs, r) = prepend xs (read_exact n r)"
  "then_exact 0 x = x"
  by (simp_all add: then_exact_def split: prod.split sum.split)

lemma then_exact_prepend: "then_exact n (prepend bs x) = prepend bs (then_exact n x)"
  by (cases x; cases "fst x") auto

lemma read_exact_add: "read_exact (m + n) r = then_exact n (read_exact m r)"
proof (induction r arbitrary: m)
  case (Cons c r)
  consider "m = 0" | "n = 0" | "0 < m" "0 < n" by auto
  then show ?case
  proof cases
    case 3
    show ?thesis
    proof (cases c)
      case (Data bs)
      consider (stop) "bs = []" | (short) "bs \<noteq> []" "m + n < length bs" | (mid) "bs \<noteq> []" "m < length bs" "length bs \<le> m + n"
        | (long) "bs \<noteq> []" "length bs \<le> m" by linarith
      then show ?thesis
      proof cases
        case mid
        have "m + n - length bs = n - (length bs - m)" using mid by simp
        then show ?thesis using mid 3 Data by (simp add: read_exact_Cons)
      next
        case long
        have "m + n - length bs = (m - length bs) + n" using long by simp
        then show ?thesis using long 3 Data Cons.IH[of "m - length bs"]
          by (simp add: read_exact_Cons then_exact_prepend)
      qed (use 3 Data in \<open>simp_all add: take_add read_exact_Cons ac_simps\<close>)
    qed (use 3 Cons.IH[of m] in \<open>simp_all add: read_exact_Cons\<close>)
  qed simp_all
qed (simp add: then_exact_def)

text \<open>What the reader delivers decides what is read; the rest stays in the reader.\<close>

lemma read_exact_pending:
  "n \<le> length (pending r) \<Longrightarrow>
     \<exists>r'. read_exact n r = (Inr (take n (pending r)), r') \<and> pending r' = drop n (pending r)"
proof (induction r arbitrary: n)
  case (Cons c r)
  show ?case
  proof (cases "n = 0")
    case False
    show ?thesis
    proof (cases c)
      case (Data bs)
      with Cons.prems False have ne: "bs \<noteq> []" by auto
      show ?thesis
      proof (cases "n < length bs")
        case True
        then show ?thesis using False Data ne by (auto simp: read_exact_Cons)
      next
        case ge: False
        have "n - length bs \<le> length (pending r)" using Cons.prems Data ne by simp
        then obtain r' where "read_exact (n - length bs) r = (Inr (take (n - length bs) (pending r)), r')"
          "pending r' = drop (n - length bs) (pending r)"
          using Cons.IH by blast
        then show ?thesis using False Data ne ge by (simp add: read_exact_Cons)
      qed
    qed (use Cons False in \<open>auto simp: read_exact_Cons\<close>)
  qed simp
qed simp

lemma read_exact_short:
  "length (pending r) < n \<Longrightarrow> \<exists>e r'. read_exact n r = (Inl e, r')"
proof (induction r arbitrary: n)
  case (Cons c r)
  have n: "0 < n" using Cons.prems by simp
  show ?case
  proof (cases c)
    case (Data bs)
    show ?thesis
    proof (cases "bs = []")
      case False
      then have "length (pending r) < n - length bs" using Cons.prems Data by simp
      then obtain e r' where "read_exact (n - length bs) r = (Inl e, r')"
        using Cons.IH by blast
      then show ?thesis using n Data False Cons.prems by (auto simp: read_exact_Cons)
    qed (use n Data in \<open>simp add: read_exact_Cons\<close>)
  qed (use n Cons in \<open>auto simp: read_exact_Cons\<close>)
qed simp

text \<open>\<open>read_to_end\<close> behind \<open>Take\<close>, with the check of the length, is \<open>read_exact\<close>.\<close>

lemma take_to_end_Cons:
  "take_to_end 0 r = (Inr [], r)"
  "0 < n \<Longrightarrow> take_to_end n (Interrupted # r) = take_to_end n r"
  "0 < n \<Longrightarrow> take_to_end n (Fail e # r) = (Inl (OsError e), r)"
  "0 < n \<Longrightarrow> take_to_end n (Data [] # r) = (Inr [], r)"
  "0 < n \<Longrightarrow> n < length bs \<Longrightarrow> take_to_end n (Data bs # r) = (Inr (take n bs), Data (drop n bs) # r)"
  "0 < n \<Longrightarrow> bs \<noteq> [] \<Longrightarrow> length bs \<le> n \<Longrightarrow> take_to_end n (Data bs # r) = prepend bs (take_to_end (n - length bs) r)"
  by (cases r; auto)+

declare take_to_end.simps(2) [simp del]

definition checked :: "nat \<Rightarrow> ('e io_error + byte list) \<times> 'e reader \<Rightarrow> ('e io_error + byte list) \<times> 'e reader" where
  "checked n x =
     (case x of (Inl e, r) \<Rightarrow> (Inl e, r)
      | (Inr payload, r) \<Rightarrow> if length payload \<noteq> n then (Inl UnexpectedEof, r) else (Inr payload, r))"

lemma checked_prepend: "length bs \<le> n \<Longrightarrow> checked n (prepend bs x) = prepend bs (checked (n - length bs) x)"
  by (cases x; cases "fst x") (auto simp: checked_def)

lemma take_to_end_exact: "checked n (take_to_end n r) = read_exact n r"
proof (induction r arbitrary: n)
  case (Cons c r)
  show ?case
  proof (cases "n = 0")
    case False
    show ?thesis
    proof (cases c)
      case (Data bs)
      consider "bs = []" | "bs \<noteq> []" "n < length bs" | "bs \<noteq> []" "length bs \<le> n" by linarith
      then show ?thesis
        using False Data Cons.IH[of "n - length bs"]
        by cases (auto simp: take_to_end_Cons read_exact_Cons checked_prepend, auto simp: checked_def)
    qed (use Cons.IH[of n] False in \<open>auto simp: take_to_end_Cons read_exact_Cons checked_def\<close>)
  qed (simp add: take_to_end_Cons checked_def)
qed (simp add: checked_def)

section \<open>One way of reading\<close>

text \<open>One round of the loop.\<close>

definition next_len :: "byte list \<Rightarrow> nat \<Rightarrow> nat" where
  "next_len payload len = min (length payload + GROWTH_WINDOW) len"

lemma read_large_loop_stop:
  "len \<le> length payload \<Longrightarrow> read_large_loop payload len grown r = (Inr payload, grown, r)"
  by (subst read_large_loop.simps) simp

lemma read_large_loop_err:
  "length payload < len \<Longrightarrow> read_exact (next_len payload len - length payload) r = (Inl e, r1) \<Longrightarrow>
     read_large_loop payload len grown r = (Inl e, grown @ [(length payload, next_len payload len)], r1)"
  by (subst read_large_loop.simps) (simp add: next_len_def Let_def)

lemma read_large_loop_ok:
  "length payload < len \<Longrightarrow> read_exact (next_len payload len - length payload) r = (Inr bs, r1) \<Longrightarrow>
     read_large_loop payload len grown r =
     read_large_loop (payload @ bs) len (grown @ [(length payload, next_len payload len)]) r1"
  by (subst read_large_loop.simps) (simp add: next_len_def Let_def)

lemma next_len_bounds:
  "length payload < len \<Longrightarrow> length payload < next_len payload len \<and> next_len payload len \<le> len \<and>
     next_len payload len \<le> length payload + GROWTH_WINDOW"
  by (simp add: next_len_def GROWTH_WINDOW_def)

text \<open>A rule of induction for the loop: it stops, fails, or goes on with more bytes.\<close>

lemma read_large_loop_cases [consumes 1, case_names stop err ok]:
  assumes "read_large_loop payload len grown r = (x, l, r')"
    and "\<And>payload grown r. len \<le> length payload \<Longrightarrow> P payload grown r (Inr payload) grown r"
    and "\<And>payload grown r e r1. length payload < len \<Longrightarrow>
      read_exact (next_len payload len - length payload) r = (Inl e, r1) \<Longrightarrow>
      P payload grown r (Inl e) (grown @ [(length payload, next_len payload len)]) r1"
    and "\<And>payload grown r bs r1 x l r'. length payload < len \<Longrightarrow>
      read_exact (next_len payload len - length payload) r = (Inr bs, r1) \<Longrightarrow>
      length (payload @ bs) = next_len payload len \<Longrightarrow>
      P (payload @ bs) (grown @ [(length payload, next_len payload len)]) r1 x l r' \<Longrightarrow> P payload grown r x l r'"
  shows "P payload grown r x l r'"
  using assms(1)
proof (induction "len - length payload" arbitrary: payload grown r x l r' rule: less_induct)
  case less
  show ?case
  proof (cases "length payload < len")
    case True
    obtain y r1 where y: "read_exact (next_len payload len - length payload) r = (y, r1)"
      by (cases "read_exact (next_len payload len - length payload) r")
    show ?thesis
    proof (cases y)
      case (Inl e)
      then have "x = Inl e" "l = grown @ [(length payload, next_len payload len)]" "r' = r1"
        using less.prems read_large_loop_err[OF True, of r e r1 grown] y by simp_all
      then show ?thesis using assms(3)[OF True, of r e r1 grown] y Inl by simp
    next
      case (Inr bs)
      have lb: "length (payload @ bs) = next_len payload len"
        using read_exact_length[of _ r bs r1] y Inr next_len_bounds[OF True] by simp
      have "P (payload @ bs) (grown @ [(length payload, next_len payload len)]) r1 x l r'"
        by (rule less.hyps) (use lb next_len_bounds[OF True] less.prems read_large_loop_ok[OF True, of r bs r1] y Inr True in auto)
      then show ?thesis using assms(4)[OF True _ lb] y Inr by blast
    qed
  qed (use assms(2)[of payload] less.prems read_large_loop_stop[of len payload grown r] in auto)
qed

text \<open>The growing buffer of a large payload reads what one \<open>read_exact\<close> would.\<close>

lemma read_large_loop_exact:
  assumes "read_large_loop payload len grown r = (x, l, r')" "length payload \<le> len"
  shows "(x, r') = prepend payload (read_exact (len - length payload) r)"
  using assms
proof (induction rule: read_large_loop_cases)
  case (err payload grown r e r1)
  have "len - length payload = (next_len payload len - length payload) + (len - next_len payload len)"
    using next_len_bounds[OF err(1)] by simp
  then have "read_exact (len - length payload) r = (Inl e, r1)"
    using err(2) by (simp only: read_exact_add then_exact_simps)
  then show ?case by simp
next
  case (ok payload grown r bs r1 x l r')
  have "len - length payload = (next_len payload len - length payload) + (len - next_len payload len)"
    using next_len_bounds[OF ok(1)] by simp
  then have "read_exact (len - length payload) r = prepend bs (read_exact (len - next_len payload len) r1)"
    using ok(2) by (simp only: read_exact_add then_exact_simps)
  moreover have "(x, r') = prepend (payload @ bs) (read_exact (len - next_len payload len) r1)"
    using ok(3,4) next_len_bounds[OF ok(1)] by simp
  ultimately show ?case by simp
qed simp

lemma read_large_payload_exact:
  "READ_WINDOW \<le> len \<Longrightarrow> read_large_payload len r = (x, l, r') \<Longrightarrow> (x, r') = read_exact len r"
proof -
  assume a: "READ_WINDOW \<le> len" "read_large_payload len r = (x, l, r')"
  obtain y r1 where y: "read_exact READ_WINDOW r = (y, r1)" by (cases "read_exact READ_WINDOW r")
  have e: "read_exact len r = then_exact (len - READ_WINDOW) (y, r1)"
    using read_exact_add[of READ_WINDOW "len - READ_WINDOW" r] a(1) y by simp
  show ?thesis
  proof (cases y)
    case (Inr bs)
    have "read_large_loop bs len [(0, READ_WINDOW)] r1 = (x, l, r')"
      using a(2) y Inr by (simp add: read_large_payload_def Let_def)
    moreover have "length bs = READ_WINDOW" using read_exact_length y Inr by blast
    ultimately show ?thesis using read_large_loop_exact[of bs len _ r1 x l r'] a(1) e Inr by simp
  next
    case (Inl z)
    then have "x = Inl z" "r' = r1" using a(2) y by (simp_all add: read_large_payload_def Let_def)
    then show ?thesis using e Inl by simp
  qed
qed

text \<open>Buffers grow only as bytes arrive.\<close>

definition grows_with :: "nat \<Rightarrow> (nat \<times> nat) list \<Rightarrow> bool" where
  "grows_with n l \<longleftrightarrow> list_all (\<lambda>(received, reserved). received \<le> n \<and> reserved \<le> received + GROWTH_WINDOW) l"

lemma pending_read_exact:
  "read_exact n r = (Inr bs, r') \<Longrightarrow> length (pending r) = n + length (pending r')"
  by (cases "n \<le> length (pending r)") (use read_exact_pending[of n r] read_exact_short[of r n] in auto)

lemma read_large_loop_grows:
  assumes "read_large_loop payload len grown r = (x, l, r')"
    "grows_with (length payload + length (pending r)) grown"
  shows "grows_with (length payload + length (pending r)) l"
  using assms
proof (induction rule: read_large_loop_cases)
  case (err payload grown r e r1)
  then show ?case using next_len_bounds[OF err(1)] by (simp add: grows_with_def)
next
  case (ok payload grown r bs r1 x l r')
  have "length (payload @ bs) + length (pending r1) = length payload + length (pending r)"
    using pending_read_exact[OF ok(2)] ok(3) next_len_bounds[OF ok(1)] by simp
  moreover have "grows_with (length payload + length (pending r)) (grown @ [(length payload, next_len payload len)])"
    using ok(5) next_len_bounds[OF ok(1)] by (simp add: grows_with_def)
  ultimately show ?case using ok(4) by (simp only: simp_thms)
qed simp

lemma read_large_payload_grows:
  assumes "read_large_payload len r = (x, l, r')"
  shows "grows_with (length (pending r)) l"
proof -
  have z: "grows_with n [(0, READ_WINDOW)]" for n
    by (simp add: grows_with_def READ_WINDOW_def GROWTH_WINDOW_def)
  obtain y r1 where y: "read_exact READ_WINDOW r = (y, r1)" by (cases "read_exact READ_WINDOW r")
  show ?thesis
  proof (cases y)
    case (Inr bs)
    then show ?thesis
      using assms z read_large_loop_grows[of bs len "[(0, READ_WINDOW)]" r1 x l r'] y
        pending_read_exact[of READ_WINDOW r bs r1] read_exact_length[of READ_WINDOW r bs r1]
      by (simp add: read_large_payload_def Let_def)
  qed (use assms y z in \<open>simp add: read_large_payload_def Let_def\<close>)
qed

section \<open>The contract of a byte source\<close>

text \<open>What framing needs of a reader: a pull that is covered by the bytes under way returns them
  and leaves the rest, a pull that is not fails.\<close>

locale byte_source =
  fixes pull :: "nat \<Rightarrow> 'r \<Rightarrow> ('e io_error + byte list) \<times> 'r"
    and underway :: "'r \<Rightarrow> byte list"
  assumes pull_enough: "n \<le> length (underway r) \<Longrightarrow>
      \<exists>r'. pull n r = (Inr (take n (underway r)), r') \<and> underway r' = drop n (underway r)"
    and pull_short: "length (underway r) < n \<Longrightarrow> \<exists>e r'. pull n r = (Inl e, r')"
begin

lemma pull_prefix:
  assumes "underway r = xs @ ys"
  obtains r' where "pull (length xs) r = (Inr xs, r')" "underway r' = ys"
  using pull_enough[of "length xs" r] assms by auto

lemma pull_Inr_iff: "(\<exists>bs r'. pull n r = (Inr bs, r')) \<longleftrightarrow> n \<le> length (underway r)"
  using pull_enough[of n r] pull_short[of r n] by (cases "n \<le> length (underway r)") auto

text \<open>A header, then a payload whose length the header tells.\<close>

lemma pull_header_payload:
  assumes "underway r = h @ p @ rest"
  obtains r1 r2 where "pull (length h) r = (Inr h, r1)" "pull (length p) r1 = (Inr p, r2)" "underway r2 = rest"
proof -
  obtain r1 where r1: "pull (length h) r = (Inr h, r1)" "underway r1 = p @ rest"
    using pull_prefix[OF assms] by blast
  moreover obtain r2 where "pull (length p) r1 = (Inr p, r2)" "underway r2 = rest"
    using pull_prefix[OF r1(2)] by blast
  ultimately show thesis using that by blast
qed

end

interpretation chunked: byte_source read_exact pending
  by unfold_locales (use read_exact_pending read_exact_short in blast)+

section \<open>Frames over any chunking\<close>

definition read_frame :: "nat \<Rightarrow> 'e reader \<Rightarrow> ('e io_error + byte \<times> byte list) \<times> 'e reader" where
  "read_frame limit r =
     (case read_exact 5 r of
        (Inl e, r) \<Rightarrow> (Inl e, r)
      | (Inr h, r) \<Rightarrow>
          (let len = u32_from_be_bytes (h ! 1) (h ! 2) (h ! 3) (h ! 4)
           in if min limit MAX_PAYLOAD < len then (Inl InvalidData, r)
              else case read_exact len r of
                (Inl e, r) \<Rightarrow> (Inl e, r)
              | (Inr payload, r) \<Rightarrow> (Inr (h ! 0, payload), r)))"

lemma length_5: "length h = 5 \<Longrightarrow> \<exists>a b c d e. h = [a, b, c, d, e]"
  by (auto simp: length_Suc_conv numeral_eq_Suc)

lemma read_msg_limited_split:
  assumes "read_msg_limited limit r = (x, l, r')"
  shows "(x, r') = read_frame limit r \<and> grows_with (length (pending r)) l"
proof (cases "read_exact 5 r")
  case (Pair y r1)
  show ?thesis
  proof (cases y)
    case (Inl e)
    then show ?thesis using assms Pair by (simp add: read_msg_limited_def read_frame_def grows_with_def)
  next
    case (Inr h)
    have "length h = 5" using read_exact_length Pair Inr by blast
    then obtain t a b c d where h: "h = [t, a, b, c, d]" using length_5 by blast
    define len where "len = u32_from_be_bytes a b c d"
    have head: "read_exact 5 r = (Inr [t, a, b, c, d], r1)" using Pair Inr h by simp
    have p: "length (pending r1) \<le> length (pending r)" using pending_read_exact[OF head] by simp
    consider (big) "min limit MAX_PAYLOAD < len"
      | (small) "\<not> min limit MAX_PAYLOAD < len" "len \<le> READ_WINDOW"
      | (medium) "\<not> min limit MAX_PAYLOAD < len" "\<not> len \<le> READ_WINDOW" "len \<le> GROWTH_WINDOW"
      | (large) "\<not> min limit MAX_PAYLOAD < len" "\<not> len \<le> READ_WINDOW" "\<not> len \<le> GROWTH_WINDOW"
      by blast
    then show ?thesis
    proof cases
      case big
      then show ?thesis using assms head
        by (simp add: read_msg_limited_def read_frame_def len_def[symmetric] grows_with_def)
    next
      case small
      obtain z r2 where z: "take_to_end len r1 = (z, r2)" by (cases "take_to_end len r1")
      have "read_exact len r1 = checked len (z, r2)" using take_to_end_exact[of len r1] z by simp
      moreover have "len \<le> GROWTH_WINDOW" using small by (simp add: READ_WINDOW_def GROWTH_WINDOW_def)
      ultimately show ?thesis using assms head small z
        by (cases z) (auto simp: read_msg_limited_def read_frame_def len_def[symmetric] grows_with_def
            checked_def split: if_splits)
    next
      case medium
      obtain z r2 where z: "read_exact len r1 = (z, r2)" by (cases "read_exact len r1")
      show ?thesis using assms head medium z
        by (cases z) (auto simp: read_msg_limited_def read_frame_def len_def[symmetric] grows_with_def)
    next
      case large
      obtain z l2 r2 where z: "read_large_payload len r1 = (z, l2, r2)" by (cases "read_large_payload len r1") auto
      have "READ_WINDOW \<le> len" using large by simp
      then have e: "read_exact len r1 = (z, r2)" using read_large_payload_exact[OF _ z] by simp
      have g: "grows_with (length (pending r)) l2"
        using read_large_payload_grows[OF z] p by (auto simp: grows_with_def list_all_iff)
      show ?thesis using assms head large z e g
        by (cases z) (auto simp: read_msg_limited_def read_frame_def len_def[symmetric])
    qed
  qed
qed

lemma u32_roundtrip:
  assumes "n < 4294967296" "u32_to_be_bytes n = [a, b, c, d]"
  shows "u32_from_be_bytes a b c d = n"
proof -
  have m: "k mod 256 < 256" for k :: nat by simp
  have "n div 256 div 256 div 256 < 256" using assms(1) by (simp add: div_mult2_eq[symmetric] less_mult_imp_div_less)
  then have q: "n div 16777216 < 256" by (simp add: div_mult2_eq[symmetric])
  then have t: "n div 16777216 mod 256 = n div 16777216" by (simp add: div_mult2_eq[symmetric])
  have "n div 16777216 * 256 + n div 65536 mod 256 = n div 65536"
    using div_mult_mod_eq[of "n div 65536" 256] by (simp add: div_mult2_eq[symmetric])
  moreover have "n div 65536 * 256 + n div 256 mod 256 = n div 256"
    using div_mult_mod_eq[of "n div 256" 256] by (simp add: div_mult2_eq[symmetric])
  moreover have "n div 256 * 256 + n mod 256 = n" by simp
  ultimately have "((n div 16777216 * 256 + n div 65536 mod 256) * 256 + n div 256 mod 256) * 256 + n mod 256 = n"
    by simp
  then show ?thesis using assms(2) m t q
    by (auto simp: u32_to_be_bytes_def u32_from_be_bytes_def algebra_simps)
qed

definition frame :: "byte \<Rightarrow> byte list \<Rightarrow> byte list" where
  "frame tag payload = tag # u32_to_be_bytes (length payload) @ payload"

lemma read_frame_frame:
  assumes "length payload \<le> min limit MAX_PAYLOAD" "pending r = frame tag payload @ rest"
  obtains r' where "read_frame limit r = (Inr (tag, payload), r')" "pending r' = rest"
proof -
  obtain a b c d where h: "u32_to_be_bytes (length payload) = [a, b, c, d]" by (simp add: u32_to_be_bytes_def)
  have len: "u32_from_be_bytes a b c d = length payload"
    by (rule u32_roundtrip[OF _ h]) (use assms(1) in \<open>simp add: MAX_PAYLOAD_def\<close>)
  have "pending r = [tag, a, b, c, d] @ payload @ rest" using assms(2) by (simp add: frame_def h)
  then obtain r1 r2 where r: "read_exact (length [tag, a, b, c, d]) r = (Inr [tag, a, b, c, d], r1)"
    "read_exact (length payload) r1 = (Inr payload, r2)" "pending r2 = rest"
    by (rule chunked.pull_header_payload)
  then have "read_exact 5 r = (Inr [tag, a, b, c, d], r1)" by (simp add: eval_nat_numeral)
  note r = this r(2,3)
  then show thesis using that[of r2] assms(1) by (simp add: read_frame_def len numeral_eq_Suc)
qed

lemma write_msg_frame:
  assumes "length payload \<le> MAX_PAYLOAD" "fails_after w = None"
  shows "write_msg tag payload w = (Inr (), w\<lparr>written := written w @ frame tag payload\<rparr>)"
  using assms by (simp add: write_msg_def write_all.simps frame_def)

text \<open>Sending and receiving several messages.\<close>

fun send_all :: "(byte \<times> byte list) list \<Rightarrow> 'e sink \<Rightarrow> ('e io_error + unit) \<times> 'e sink" where
  "send_all [] w = (Inr (), w)"
| "send_all ((tag, payload) # ms) w =
     (case write_msg tag payload w of (Inl e, w) \<Rightarrow> (Inl e, w) | (Inr _, w) \<Rightarrow> send_all ms w)"

fun receive :: "nat \<Rightarrow> 'e reader \<Rightarrow> ('e io_error + (byte \<times> byte list) list) \<times> 'e reader" where
  "receive 0 r = (Inr [], r)"
| "receive (Suc n) r =
     (case read_msg r of
        (Inl e, r) \<Rightarrow> (Inl e, r)
      | (Inr m, r) \<Rightarrow> (case receive n r of (Inl e, r) \<Rightarrow> (Inl e, r) | (Inr ms, r) \<Rightarrow> (Inr (m # ms), r)))"

lemma read_msg_frame: "read_msg r = read_frame MAX_PAYLOAD r"
  using read_msg_limited_split[of MAX_PAYLOAD r]
  by (cases "read_msg_limited MAX_PAYLOAD r") (simp add: read_msg_def)

lemma send_all_written:
  "list_all (\<lambda>(tag, payload). length payload \<le> MAX_PAYLOAD) ms \<Longrightarrow> fails_after w = None \<Longrightarrow>
     send_all ms w = (Inr (), w\<lparr>written := written w @ concat (map (\<lambda>(tag, payload). frame tag payload) ms)\<rparr>)"
  by (induction ms arbitrary: w) (auto simp: write_msg_frame)

lemma receive_frames:
  "list_all (\<lambda>(tag, payload). length payload \<le> MAX_PAYLOAD) ms \<Longrightarrow>
     pending r = concat (map (\<lambda>(tag, payload). frame tag payload) ms) @ rest \<Longrightarrow>
     \<exists>r'. receive (length ms) r = (Inr ms, r') \<and> pending r' = rest"
proof (induction ms arbitrary: r)
  case (Cons m ms)
  obtain tag payload where m: "m = (tag, payload)" by (cases m)
  obtain r1 where "read_frame MAX_PAYLOAD r = (Inr (tag, payload), r1)"
    "pending r1 = concat (map (\<lambda>(tag, payload). frame tag payload) ms) @ rest"
    using read_frame_frame[of payload MAX_PAYLOAD r tag] Cons.prems m by auto
  then show ?case using Cons.IH[of r1] Cons.prems m by (auto simp: read_msg_frame)
qed simp

section \<open>Properties\<close>

text \<open>C18. The three reading strategies are one. Whatever a reader delivers, in chunks of any size,
  with interrupted calls, errors or an early end, \<open>read_msg_limited\<close> has the result and leaves the
  reader of the plain procedure: read the header, refuse a length above the limit, read the
  payload.\<close>

theorem read_msg_one_way:
  "case read_msg_limited limit r of (x, _, r') \<Rightarrow> (x, r') = read_frame limit r"
  using read_msg_limited_split[of limit r] by (auto split: prod.split)

text \<open>A frame cannot make its reader allocate ahead of the data: at every allocation the buffer
  is at most 64 KiB longer than what has been received, however long the header says the
  payload is, and what has been received is no more than what the peer sent.\<close>

theorem read_msg_memory:
  "case read_msg_limited limit r of (_, allocations, _) \<Rightarrow>
     list_all (\<lambda>(received, reserved). received \<le> length (pending r) \<and> reserved \<le> received + 65536) allocations"
  using read_msg_limited_split[of limit r] by (auto simp: grows_with_def GROWTH_WINDOW_def split: prod.split)

text \<open>C17. Messages survive the wire. Whatever the messages up to the payload limit, and however the
  socket cuts their bytes into chunks and interrupts the calls, receiving as many messages as
  were sent gives exactly those messages, and the bytes behind them stay in the reader.\<close>

theorem frames_roundtrip:
  assumes "list_all (\<lambda>(tag, payload). length payload \<le> MAX_PAYLOAD) ms"
  shows "\<exists>w. send_all ms (\<lparr>written = [], fails_after = None\<rparr> :: 'e sink) = (Inr (), w) \<and>
    (\<forall>(r :: 'e reader) rest. pending r = written w @ rest \<longrightarrow>
       (\<exists>r'. receive (length ms) r = (Inr ms, r') \<and> pending r' = rest))"
proof -
  define w :: "'e sink" where "w = \<lparr>written = concat (map (\<lambda>(tag, payload). frame tag payload) ms), fails_after = None\<rparr>"
  have "send_all ms \<lparr>written = [], fails_after = None\<rparr> = (Inr (), w)"
    using send_all_written[OF assms, of "\<lparr>written = [], fails_after = None\<rparr>"] by (simp add: w_def)
  moreover have "\<exists>r'. receive (length ms) r = (Inr ms, r') \<and> pending r' = rest" if "pending r = written w @ rest" for r :: "'e reader" and rest
    using receive_frames[OF assms, of r rest] that by (simp add: w_def)
  ultimately show ?thesis by blast
qed

theorem frames_roundtrip_witness:
  "\<exists>w r'. send_all [(3, [0, 80, 0, 24]), (5, [])] (\<lparr>written = [], fails_after = None\<rparr> :: nat sink) = (Inr (), w) \<and>
     written w = [3, 0, 0, 0, 4, 0, 80, 0, 24, 5, 0, 0, 0, 0] \<and>
     receive 2 [Data [3, 0], Interrupted, Data [0, 0, 4, 0, 80], Data [0, 24, 5, 0, 0, 0], Interrupted, Data [0, 9] :: nat chunk] =
       (Inr [(3, [0, 80, 0, 24]), (5, [])], r') \<and> pending r' = [9]"
proof -
  let ?ms = "[(3, [0, 80, 0, 24]), (5, [])] :: (byte \<times> byte list) list"
  let ?r = "[Data [3, 0], Interrupted, Data [0, 0, 4, 0, 80], Data [0, 24, 5, 0, 0, 0], Interrupted, Data [0, 9]] :: nat reader"
  have ok: "list_all (\<lambda>(tag, payload). length payload \<le> MAX_PAYLOAD) ?ms" by (simp add: MAX_PAYLOAD_def)
  obtain w where w: "send_all ?ms \<lparr>written = [], fails_after = None :: (nat \<times> nat) option\<rparr> = (Inr (), w)"
    "\<forall>(r :: nat reader) rest. pending r = written w @ rest \<longrightarrow> (\<exists>r'. receive (length ?ms) r = (Inr ?ms, r') \<and> pending r' = rest)"
    using frames_roundtrip[OF ok, where 'e = nat] by blast
  have ww: "written w = [3, 0, 0, 0, 4, 0, 80, 0, 24, 5, 0, 0, 0, 0]"
    using send_all_written[OF ok, of "\<lparr>written = [], fails_after = None :: (nat \<times> nat) option\<rparr>"] w(1)
    by (auto simp: frame_def u32_to_be_bytes_def simp del: send_all.simps)
  have "pending ?r = written w @ [9]" by (simp add: ww)
  then obtain r' where "receive (length ?ms) ?r = (Inr ?ms, r')" "pending r' = [9]" using w(2) by blast
  then show ?thesis using w(1) ww
    by (auto simp: numeral_2_eq_2 simp del: receive.simps send_all.simps)
qed

lemma resize_roundtrip:
  "c \<le> u16_max \<Longrightarrow> r \<le> u16_max \<Longrightarrow> decode_resize (encode_resize c r) = Some (c, r)"
  by (simp add: decode_resize_def encode_resize_def u16_to_be_bytes_def less_mult_imp_div_less)

lemma normalize_size_bounds:
  "normalize_size c r = (c', r') \<Longrightarrow> 1 \<le> c' \<and> c' \<le> 1000 \<and> 1 \<le> r' \<and> r' \<le> 500"
  using clamp_nat_bounds[of 1 1000 c] clamp_nat_bounds[of 1 500 r] by (auto simp: normalize_size_def)

end
