(* ===== verification/Handshake.thy ===== *)
theory Handshake
  imports Wire
begin

text \<open>
  Version negotiation: the client's side in \<open>src/src/protocol.rs\<close> (\<open>client_handshake\<close>) and the
  server's in \<open>src/src/server/handshake.rs\<close> (\<open>negotiate\<close>). JSON is the crate \<open>serde_json\<close>: its
  encoders and decoders are a parameter, a \<open>codec\<close>, of which the properties use that decoding
  inverts encoding. A socket is a reader and a sink; its deadline shows as an error of the
  reader. Threads, the accept loop and the limit on pending handshakes are not modelled.
\<close>

section \<open>Messages\<close>

datatype AttachMode = Steal | Shared | Readonly

record AttachRequest =
  req_cols :: nat
  req_rows :: nat
  req_mode :: AttachMode

record ServerHello =
  sh_major :: nat
  sh_minor :: nat
  sh_build :: ustr

record ClientHello =
  ch_major :: nat
  ch_minor :: nat
  ch_build :: ustr
  ch_features :: "ustr list"

record IncompatNotice =
  server_proto :: ustr
  client_proto :: ustr
  notice_message :: ustr

record codec =
  enc_server_hello :: "ServerHello \<Rightarrow> byte list"
  dec_server_hello :: "byte list \<Rightarrow> ServerHello option"
  enc_client_hello :: "ClientHello \<Rightarrow> byte list"
  dec_client_hello :: "byte list \<Rightarrow> ClientHello option"
  enc_incompat :: "IncompatNotice \<Rightarrow> byte list"
  dec_incompat :: "byte list \<Rightarrow> IncompatNotice option"
  dec_attach :: "byte list \<Rightarrow> AttachRequest option"

definition CARGO_PKG_VERSION :: ustr where "CARGO_PKG_VERSION = ascii ''0.14.0''"

definition CLIENT_FEATURES :: "ustr list" where
  "CLIENT_FEATURES = [ascii ''scrollback-v3'', ascii ''kitty-kbd-stack'', ascii ''osc-52-confirm'']"

definition build_string :: "ustr option \<Rightarrow> ustr" where
  "build_string revision =
     (case revision of
        Some sha \<Rightarrow>
          if sha \<noteq> [] then ascii ''ezpn '' @ CARGO_PKG_VERSION @ ascii '' (rev '' @ sha @ ascii '')''
          else ascii ''ezpn '' @ CARGO_PKG_VERSION @ ascii '' (rev unknown)''
      | None \<Rightarrow> ascii ''ezpn '' @ CARGO_PKG_VERSION @ ascii '' (rev unknown)'')"

definition version_text :: "nat \<Rightarrow> nat \<Rightarrow> ustr" where
  "version_text major minor = decimal major @ ascii ''.'' @ decimal minor"

text \<open>Writing to a \<open>Vec<u8>\<close> does not fail.\<close>

definition frame_bytes :: "byte \<Rightarrow> byte list \<Rightarrow> byte list" where
  "frame_bytes tag payload = written (snd (write_msg tag payload (\<lparr>written = [], fails_after = None\<rparr> :: unit sink)))"

definition server_hello :: "codec \<Rightarrow> byte list" where
  "server_hello cd = frame_bytes S_VERSION
     (enc_server_hello cd \<lparr>sh_major = PROTO_MAJOR, sh_minor = PROTO_MINOR, sh_build = build_string None\<rparr>)"

definition encode_incompat :: "codec \<Rightarrow> IncompatNotice \<Rightarrow> byte list" where
  "encode_incompat cd notice = frame_bytes S_INCOMPAT (enc_incompat cd notice)"

definition incompat_for_major_mismatch :: "codec \<Rightarrow> ClientHello \<Rightarrow> ustr \<Rightarrow> byte list" where
  "incompat_for_major_mismatch cd client session =
     (let sp = version_text PROTO_MAJOR PROTO_MINOR;
          cp = version_text (ch_major client) (ch_minor client);
          msg = ascii ''client v'' @ cp @ ascii '' cannot attach to server v'' @ sp @ [32, 0x2014, 32] @
            ascii ''restart the daemon with '' @ [39] @ ascii ''ezpn kill '' @ session @ [39] @ ascii '' to upgrade.''
      in encode_incompat cd \<lparr>server_proto = sp, client_proto = cp, notice_message = msg\<rparr>)"

definition incompat_for_legacy_client :: "codec \<Rightarrow> ustr \<Rightarrow> byte list" where
  "incompat_for_legacy_client cd session =
     (let msg = ascii ''legacy client detected (no version handshake) '' @ [0x2014] @
            ascii '' restart the daemon with '' @ [39] @ ascii ''ezpn kill '' @ session @ [39] @ ascii '' to upgrade.''
      in encode_incompat cd \<lparr>server_proto = version_text PROTO_MAJOR PROTO_MINOR,
           client_proto = ascii ''unknown'', notice_message = msg\<rparr>)"

section \<open>The client\<close>

datatype HandshakeOutcome = Compatible ServerHello | Incompat IncompatNotice

definition local_incompat :: "ServerHello \<Rightarrow> IncompatNotice" where
  "local_incompat server =
     \<lparr>server_proto = version_text (sh_major server) (sh_minor server),
      client_proto = version_text PROTO_MAJOR PROTO_MINOR,
      notice_message = ascii ''client v'' @ version_text PROTO_MAJOR PROTO_MINOR @
        ascii '' cannot attach to server v'' @ version_text (sh_major server) (sh_minor server) @ [32, 0x2014, 32] @
        ascii ''reinstall the matching ezpn binary or restart the daemon.''\<rparr>"

definition client_hello :: ClientHello where
  "client_hello = \<lparr>ch_major = PROTO_MAJOR, ch_minor = PROTO_MINOR, ch_build = build_string None,
     ch_features = CLIENT_FEATURES\<rparr>"

definition client_handshake ::
  "codec \<Rightarrow> 'e reader \<Rightarrow> 'e sink \<Rightarrow> ('e io_error + HandshakeOutcome) \<times> 'e reader \<times> 'e sink" where
  "client_handshake cd r w =
     (case read_msg r of
        (Inl e, r) \<Rightarrow> (Inl e, r, w)
      | (Inr (tag, payload), r) \<Rightarrow>
          if tag = S_VERSION then
            (case dec_server_hello cd payload of
               None \<Rightarrow> (Inl InvalidData, r, w)
             | Some server \<Rightarrow>
                 if sh_major server \<noteq> PROTO_MAJOR then (Inr (Incompat (local_incompat server)), r, w)
                 else case write_msg C_HELLO (enc_client_hello cd client_hello) w of
                     (Inl e, w) \<Rightarrow> (Inl e, r, w)
                   | (Inr _, w) \<Rightarrow> (Inr (Compatible server), r, w))
          else if tag = S_INCOMPAT then
            (case dec_incompat cd payload of
               None \<Rightarrow> (Inl InvalidData, r, w)
             | Some notice \<Rightarrow> (Inr (Incompat notice), r, w))
          else (Inl InvalidData, r, w))"

section \<open>The server\<close>

datatype Incoming = Attach nat nat AttachMode | Kill

definition CONTROL_LIMIT :: nat where "CONTROL_LIMIT = 64 * 1024"

text \<open>The last frame: what the connection wants.\<close>

definition negotiate_request ::
  "codec \<Rightarrow> byte \<Rightarrow> byte list \<Rightarrow> 'e reader \<Rightarrow> 'e sink \<Rightarrow> ('e io_error + Incoming option) \<times> 'e reader \<times> 'e sink" where
  "negotiate_request cd tag payload r w =
     (if tag = C_PING \<and> payload = [] then
        (case write_msg S_PONG [] w of (Inl e, w) \<Rightarrow> (Inl e, r, w) | (Inr _, w) \<Rightarrow> (Inr None, r, w))
      else if tag = C_KILL \<and> payload = [] then (Inr (Some Kill), r, w)
      else if tag = C_RESIZE then
        (case decode_resize payload of
           None \<Rightarrow> (Inl InvalidData, r, w)
         | Some (cols, rows) \<Rightarrow>
             let (cols, rows) = normalize_size cols rows in (Inr (Some (Attach cols rows Steal)), r, w))
      else if tag = C_ATTACH then
        (case dec_attach cd payload of
           None \<Rightarrow> (Inl OtherError, r, w)
         | Some request \<Rightarrow>
             let (cols, rows) = normalize_size (req_cols request) (req_rows request)
             in (Inr (Some (Attach cols rows (req_mode request))), r, w))
      else (Inl InvalidData, r, w))"

text \<open>\<open>peer\<close> is the answer of \<open>peer_uid\<close>, \<open>uid\<close> that of \<open>getuid\<close>.\<close>

definition negotiate ::
  "codec \<Rightarrow> 'e io_error + nat \<Rightarrow> nat \<Rightarrow> ustr \<Rightarrow> 'e reader \<Rightarrow> 'e sink \<Rightarrow>
     ('e io_error + Incoming option) \<times> 'e reader \<times> 'e sink" where
  "negotiate cd peer uid session r w =
     (case peer of
        Inl e \<Rightarrow> (Inl e, r, w)
      | Inr p \<Rightarrow>
     if p \<noteq> uid then (Inl PermissionDenied, r, w)
     else case write_all (server_hello cd) w of
        (Inl e, w) \<Rightarrow> (Inl e, r, w)
      | (Inr _, w) \<Rightarrow>
     (case read_exact 1 r of
        (Inl e, r) \<Rightarrow> (Inl e, r, w)
      | (Inr first, r) \<Rightarrow>
     if classify_first_byte (hd first) \<noteq> Tag then
       (case write_all (incompat_for_legacy_client cd session) w of
          (Inl e, w) \<Rightarrow> (Inl e, r, w) | (Inr _, w) \<Rightarrow> (Inr None, r, w))
     else case read_msg_limited CONTROL_LIMIT (Data first # r) of
        (Inl e, _, r) \<Rightarrow> (Inl e, r, w)
      | (Inr (tag, payload), _, r) \<Rightarrow>
     if tag = C_HELLO then
       (case dec_client_hello cd payload of
          None \<Rightarrow> (Inl InvalidData, r, w)
        | Some hello \<Rightarrow>
            if ch_major hello \<noteq> PROTO_MAJOR then
              (case write_all (incompat_for_major_mismatch cd hello session) w of
                 (Inl e, w) \<Rightarrow> (Inl e, r, w) | (Inr _, w) \<Rightarrow> (Inr None, r, w))
            else (case read_msg_limited CONTROL_LIMIT r of
                    (Inl e, _, r) \<Rightarrow> (Inl e, r, w)
                  | (Inr (tag, payload), _, r) \<Rightarrow> negotiate_request cd tag payload r w))
     else negotiate_request cd tag payload r w))"

section \<open>Single steps\<close>

lemma read_msg_limited_frame:
  assumes "length payload \<le> min limit MAX_PAYLOAD" "pending r = frame tag payload @ rest"
  obtains l r' where "read_msg_limited limit r = (Inr (tag, payload), l, r')" "pending r' = rest"
proof -
  obtain r' where "read_frame limit r = (Inr (tag, payload), r')" "pending r' = rest"
    using read_frame_frame[OF assms] by blast
  moreover obtain x l r2 where "read_msg_limited limit r = (x, l, r2)" by (cases "read_msg_limited limit r") auto
  ultimately show thesis using that read_msg_limited_split[of limit r x l r2] by auto
qed

lemma frame_bytes_frame: "length payload \<le> MAX_PAYLOAD \<Longrightarrow> frame_bytes tag payload = frame tag payload"
  by (simp add: frame_bytes_def write_msg_frame)

definition this_server :: ServerHello where
  "this_server = \<lparr>sh_major = PROTO_MAJOR, sh_minor = PROTO_MINOR, sh_build = build_string None\<rparr>"

text \<open>What the properties use of the codec: the two hellos survive it.\<close>

definition codec_ok :: "codec \<Rightarrow> bool" where
  "codec_ok cd \<longleftrightarrow>
     dec_server_hello cd (enc_server_hello cd this_server) = Some this_server \<and>
     dec_client_hello cd (enc_client_hello cd client_hello) = Some client_hello"

lemma client_handshake_ok:
  assumes "codec_ok cd" "length (enc_server_hello cd this_server) \<le> MAX_PAYLOAD"
    "length (enc_client_hello cd client_hello) \<le> MAX_PAYLOAD"
    "pending r = server_hello cd @ rest" "fails_after w = None"
  shows "\<exists>r'. client_handshake cd r w =
    (Inr (Compatible this_server), r', w\<lparr>written := written w @ frame C_HELLO (enc_client_hello cd client_hello)\<rparr>) \<and>
    pending r' = rest"
proof -
  have "pending r = frame S_VERSION (enc_server_hello cd this_server) @ rest"
    using assms(2,4) by (simp add: server_hello_def frame_bytes_frame this_server_def)
  then obtain r' where r': "read_msg r = (Inr (S_VERSION, enc_server_hello cd this_server), r')" "pending r' = rest"
    using read_frame_frame[of "enc_server_hello cd this_server" MAX_PAYLOAD r S_VERSION rest] assms(2)
    by (auto simp: read_msg_frame)
  moreover have "dec_server_hello cd (enc_server_hello cd this_server) = Some this_server"
    using assms(1) by (simp add: codec_ok_def)
  moreover have "sh_major this_server = PROTO_MAJOR" by (simp add: this_server_def)
  ultimately show ?thesis
    using write_msg_frame[OF assms(3,5), of C_HELLO] by (simp add: client_handshake_def)
qed

lemma read_first:
  assumes "pending r = b # bs"
  obtains r' where "read_exact 1 r = (Inr [b], r')" "pending r' = bs"
proof -
  have "pending r = [b] @ bs" using assms by simp
  then obtain r' where "read_exact (length [b]) r = (Inr [b], r')" "pending r' = bs"
    by (rule chunked.pull_prefix)
  then show thesis using that by simp
qed

lemma classify_tags [simp]:
  "classify_first_byte C_HELLO = Tag" "classify_first_byte C_RESIZE = Tag" "classify_first_byte C_ATTACH = Tag"
  "classify_first_byte C_PING = Tag" "classify_first_byte C_KILL = Tag"
  by (simp_all add: classify_first_byte_def C_HELLO_def C_RESIZE_def C_ATTACH_def C_PING_def C_KILL_def)

text \<open>The first frame of a connection, when its first byte is a tag.\<close>

lemma negotiate_first_frame:
  assumes "classify_first_byte tag = Tag" "length payload \<le> CONTROL_LIMIT"
    "pending r = frame tag payload @ rest" "fails_after w = None"
  obtains r' where "pending r' = rest"
    "negotiate cd (Inr uid) uid session r w =
      (let w = w\<lparr>written := written w @ server_hello cd\<rparr> in
       if tag = C_HELLO then
         (case dec_client_hello cd payload of
            None \<Rightarrow> (Inl InvalidData, r', w)
          | Some hello \<Rightarrow>
              if ch_major hello \<noteq> PROTO_MAJOR then
                (case write_all (incompat_for_major_mismatch cd hello session) w of
                   (Inl e, w) \<Rightarrow> (Inl e, r', w) | (Inr _, w) \<Rightarrow> (Inr None, r', w))
              else (case read_msg_limited CONTROL_LIMIT r' of
                      (Inl e, _, r) \<Rightarrow> (Inl e, r, w)
                    | (Inr (tag, payload), _, r) \<Rightarrow> negotiate_request cd tag payload r w))
       else negotiate_request cd tag payload r' w)"
proof -
  have f: "frame tag payload = tag # tl (frame tag payload)" by (simp add: frame_def)
  have "pending r = tag # tl (frame tag payload) @ rest" using assms(3) f by simp
  then obtain r1 where r1: "read_exact 1 r = (Inr [tag], r1)" "pending r1 = tl (frame tag payload) @ rest"
    by (rule read_first)
  have "pending (Data [tag] # r1) = frame tag payload @ rest" using r1(2) f by simp
  moreover have "length payload \<le> min CONTROL_LIMIT MAX_PAYLOAD"
    using assms(2) by (simp add: CONTROL_LIMIT_def MAX_PAYLOAD_def)
  ultimately obtain l r' where r': "read_msg_limited CONTROL_LIMIT (Data [tag] # r1) = (Inr (tag, payload), l, r')"
    "pending r' = rest"
    by (metis read_msg_limited_frame)
  show thesis
    by (rule that[OF r'(2)])
      (simp add: negotiate_def write_all.simps assms(1,4) r1(1) r'(1) Let_def del: One_nat_def)
qed

text \<open>After a hello of this version the second frame decides.\<close>

lemma negotiate_after_hello:
  assumes "dec_client_hello cd payload = Some hello" "ch_major hello = PROTO_MAJOR" "length payload \<le> CONTROL_LIMIT"
    "pending r = frame C_HELLO payload @ rest" "fails_after w = None"
  obtains r' where "pending r' = rest"
    "negotiate cd (Inr uid) uid session r w =
      (case read_msg_limited CONTROL_LIMIT r' of
         (Inl e, _, r) \<Rightarrow> (Inl e, r, w\<lparr>written := written w @ server_hello cd\<rparr>)
       | (Inr (tag, payload), _, r) \<Rightarrow>
           negotiate_request cd tag payload r (w\<lparr>written := written w @ server_hello cd\<rparr>))"
proof -
  obtain r' where r': "pending r' = rest"
    "negotiate cd (Inr uid) uid session r w =
      (let w = w\<lparr>written := written w @ server_hello cd\<rparr> in
       if C_HELLO = C_HELLO then
         (case dec_client_hello cd payload of
            None \<Rightarrow> (Inl InvalidData, r', w)
          | Some hello \<Rightarrow>
              if ch_major hello \<noteq> PROTO_MAJOR then
                (case write_all (incompat_for_major_mismatch cd hello session) w of
                   (Inl e, w) \<Rightarrow> (Inl e, r', w) | (Inr _, w) \<Rightarrow> (Inr None, r', w))
              else (case read_msg_limited CONTROL_LIMIT r' of
                      (Inl e, _, r) \<Rightarrow> (Inl e, r, w)
                    | (Inr (tag, payload), _, r) \<Rightarrow> negotiate_request cd tag payload r w))
       else negotiate_request cd C_HELLO payload r' w)"
    by (rule negotiate_first_frame[OF classify_tags(1) assms(3-5)])
  show thesis
    by (rule that[OF r'(1)]) (unfold r'(2) assms(1) Let_def, simp add: assms(2))
qed

lemma negotiate_second_frame:
  assumes "length payload \<le> CONTROL_LIMIT" "pending r = frame tag payload @ rest"
  obtains l r' where "read_msg_limited CONTROL_LIMIT r = (Inr (tag, payload), l, r')" "pending r' = rest"
  using read_msg_limited_frame[of payload CONTROL_LIMIT r tag rest] assms
  by (auto simp: CONTROL_LIMIT_def MAX_PAYLOAD_def)

section \<open>Properties\<close>

text \<open>C19. Client and server of one version agree. When a client reads the server's hello, it
  finds the server compatible and answers with its own hello; when the server reads that answer
  and a resize frame behind it, it admits the client with the size of the frame, clamped to
  1000 columns and 500 rows, in the stealing mode. Neither reads beyond its frames, whatever
  the chunks the sockets deliver.\<close>

theorem handshake_agrees:
  fixes client_in server_in :: "'e reader" and client_out server_out :: "'e sink"
  assumes "codec_ok cd" "length (enc_server_hello cd this_server) \<le> MAX_PAYLOAD"
    "length (enc_client_hello cd client_hello) \<le> CONTROL_LIMIT"
    "fails_after client_out = None" "fails_after server_out = None"
    "written client_out = []" "cols \<le> u16_max" "rows \<le> u16_max"
    "pending client_in = server_hello cd @ rest1"
    "client_handshake cd client_in client_out = (outcome, client_in', client_out')"
    "pending server_in = written client_out' @ frame C_RESIZE (encode_resize cols rows) @ rest2"
    "negotiate cd (Inr uid) uid session server_in server_out = (verdict, server_in', server_out')"
  shows "outcome = Inr (Compatible this_server) \<and> pending client_in' = rest1 \<and>
    verdict = Inr (Some (Attach (clamp_nat 1 1000 cols) (clamp_nat 1 500 rows) Steal)) \<and>
    pending server_in' = rest2 \<and> written server_out' = written server_out @ server_hello cd"
proof -
  have len: "length (enc_client_hello cd client_hello) \<le> MAX_PAYLOAD"
    using assms(3) by (simp add: CONTROL_LIMIT_def MAX_PAYLOAD_def)
  have c: "outcome = Inr (Compatible this_server)" "pending client_in' = rest1"
    "written client_out' = frame C_HELLO (enc_client_hello cd client_hello)"
    using client_handshake_ok[OF assms(1,2) len assms(9,4)] assms(6,10) by auto
  define w where "w = server_out\<lparr>written := written server_out @ server_hello cd\<rparr>"
  have p: "pending server_in = frame C_HELLO (enc_client_hello cd client_hello) @
      frame C_RESIZE (encode_resize cols rows) @ rest2" using assms(11) c(3) by simp
  have d: "dec_client_hello cd (enc_client_hello cd client_hello) = Some client_hello"
    using assms(1) by (simp add: codec_ok_def)
  have m: "ch_major client_hello = PROTO_MAJOR" by (simp add: client_hello_def)
  obtain r1 where r1: "pending r1 = frame C_RESIZE (encode_resize cols rows) @ rest2"
    "negotiate cd (Inr uid) uid session server_in server_out =
       (case read_msg_limited CONTROL_LIMIT r1 of
          (Inl e, _, r) \<Rightarrow> (Inl e, r, w)
        | (Inr (tag, payload), _, r) \<Rightarrow> negotiate_request cd tag payload r w)"
    unfolding w_def by (rule negotiate_after_hello[OF d m assms(3) p assms(5)])
  obtain l r2 where r2: "read_msg_limited CONTROL_LIMIT r1 = (Inr (C_RESIZE, encode_resize cols rows), l, r2)"
    "pending r2 = rest2"
    by (rule negotiate_second_frame[OF _ r1(1)])
      (simp add: encode_resize_def u16_to_be_bytes_def CONTROL_LIMIT_def)
  have q: "negotiate_request cd C_RESIZE (encode_resize cols rows) r2 w =
      (Inr (Some (Attach (clamp_nat 1 1000 cols) (clamp_nat 1 500 rows) Steal)), r2, w)"
    using resize_roundtrip[OF assms(7,8)]
    by (simp add: negotiate_request_def C_RESIZE_def C_PING_def C_KILL_def normalize_size_def)
  have "verdict = Inr (Some (Attach (clamp_nat 1 1000 cols) (clamp_nat 1 500 rows) Steal)) \<and> server_in' = r2 \<and> server_out' = w"
    using assms(12) unfolding r1(2) r2(1) by (simp add: q)
  then show ?thesis using c r2(2) by (simp add: w_def)
qed


definition demo_codec :: codec where
  "demo_codec =
     \<lparr>enc_server_hello = (\<lambda>h. if h = this_server then [1, 2] else []),
      dec_server_hello = (\<lambda>bs. if bs = [1, 2] then Some this_server else None),
      enc_client_hello = (\<lambda>h. if h = client_hello then [3] else []),
      dec_client_hello = (\<lambda>bs. if bs = [3] then Some client_hello
        else if bs = [4] then Some (client_hello\<lparr>ch_major := 2\<rparr>) else None),
      enc_incompat = (\<lambda>n. map of_nat (client_proto n)),
      dec_incompat = (\<lambda>bs. None),
      dec_attach = (\<lambda>bs. None)\<rparr>"

lemma demo_codec_ok:
  "codec_ok demo_codec" "length (enc_server_hello demo_codec this_server) \<le> MAX_PAYLOAD"
  "length (enc_client_hello demo_codec client_hello) \<le> CONTROL_LIMIT"
  by (simp_all add: codec_ok_def demo_codec_def MAX_PAYLOAD_def CONTROL_LIMIT_def)

theorem handshake_agrees_witness:
  "\<exists>sin' sout' cin' cout'.
     client_handshake demo_codec [Data [0x10, 0], Interrupted, Data [0, 0, 2, 1, 2] :: nat chunk] \<lparr>written = [], fails_after = None\<rparr> =
       (Inr (Compatible this_server), cin', cout') \<and>
     written cout' = [0x11, 0, 0, 0, 1, 3] \<and>
     negotiate demo_codec (Inr 1000) 1000 (ascii ''main'')
       [Data [0x11], Data [0, 0, 0, 1, 3, 3, 0, 0], Data [0, 4, 7, 208, 0, 0] :: nat chunk] \<lparr>written = [], fails_after = None\<rparr> =
       (Inr (Some (Attach 1000 1 Steal)), sin', sout')"
proof -
  let ?cin = "[Data [0x10, 0], Interrupted, Data [0, 0, 2, 1, 2]] :: nat reader"
  let ?sin = "[Data [0x11], Data [0, 0, 0, 1, 3, 3, 0, 0], Data [0, 4, 7, 208, 0, 0]] :: nat reader"
  let ?w = "\<lparr>written = [], fails_after = None\<rparr> :: nat sink"
  have sh: "server_hello demo_codec = [0x10, 0, 0, 0, 2, 1, 2]"
    by (simp add: server_hello_def this_server_def[symmetric] frame_bytes_frame MAX_PAYLOAD_def demo_codec_def
        frame_def u32_to_be_bytes_def S_VERSION_def)
  obtain o1 cin' cout' where c: "client_handshake demo_codec ?cin ?w = (o1, cin', cout')"
    by (cases "client_handshake demo_codec ?cin ?w") auto
  obtain v sin' sout' where n: "negotiate demo_codec (Inr 1000) 1000 (ascii ''main'') ?sin ?w = (v, sin', sout')"
    by (cases "negotiate demo_codec (Inr 1000) 1000 (ascii ''main'') ?sin ?w") auto
  have len: "length (enc_client_hello demo_codec client_hello) \<le> MAX_PAYLOAD"
    by (simp add: demo_codec_def MAX_PAYLOAD_def)
  have p: "pending ?cin = server_hello demo_codec @ []" by (simp add: sh)
  have w: "written cout' = [0x11, 0, 0, 0, 1, 3]"
    using client_handshake_ok[OF demo_codec_ok(1,2) len p, of ?w] c
    by (auto simp: demo_codec_def frame_def u32_to_be_bytes_def C_HELLO_def)
  have q: "pending ?sin = written cout' @ frame C_RESIZE (encode_resize 2000 0) @ []"
    by (simp add: w frame_def u32_to_be_bytes_def encode_resize_def u16_to_be_bytes_def C_RESIZE_def)
  show ?thesis
    using handshake_agrees[OF demo_codec_ok, of ?w ?w 2000 0, OF _ _ _ _ _ p c q n] c n w
    by (auto simp: clamp_nat_def)
qed

text \<open>C20. A client of another major version is told so and nothing else: the server answers the
  hello with one incompatibility notice that names both versions, admits nobody, and a client
  that reads the notice reports exactly it.\<close>

theorem handshake_mismatch:
  fixes r :: "'e reader"
  assumes "dec_client_hello cd payload = Some hello" "ch_major hello \<noteq> PROTO_MAJOR" "length payload \<le> CONTROL_LIMIT"
    "pending r = frame C_HELLO payload @ rest" "fails_after w = None"
  shows "\<exists>n r'. server_proto n = version_text PROTO_MAJOR PROTO_MINOR \<and>
    client_proto n = version_text (ch_major hello) (ch_minor hello) \<and>
    negotiate cd (Inr uid) uid session r w =
      (Inr None, r', w\<lparr>written := written w @ server_hello cd @ encode_incompat cd n\<rparr>) \<and>
    (\<forall>c v. length (enc_incompat cd n) \<le> MAX_PAYLOAD \<longrightarrow> dec_incompat cd (enc_incompat cd n) = Some n \<longrightarrow>
       pending c = encode_incompat cd n \<longrightarrow> (\<exists>c'. client_handshake cd (c :: 'e reader) v = (Inr (Incompat n), c', v)))"
proof -
  obtain r' where r': "pending r' = rest"
    "negotiate cd (Inr uid) uid session r w =
      (let w = w\<lparr>written := written w @ server_hello cd\<rparr> in
       if C_HELLO = C_HELLO then
         (case dec_client_hello cd payload of
            None \<Rightarrow> (Inl InvalidData, r', w)
          | Some hello \<Rightarrow>
              if ch_major hello \<noteq> PROTO_MAJOR then
                (case write_all (incompat_for_major_mismatch cd hello session) w of
                   (Inl e, w) \<Rightarrow> (Inl e, r', w) | (Inr _, w) \<Rightarrow> (Inr None, r', w))
              else (case read_msg_limited CONTROL_LIMIT r' of
                      (Inl e, _, r) \<Rightarrow> (Inl e, r, w)
                    | (Inr (tag, payload), _, r) \<Rightarrow> negotiate_request cd tag payload r w))
       else negotiate_request cd C_HELLO payload r' w)"
    by (rule negotiate_first_frame[OF classify_tags(1) assms(3-5)])
  obtain n where n: "incompat_for_major_mismatch cd hello session = encode_incompat cd n"
    "server_proto n = version_text PROTO_MAJOR PROTO_MINOR"
    "client_proto n = version_text (ch_major hello) (ch_minor hello)"
    by (simp add: incompat_for_major_mismatch_def Let_def)
  have "negotiate cd (Inr uid) uid session r w =
      (Inr None, r', w\<lparr>written := written w @ server_hello cd @ encode_incompat cd n\<rparr>)"
    unfolding r'(2) assms(1) Let_def by (simp add: assms(2,5) write_all.simps n(1))
  moreover have "\<exists>c'. client_handshake cd c v = (Inr (Incompat n), c', v)"
    if "length (enc_incompat cd n) \<le> MAX_PAYLOAD" "dec_incompat cd (enc_incompat cd n) = Some n"
      "pending c = encode_incompat cd n" for c :: "'e reader" and v
  proof -
    have p: "pending c = frame S_INCOMPAT (enc_incompat cd n) @ []"
      using that by (simp add: encode_incompat_def frame_bytes_frame)
    have l: "length (enc_incompat cd n) \<le> min MAX_PAYLOAD MAX_PAYLOAD" using that(1) by simp
    obtain c' where "read_msg c = (Inr (S_INCOMPAT, enc_incompat cd n), c')"
      by (rule read_frame_frame[OF l p]) (simp add: read_msg_frame)
    then show ?thesis using that(2) by (simp add: client_handshake_def S_INCOMPAT_def S_VERSION_def)
  qed
  ultimately show ?thesis using n(2,3) by blast
qed

theorem handshake_mismatch_witness:
  "\<exists>n r'. client_proto n = version_text 2 0 \<and>
     negotiate demo_codec (Inr 7) 7 (ascii ''main'') ([Data [0x11, 0, 0], Data [0, 1, 4]] :: nat reader)
       \<lparr>written = [], fails_after = None\<rparr> =
     (Inr None, r', \<lparr>written = server_hello demo_codec @ encode_incompat demo_codec n, fails_after = None\<rparr>)"
proof -
  have d: "dec_client_hello demo_codec [4] = Some (client_hello\<lparr>ch_major := 2\<rparr>)" by (simp add: demo_codec_def)
  have m: "ch_major (client_hello\<lparr>ch_major := 2\<rparr>) \<noteq> PROTO_MAJOR" by (simp add: PROTO_MAJOR_def)
  have l: "length [4 :: byte] \<le> CONTROL_LIMIT" by (simp add: CONTROL_LIMIT_def)
  have p: "pending ([Data [0x11, 0, 0], Data [0, 1, 4]] :: nat reader) = frame C_HELLO [4] @ []"
    by (simp add: frame_def u32_to_be_bytes_def C_HELLO_def)
  have f: "fails_after (\<lparr>written = [], fails_after = None\<rparr> :: nat sink) = None" by simp
  show ?thesis
    using handshake_mismatch[OF d m l p f, of 7 "ascii ''main''"]
    by (auto simp: client_hello_def PROTO_MINOR_def)
qed

text \<open>C21. The socket's gatekeeper. Whatever bytes arrive and whatever the codec makes of them, a
  connection whose peer is not the server's own user is refused before a byte is read or
  written, and an admitted client has a size between 1 and 1000 columns and 1 and 500 rows, so
  that no request can make the server allocate an empty or oversized terminal.\<close>

theorem negotiate_gate:
  fixes r :: "'e reader" and w :: "'e sink"
  shows "case negotiate cd peer uid session r w of (verdict, r', w') \<Rightarrow>
     (if peer = Inr uid then
        (case verdict of
           Inr (Some (Attach cols rows mode)) \<Rightarrow> 1 \<le> cols \<and> cols \<le> 1000 \<and> 1 \<le> rows \<and> rows \<le> 500
         | _ \<Rightarrow> True)
      else isl verdict \<and> r' = r \<and> w' = w)"
proof -
  have b: "1 \<le> clamp_nat 1 1000 c \<and> clamp_nat 1 1000 c \<le> 1000 \<and> 1 \<le> clamp_nat 1 500 d \<and> clamp_nat 1 500 d \<le> 500" for c d
    by (simp add: clamp_nat_def)
  define good where "good = (\<lambda>v :: 'e io_error + Incoming option. case v of
      Inr (Some (Attach cols rows mode)) \<Rightarrow> 1 \<le> cols \<and> cols \<le> 1000 \<and> 1 \<le> rows \<and> rows \<le> 500 | _ \<Rightarrow> True)"
  have req: "good (fst (negotiate_request cd tag payload r w))" for tag payload and r :: "'e reader" and w :: "'e sink"
    using b by (auto simp: good_def negotiate_request_def normalize_size_def split: option.splits prod.splits sum.splits)
  have g: "good (fst (negotiate cd (Inr uid) uid session r w))"
    using req unfolding negotiate_def
    by (simp split: option.splits prod.splits sum.splits) (auto simp: good_def)
  obtain v r' w' where n: "negotiate cd peer uid session r w = (v, r', w')"
    by (cases "negotiate cd peer uid session r w") auto
  show ?thesis
  proof (cases "peer = Inr uid")
    case True
    then have "good v" using g n by simp
    then show ?thesis using n True by (simp add: good_def)
  next
    case False
    then show ?thesis using n by (auto simp: negotiate_def split: sum.splits)
  qed
qed

end
