(* ===== verification/Keys.thy ===== *)
theory Keys
  imports Prelude
begin

text \<open>
  Key events as the crate \<open>crossterm\<close> delivers them: the key code, the set of modifiers and
  whether the key was released. \<open>KeyInput\<close> adds the state flags that only the key encoder of
  the panes reads.
\<close>

datatype MediaKeyCode =
    MediaPlay | MediaPause | MediaPlayPause | MediaReverse | MediaStop | MediaFastForward | MediaRewind
  | MediaTrackNext | MediaTrackPrevious | MediaRecord | MediaLowerVolume | MediaRaiseVolume | MediaMuteVolume

datatype ModifierKeyCode =
    LeftShift | LeftControl | LeftAlt | LeftSuper | LeftHyper | LeftMeta
  | RightShift | RightControl | RightAlt | RightSuper | RightHyper | RightMeta
  | IsoLevel3Shift | IsoLevel5Shift

datatype KeyCode =
    Backspace | Enter | LeftKey | RightKey | UpKey | DownKey | Home | EndKey | PageUp | PageDown
  | TabKey | BackTab | DeleteKey | Insert | F nat | Char nat | NullKey | Esc | CapsLock | ScrollLock
  | NumLock | PrintScreen | PauseKey | Menu | KeypadBegin | Media MediaKeyCode | ModifierKey ModifierKeyCode

datatype Modifier = SHIFT | CONTROL | ALT | SUPER | HYPER | META

datatype KeyEventKind = PressKind | RepeatKind | ReleaseKind

record KeyEvent =
  code :: KeyCode
  modifiers :: "Modifier set"
  kind :: KeyEventKind

datatype KeyStateFlag = KEYPAD | CAPS_LOCK | NUM_LOCK

record KeyInput = KeyEvent +
  key_state :: "KeyStateFlag set"

end
