(* ===== verification/CopyMode.thy ===== *)
theory CopyMode
  imports VtPerform Keys
begin

text \<open>
  Copy mode: \<open>src/src/copy_mode.rs\<close>. It reads the terminal through \<open>Screen::cell\<close>,
  \<open>Screen::row_wrapped\<close> and \<open>Screen::size\<close> only; \<open>screen_view\<close> is what these calls answer, and
  fails where reading a cell would panic. Scrolling goes through two closures: the model
  returns the requests it makes. Unicode's letters and lower-case mapping belong to the tables
  of the standard library and are parameters. \<open>None\<close> is a panic.
\<close>

section \<open>What copy mode sees of a screen\<close>

record Glyph =
  gl_text :: ustr
  gl_wide :: bool
  gl_cont :: bool

record View =
  v_rows :: nat
  v_cols :: nat
  v_lines :: "(Glyph list \<times> bool) list"

definition cell_glyph :: "Cell \<Rightarrow> Glyph option" where
  "cell_glyph c = map_option (\<lambda>t. \<lparr>gl_text = t, gl_wide = is_wide c, gl_cont = is_wide_continuation c\<rparr>) (cell_contents c)"

fun collect_options :: "'a option list \<Rightarrow> 'a list option" where
  "collect_options [] = Some []"
| "collect_options (x # xs) = do { y \<leftarrow> x; ys \<leftarrow> collect_options xs; Some (y # ys) }"

definition screen_view :: "Screen \<Rightarrow> View option" where
  "screen_view s =
     do { rows \<leftarrow> visible_rows (cur_grid s);
          lines \<leftarrow> collect_options (map (\<lambda>r.
            map_option (\<lambda>gs. (gs, wrapped r)) (collect_options (map cell_glyph (cells r)))) rows);
          Some \<lparr>v_rows = size_rows (gsize (cur_grid s)), v_cols = size_cols (gsize (cur_grid s)), v_lines = lines\<rparr> }"

definition view_cell :: "View \<Rightarrow> nat \<Rightarrow> nat \<Rightarrow> Glyph option" where
  "view_cell v r c = Option.bind (vec_get r (v_lines v)) (\<lambda>(gs, _). vec_get c gs)"

definition row_wrapped :: "View \<Rightarrow> nat \<Rightarrow> bool" where
  "row_wrapped v r = (case vec_get r (v_lines v) of Some (_, w) \<Rightarrow> w | None \<Rightarrow> False)"

definition continuation_at :: "View \<Rightarrow> nat \<Rightarrow> nat \<Rightarrow> bool" where
  "continuation_at v r c = (case view_cell v r c of Some g \<Rightarrow> gl_cont g | None \<Rightarrow> False)"

section \<open>State\<close>

datatype Phase = Navigate | VisualChar nat nat | VisualLine nat | Search bool ustr

record CopyModeState =
  phase :: Phase
  cursor_row :: nat
  cursor_col :: nat
  pane_rows :: nat
  pane_cols :: nat
  last_search :: "ustr option"
  last_search_forward :: bool
  search_matches :: "(nat \<times> nat \<times> nat) list"
  current_match_idx :: "nat option"

definition copy_new :: "nat \<Rightarrow> nat \<Rightarrow> CopyModeState" where
  "copy_new rows cols =
     \<lparr>phase = Navigate, cursor_row = rows - 1, cursor_col = 0, pane_rows = rows, pane_cols = cols,
      last_search = None, last_search_forward = True, search_matches = [], current_match_idx = None\<rparr>"

definition normalize :: "nat \<Rightarrow> nat \<Rightarrow> nat \<Rightarrow> nat \<Rightarrow> nat \<times> nat \<times> nat \<times> nat" where
  "normalize sr sc er ec =
     (if sr < er \<or> (sr = er \<and> sc \<le> ec) then (sr, sc, er, ec) else (er, ec, sr, sc))"

definition selection :: "CopyModeState \<Rightarrow> (nat \<times> nat \<times> nat \<times> nat) option" where
  "selection s =
     (if pane_rows s = 0 \<or> pane_cols s = 0 then None
      else case phase s of
        VisualChar anchor_row anchor_col \<Rightarrow>
          Some (normalize anchor_row anchor_col (cursor_row s) (cursor_col s))
      | VisualLine anchor_row \<Rightarrow>
          (let (sr, er) = (if anchor_row \<le> cursor_row s then (anchor_row, cursor_row s)
                           else (cursor_row s, anchor_row))
           in Some (sr, 0, er, pane_cols s - 1))
      | _ \<Rightarrow> None)"

definition mode_label :: "CopyModeState \<Rightarrow> ustr" where
  "mode_label s =
     (case phase s of
        Navigate \<Rightarrow> ascii ''COPY''
      | VisualChar _ _ \<Rightarrow> ascii ''VISUAL''
      | VisualLine _ \<Rightarrow> ascii ''V-LINE''
      | Search _ _ \<Rightarrow> ascii ''SEARCH'')"

definition search_prompt :: "CopyModeState \<Rightarrow> ustr option" where
  "search_prompt s =
     (case phase s of
        Search forward query \<Rightarrow> Some ((if forward then ascii ''/'' else ascii ''?'') @ query)
      | _ \<Rightarrow> None)"

datatype CopyAction = Redraw | CopyAndExit ustr | Exit | NoAction

section \<open>Movement\<close>

definition cell_char :: "View \<Rightarrow> nat \<Rightarrow> nat \<Rightarrow> nat" where
  "cell_char v r c =
     (case view_cell v r c of
        Some g \<Rightarrow> (case gl_text g of [] \<Rightarrow> 32 | ch # _ \<Rightarrow> ch)
      | None \<Rightarrow> 32)"

definition is_word_char :: "(nat \<Rightarrow> bool) \<Rightarrow> nat \<Rightarrow> bool" where
  "is_word_char alnum ch \<longleftrightarrow> alnum ch \<or> ch = 95"

definition line_end :: "CopyModeState \<Rightarrow> View \<Rightarrow> nat" where
  "line_end s v =
     fold (\<lambda>c found. if cell_char v (cursor_row s) c \<noteq> 32 then c else found) [0..<pane_cols s] 0"

definition first_non_blank :: "CopyModeState \<Rightarrow> View \<Rightarrow> nat" where
  "first_non_blank s v =
     (case find (\<lambda>c. cell_char v (cursor_row s) c \<noteq> 32) [0..<pane_cols s] of
        Some c \<Rightarrow> c | None \<Rightarrow> 0)"

text \<open>The position after \<open>(r, c)\<close> in reading order, \<open>None\<close> behind the last one.\<close>

definition step_forward :: "nat \<Rightarrow> nat \<Rightarrow> nat \<Rightarrow> nat \<Rightarrow> (nat \<times> nat) option" where
  "step_forward rows cols r c =
     (if cols \<le> c + 1 then (if rows \<le> r + 1 then None else Some (r + 1, 0)) else Some (r, c + 1))"

lemma step_forward_decreases:
  "step_forward rows cols r c = Some (r', c') \<Longrightarrow> (rows - r', cols - c') = (rows - r', cols - c') \<and>
     (rows - r' < rows - r \<or> rows - r' = rows - r \<and> cols - c' < cols - c)"
  by (auto simp: step_forward_def split: if_splits)

function skip_class :: "(nat \<Rightarrow> bool) \<Rightarrow> View \<Rightarrow> nat \<Rightarrow> nat \<Rightarrow> bool \<Rightarrow> nat \<Rightarrow> nat \<Rightarrow> (nat \<times> nat) option" where
  "skip_class alnum v rows cols start_word r c =
     (case step_forward rows cols r c of
        None \<Rightarrow> None
      | Some (r, c) \<Rightarrow>
          if continuation_at v r c then skip_class alnum v rows cols start_word r c
          else if is_word_char alnum (cell_char v r c) \<noteq> start_word \<or> cell_char v r c = 32 then Some (r, c)
          else skip_class alnum v rows cols start_word r c)"
  by pat_completeness auto
termination
  by (relation "measures [\<lambda>(alnum, v, rows, cols, w, r, c). rows - r, \<lambda>(alnum, v, rows, cols, w, r, c). cols - c]")
    (auto dest: step_forward_decreases)

function skip_blanks :: "View \<Rightarrow> nat \<Rightarrow> nat \<Rightarrow> nat \<Rightarrow> nat \<Rightarrow> (nat \<times> nat) option" where
  "skip_blanks v rows cols r c =
     (if cell_char v r c \<noteq> 32 then Some (r, c)
      else case step_forward rows cols r c of None \<Rightarrow> None | Some (r, c) \<Rightarrow> skip_blanks v rows cols r c)"
  by pat_completeness auto
termination
  by (relation "measures [\<lambda>(v, rows, cols, r, c). rows - r, \<lambda>(v, rows, cols, r, c). cols - c]")
    (auto dest: step_forward_decreases)

declare skip_class.simps [simp del] skip_blanks.simps [simp del]

definition move_word_forward :: "(nat \<Rightarrow> bool) \<Rightarrow> View \<Rightarrow> CopyModeState \<Rightarrow> CopyModeState" where
  "move_word_forward alnum v s =
     (if pane_rows s = 0 \<or> pane_cols s = 0 then s
      else let start_word = is_word_char alnum (cell_char v (cursor_row s) (cursor_col s))
      in case skip_class alnum v (pane_rows s) (pane_cols s) start_word (cursor_row s) (cursor_col s) of
           None \<Rightarrow> s
         | Some (r, c) \<Rightarrow>
             (case skip_blanks v (pane_rows s) (pane_cols s) r c of
                None \<Rightarrow> s
              | Some (r, c) \<Rightarrow> s\<lparr>cursor_row := r, cursor_col := c\<rparr>))"

text \<open>The position before \<open>(r, c)\<close>, \<open>None\<close> before the first one.\<close>

definition step_back :: "nat \<Rightarrow> nat \<Rightarrow> nat \<Rightarrow> (nat \<times> nat) option" where
  "step_back cols r c =
     (if c = 0 then (if r = 0 then None else Some (r - 1, cols - 1)) else Some (r, c - 1))"

function skip_blanks_back :: "View \<Rightarrow> nat \<Rightarrow> nat \<Rightarrow> nat \<Rightarrow> (nat \<times> nat) option" where
  "skip_blanks_back v cols r c =
     (if cell_char v r c \<noteq> 32 then Some (r, c)
      else case step_back cols r c of None \<Rightarrow> None | Some (r, c) \<Rightarrow> skip_blanks_back v cols r c)"
  by pat_completeness auto
termination
  by (relation "measures [\<lambda>(v, cols, r, c). r, \<lambda>(v, cols, r, c). c]")
    (auto simp: step_back_def split: if_splits)

function word_start :: "(nat \<Rightarrow> bool) \<Rightarrow> View \<Rightarrow> bool \<Rightarrow> nat \<Rightarrow> nat \<Rightarrow> nat" where
  "word_start alnum v target_word r c =
     (if c = 0 then c
      else let previous_col = (if continuation_at v r (c - 1) then c - 1 - 1 else c - 1);
               prev = cell_char v r previous_col
           in if is_word_char alnum prev \<noteq> target_word \<or> prev = 32 then c
              else word_start alnum v target_word r previous_col)"
  by pat_completeness auto
termination
  by (relation "measure (\<lambda>(alnum, v, w, r, c). c)") auto

declare skip_blanks_back.simps [simp del] word_start.simps [simp del]

definition move_word_backward :: "(nat \<Rightarrow> bool) \<Rightarrow> View \<Rightarrow> CopyModeState \<Rightarrow> CopyModeState" where
  "move_word_backward alnum v s =
     (if pane_rows s = 0 \<or> pane_cols s = 0 then s
      else case step_back (pane_cols s) (cursor_row s) (cursor_col s) of
        None \<Rightarrow> s
      | Some (r, c0) \<Rightarrow>
          let c = (if 0 < c0 \<and> continuation_at v r c0 then c0 - 1 else c0)
          in case skip_blanks_back v (pane_cols s) r c of
               None \<Rightarrow> s\<lparr>cursor_row := 0, cursor_col := 0\<rparr>
             | Some (r, c) \<Rightarrow>
                 let target_word = is_word_char alnum (cell_char v r c)
                 in s\<lparr>cursor_row := r, cursor_col := word_start alnum v target_word r c\<rparr>)"

section \<open>Yank\<close>

definition trim_end :: "ustr \<Rightarrow> ustr" where
  "trim_end s = rev (dropWhile is_white (rev s))"

text \<open>One row of a selection: its text, and where the text of its last non-empty cell ends.\<close>

definition add_glyph :: "View \<Rightarrow> nat \<Rightarrow> nat \<Rightarrow> ustr \<times> nat \<Rightarrow> ustr \<times> nat" where
  "add_glyph v r c acc =
     (case view_cell v r c of
        None \<Rightarrow> acc
      | Some g \<Rightarrow>
          if gl_cont g then acc
          else if gl_text g = [] then (fst acc @ [32], snd acc)
          else (fst acc @ gl_text g, length (fst acc @ gl_text g)))"

definition extract_row :: "CopyModeState \<Rightarrow> View \<Rightarrow> nat \<times> nat \<times> nat \<times> nat \<Rightarrow> nat \<Rightarrow> ustr" where
  "extract_row s v = (\<lambda>(sr, sc, er, ec) r.
     let c0 = (if r = sr then sc else 0);
         c_start = (if 0 < c0 \<and> continuation_at v r c0 then c0 - 1 else c0);
         c_end = (if r = er then ec else v_cols v - 1);
         (row_text, content_end) = fold (add_glyph v r) [c_start..<Suc c_end] ([], 0);
         soft_wrap = (r < er \<and> row_wrapped v r \<and> (case phase s of VisualLine _ \<Rightarrow> False | _ \<Rightarrow> True))
     in (if soft_wrap then take content_end row_text else trim_end row_text) @
        (if r < er \<and> \<not> soft_wrap then [10] else []))"

definition extract_selection :: "CopyModeState \<Rightarrow> View \<Rightarrow> ustr option" where
  "extract_selection s v =
     (case selection s of
        None \<Rightarrow> None
      | Some (sr, sc, er, ec) \<Rightarrow>
          if v_rows v \<le> sr \<or> v_cols v \<le> sc \<or> v_cols v = 0 then None
          else let er = min er (v_rows v - 1);
                   ec = min ec (v_cols v - 1);
                   text = concat (map (extract_row s v (sr, sc, er, ec)) [sr..<Suc er])
               in if text = [] then None else Some text)"

section \<open>Search\<close>

text \<open>\<open>str::find\<close>: the index of the first occurrence.\<close>

fun str_find :: "ustr \<Rightarrow> ustr \<Rightarrow> nat option" where
  "str_find q s =
     (if take (length q) s = q then Some 0
      else case s of [] \<Rightarrow> None | _ # t \<Rightarrow> map_option Suc (str_find q t))"

declare str_find.simps [simp del]

text \<open>The text of a row and, for every byte of its lower-case form, the columns of its cell.\<close>

definition add_search_glyph ::
  "(ustr \<Rightarrow> ustr) \<Rightarrow> nat \<Rightarrow> View \<Rightarrow> nat \<Rightarrow> nat \<Rightarrow> ustr \<times> (nat \<times> nat) list \<Rightarrow> ustr \<times> (nat \<times> nat) list" where
  "add_search_glyph lower cols v r c acc =
     (case view_cell v r c of
        None \<Rightarrow> acc
      | Some g \<Rightarrow>
          if gl_cont g then acc
          else let t = (if gl_text g = [] then [32] else gl_text g);
                   end_col = min (sat_add c (if gl_wide g then 2 else 1)) cols
               in (fst acc @ t, snd acc @ replicate (str_len (lower t)) (c, end_col)))"

text \<open>The matches of one row. Positions in \<open>text\<close> are characters here; \<open>str_len\<close> gives the byte
  position that indexes \<open>col_map\<close>.\<close>

function row_matches ::
  "nat \<Rightarrow> (nat \<times> nat) list \<Rightarrow> ustr \<Rightarrow> ustr \<Rightarrow> nat \<Rightarrow> (nat \<times> nat \<times> nat) list option" where
  "row_matches r col_map query txt start =
     (case str_find query (drop start txt) of
        None \<Rightarrow> Some []
      | Some pos \<Rightarrow>
          let i = start + pos; byte_pos = str_len (take i txt)
          in do { (col, _) \<leftarrow> vec_get byte_pos col_map;
                  l \<leftarrow> (if 1 \<le> byte_pos + str_len query then Some (byte_pos + str_len query - 1) else None);
                  (_, end_col) \<leftarrow> vec_get l col_map;
                  width \<leftarrow> sub16 end_col col;
                  if i < length txt then do {
                    rest \<leftarrow> row_matches r col_map query txt (i + 1);
                    Some ((r, col, width) # rest) }
                  else None })"
  by pat_completeness auto
termination
  by (relation "measure (\<lambda>(r, m, q, txt, start). length txt - start)") auto

declare row_matches.simps [simp del]

definition search_row :: "(ustr \<Rightarrow> ustr) \<Rightarrow> ustr \<Rightarrow> nat \<Rightarrow> View \<Rightarrow> nat \<Rightarrow> (nat \<times> nat \<times> nat) list option" where
  "search_row lower lower_query cols v r =
     (let (row_text, col_map) = fold (add_search_glyph lower cols v r) [0..<cols] ([], [])
      in row_matches r col_map lower_query (lower row_text) 0)"

definition pos_less :: "nat \<times> nat \<Rightarrow> nat \<times> nat \<Rightarrow> bool" where
  "pos_less p q \<longleftrightarrow> fst p < fst q \<or> (fst p = fst q \<and> snd p < snd q)"

text \<open>\<open>Iterator::position\<close> and \<open>rposition\<close>.\<close>

fun index_where :: "('a \<Rightarrow> bool) \<Rightarrow> 'a list \<Rightarrow> nat option" where
  "index_where p [] = None"
| "index_where p (x # xs) = (if p x then Some 0 else map_option Suc (index_where p xs))"

definition rindex_where :: "('a \<Rightarrow> bool) \<Rightarrow> 'a list \<Rightarrow> nat option" where
  "rindex_where p xs = map_option (\<lambda>k. length xs - 1 - k) (index_where p (rev xs))"

definition execute_search :: "(ustr \<Rightarrow> ustr) \<Rightarrow> View \<Rightarrow> CopyModeState \<Rightarrow> CopyModeState option" where
  "execute_search lower v s =
     (let query = (case phase s of Search _ q \<Rightarrow> q
                   | _ \<Rightarrow> (case last_search s of Some q \<Rightarrow> q | None \<Rightarrow> []))
      in if query = [] then Some (s\<lparr>search_matches := [], current_match_idx := None\<rparr>)
      else do {
        found \<leftarrow> collect_options (map (search_row lower (lower query) (pane_cols s) v) [0..<pane_rows s]);
        let ms = concat found;
        let s = s\<lparr>search_matches := ms\<rparr>;
        if ms = [] then Some (s\<lparr>current_match_idx := None\<rparr>)
        else
          let cursor = (cursor_row s, cursor_col s);
              incremental = (case phase s of Search _ _ \<Rightarrow> True | _ \<Rightarrow> False);
              forward = (case phase s of Search f _ \<Rightarrow> f | _ \<Rightarrow> last_search_forward s);
              idx = (if forward
                     then (case index_where (\<lambda>(r, c, _). pos_less cursor (r, c) \<or> (incremental \<and> (r, c) = cursor)) ms of
                             Some i \<Rightarrow> i | None \<Rightarrow> 0)
                     else (case rindex_where (\<lambda>(r, c, _). pos_less (r, c) cursor \<or> (incremental \<and> (r, c) = cursor)) ms of
                             Some i \<Rightarrow> i | None \<Rightarrow> length ms - 1))
          in do { (r, c, _) \<leftarrow> vec_get idx ms;
                  Some (s\<lparr>current_match_idx := Some idx, cursor_row := r, cursor_col := c\<rparr>) } })"

section \<open>Keys\<close>

text \<open>What the closures \<open>scroll_up\<close> and \<open>scroll_down\<close> are called with.\<close>

datatype scroll_request = ScrollUp nat | ScrollDown nat

definition clamp_state :: "View \<Rightarrow> CopyModeState \<Rightarrow> CopyModeState" where
  "clamp_state v s =
     s\<lparr>pane_rows := v_rows v, pane_cols := v_cols v,
       cursor_row := min (cursor_row s) (v_rows v - 1), cursor_col := min (cursor_col s) (v_cols v - 1),
       phase := (case phase s of
           VisualChar r c \<Rightarrow> VisualChar (min r (v_rows v - 1)) (min c (v_cols v - 1))
         | VisualLine r \<Rightarrow> VisualLine (min r (v_rows v - 1))
         | p \<Rightarrow> p)\<rparr>"

definition search_key ::
  "(ustr \<Rightarrow> ustr) \<Rightarrow> KeyCode \<Rightarrow> bool \<Rightarrow> View \<Rightarrow> bool \<Rightarrow> ustr \<Rightarrow> CopyModeState \<Rightarrow> (CopyAction \<times> CopyModeState) option" where
  "search_key lower k ctrl v fwd query s =
     (case k of
        Enter \<Rightarrow>
          map_option (\<lambda>s. (Redraw, s\<lparr>phase := Navigate\<rparr>))
            (execute_search lower v (s\<lparr>last_search := Some query, last_search_forward := fwd\<rparr>))
      | Esc \<Rightarrow> Some (Redraw, s\<lparr>search_matches := [], current_match_idx := None, phase := Navigate\<rparr>)
      | Backspace \<Rightarrow>
          map_option (Pair Redraw) (execute_search lower v (s\<lparr>phase := Search fwd (butlast query)\<rparr>))
      | Char c \<Rightarrow>
          if \<not> ctrl then map_option (Pair Redraw) (execute_search lower v (s\<lparr>phase := Search fwd (query @ [c])\<rparr>))
          else Some (NoAction, s)
      | _ \<Rightarrow> Some (NoAction, s))"

definition is_char :: "KeyCode \<Rightarrow> string \<Rightarrow> bool" where
  "is_char k s \<longleftrightarrow> (case k of Char c \<Rightarrow> [c] = ascii s | _ \<Rightarrow> False)"

definition normal_key ::
  "(nat \<Rightarrow> bool) \<Rightarrow> (ustr \<Rightarrow> ustr) \<Rightarrow> KeyCode \<Rightarrow> bool \<Rightarrow> View \<Rightarrow> CopyModeState \<Rightarrow>
     (CopyAction \<times> CopyModeState \<times> scroll_request list) option" where
  "normal_key alnum lower k ctrl v s =
     (let stay = (\<lambda>s. Some (Redraw, s, [])); scroll = (\<lambda>q s. Some (Redraw, s, [q]))
      in if is_char k ''h'' \<or> k = LeftKey then stay (s\<lparr>cursor_col := cursor_col s - 1\<rparr>)
      else if is_char k ''l'' \<or> k = RightKey then
        stay (if cursor_col s + 1 < pane_cols s then s\<lparr>cursor_col := cursor_col s + 1\<rparr> else s)
      else if is_char k ''j'' \<or> k = DownKey then
        (if cursor_row s + 1 < pane_rows s then stay (s\<lparr>cursor_row := cursor_row s + 1\<rparr>) else scroll (ScrollDown 1) s)
      else if is_char k ''k'' \<or> k = UpKey then
        (if 0 < cursor_row s then stay (s\<lparr>cursor_row := cursor_row s - 1\<rparr>) else scroll (ScrollUp 1) s)
      else if is_char k ''w'' then stay (move_word_forward alnum v s)
      else if is_char k ''b'' then stay (move_word_backward alnum v s)
      else if is_char k ''0'' then stay (s\<lparr>cursor_col := 0\<rparr>)
      else if is_char k ''$'' then stay (s\<lparr>cursor_col := line_end s v\<rparr>)
      else if is_char k ''^'' then stay (s\<lparr>cursor_col := first_non_blank s v\<rparr>)
      else if is_char k ''g'' then scroll (ScrollUp usize_max) (s\<lparr>cursor_row := 0, cursor_col := 0\<rparr>)
      else if is_char k ''G'' then
        scroll (ScrollDown usize_max) (s\<lparr>cursor_row := pane_rows s - 1, cursor_col := 0\<rparr>)
      else if is_char k ''u'' \<and> ctrl then scroll (ScrollUp (pane_rows s div 2)) s
      else if is_char k ''d'' \<and> ctrl then scroll (ScrollDown (pane_rows s div 2)) s
      else if k = PageUp then scroll (ScrollUp (pane_rows s)) s
      else if k = PageDown then scroll (ScrollDown (pane_rows s)) s
      else if is_char k ''H'' then stay (s\<lparr>cursor_row := 0\<rparr>)
      else if is_char k ''M'' then stay (s\<lparr>cursor_row := pane_rows s div 2\<rparr>)
      else if is_char k ''L'' then stay (s\<lparr>cursor_row := pane_rows s - 1\<rparr>)
      else if is_char k ''v'' then
        stay (s\<lparr>phase := (case phase s of VisualChar _ _ \<Rightarrow> Navigate
                         | _ \<Rightarrow> VisualChar (cursor_row s) (cursor_col s))\<rparr>)
      else if is_char k ''V'' then
        stay (s\<lparr>phase := (case phase s of VisualLine _ \<Rightarrow> Navigate | _ \<Rightarrow> VisualLine (cursor_row s))\<rparr>)
      else if is_char k '' '' \<and> phase s = Navigate then
        stay (s\<lparr>phase := VisualChar (cursor_row s) (cursor_col s)\<rparr>)
      else if is_char k ''y'' \<or> k = Enter then
        (case extract_selection s v of
           Some text \<Rightarrow> Some (CopyAndExit text, s, []) | None \<Rightarrow> Some (NoAction, s, []))
      else if is_char k ''/'' then stay (s\<lparr>phase := Search True []\<rparr>)
      else if is_char k ''?'' then stay (s\<lparr>phase := Search False []\<rparr>)
      else if is_char k ''n'' then
        (if last_search s \<noteq> None then Option.bind (execute_search lower v s) stay else stay s)
      else if is_char k ''N'' then
        (if last_search s \<noteq> None then
           do { s \<leftarrow> execute_search lower v (s\<lparr>last_search_forward := \<not> last_search_forward s\<rparr>);
                stay (s\<lparr>last_search_forward := \<not> last_search_forward s\<rparr>) }
         else stay s)
      else if is_char k ''q'' \<or> k = Esc then Some (Exit, s, [])
      else Some (NoAction, s, []))"

definition handle_key ::
  "(nat \<Rightarrow> bool) \<Rightarrow> (ustr \<Rightarrow> ustr) \<Rightarrow> KeyEvent \<Rightarrow> View \<Rightarrow> CopyModeState \<Rightarrow>
     (CopyAction \<times> CopyModeState \<times> scroll_request list) option" where
  "handle_key alnum lower key v s =
     (if kind key = ReleaseKind then Some (NoAction, s, [])
      else let s = clamp_state v s; ctrl = (CONTROL \<in> modifiers key)
      in case phase s of
           Search fwd query \<Rightarrow>
             map_option (\<lambda>(a, s). (a, s, [])) (search_key lower (code key) ctrl v fwd query s)
         | _ \<Rightarrow> normal_key alnum lower (code key) ctrl v s)"

end
