(* ===== verification/OrdMap.thy ===== *)
theory OrdMap
  imports Prelude "HOL-Library.List_Lexorder" "HOL-Library.Multiset"
begin

text \<open>
  \<open>BTreeMap\<close> as an association list in strictly ascending key order. The locale
  \<open>ordered_map\<close> is what the clients of a map rely on; it is interpreted here on the lists, with
  strings ordered lexicographically by code point, which is the byte order of their UTF-8.
\<close>

fun om_insert :: "'k::linorder \<Rightarrow> 'v \<Rightarrow> ('k \<times> 'v) list \<Rightarrow> ('k \<times> 'v) list" where
  "om_insert k v [] = [(k, v)]"
| "om_insert k v ((k', v') # m) =
     (if k < k' then (k, v) # (k', v') # m
      else if k = k' then (k, v) # m
      else (k', v') # om_insert k v m)"

definition om_remove :: "'k::linorder \<Rightarrow> ('k \<times> 'v) list \<Rightarrow> ('k \<times> 'v) list" where
  "om_remove k m = [e \<leftarrow> m. fst e \<noteq> k]"

definition om_ok :: "('k::linorder \<times> 'v) list \<Rightarrow> bool" where
  "om_ok m \<longleftrightarrow> sorted_wrt (<) (map fst m)"

lemma om_ok_distinct: "om_ok m \<Longrightarrow> distinct (map fst m)"
  by (simp add: om_ok_def strict_sorted_iff)

lemma om_ok_Cons: "om_ok ((k, v) # m) \<longleftrightarrow> om_ok m \<and> (\<forall>x\<in>set m. k < fst x)"
  by (auto simp: om_ok_def)

lemma map_of_om_insert [simp]: "om_ok m \<Longrightarrow> map_of (om_insert k v m) = (map_of m)(k \<mapsto> v)"
proof (induction m)
  case (Cons e m)
  then show ?case by (cases e) (auto simp: om_ok_Cons fun_eq_iff)
qed simp

lemma map_of_om_insert_same: "map_of (om_insert k v m) k = Some v"
  by (induction k v m rule: om_insert.induct) auto

lemma keys_om_insert: "fst ` set (om_insert k v m) = insert k (fst ` set m)"
  by (induction k v m rule: om_insert.induct) auto

lemma om_ok_insert [simp]: "om_ok m \<Longrightarrow> om_ok (om_insert k v m)"
proof (induction m)
  case Nil
  then show ?case by (simp add: om_ok_def)
next
  case (Cons e m)
  obtain k' v' where e: "e = (k', v')" by (cases e)
  have "\<forall>x \<in> set (om_insert k v m). k' < fst x" if "k' < k"
  proof
    fix x assume "x \<in> set (om_insert k v m)"
    then have "fst x \<in> insert k (fst ` set m)" using keys_om_insert[of k v m] by blast
    then show "k' < fst x" using Cons.prems that by (auto simp: e om_ok_Cons)
  qed
  with Cons show ?case by (auto simp: e om_ok_Cons)
qed

lemma om_ok_remove [simp]: "om_ok m \<Longrightarrow> om_ok (om_remove k m)"
  by (induction m) (auto simp: om_remove_def om_ok_Cons)

lemma map_of_om_remove [simp]: "map_of (om_remove k m) = (map_of m)(k := None)"
  by (induction m) (auto simp: om_remove_def fun_eq_iff)

lemma mset_om_insert:
  "om_ok m \<Longrightarrow> mset (om_insert k v m) = add_mset (k, v) (mset (om_remove k m))"
proof (induction m)
  case (Cons e m)
  obtain k' v' where e: "e = (k', v')" by (cases e)
  have "[e \<leftarrow> m. fst e \<noteq> k] = m" if "k \<le> k'"
    using Cons.prems that by (auto simp: e om_ok_Cons filter_id_conv)
  with Cons show ?case by (auto simp: e om_ok_Cons om_remove_def simp del: mset_filter)
qed (simp add: om_remove_def)

lemma om_remove_absent: "map_of m k = None \<Longrightarrow> om_remove k m = m"
  by (auto simp: om_remove_def map_of_eq_None_iff filter_id_conv image_iff)

text \<open>Two maps with the same bindings are the same list: the representation is canonical.\<close>

lemma om_ok_unique:
  assumes "om_ok m" "om_ok n" "map_of m = map_of n"
  shows "m = n"
proof -
  have e: "l = map (\<lambda>k. (k, the (map_of l k))) (map fst l)" if "om_ok l" for l :: "('a \<times> 'b) list"
    using om_ok_distinct[OF that] by (auto simp: o_def intro!: map_idI[symmetric])
  have "set (map fst m) = set (map fst n)" using assms(3) dom_map_of_conv_image_fst
    by (metis list.set_map)
  then have "map fst m = map fst n"
    using assms(1,2) unfolding om_ok_def by (metis strict_sorted_equal)
  then show ?thesis using e[OF assms(1)] e[OF assms(2)] assms(3) by metis
qed

text \<open>The contract.\<close>

locale ordered_map =
  fixes lookup :: "'m \<Rightarrow> 'k::linorder \<Rightarrow> 'v option"
    and insert_at :: "'k \<Rightarrow> 'v \<Rightarrow> 'm \<Rightarrow> 'm"
    and remove_at :: "'k \<Rightarrow> 'm \<Rightarrow> 'm"
    and entries :: "'m \<Rightarrow> ('k \<times> 'v) list"
    and valid :: "'m \<Rightarrow> bool"
  assumes lookup_insert: "valid m \<Longrightarrow> lookup (insert_at k v m) = (lookup m)(k \<mapsto> v)"
    and lookup_remove: "valid m \<Longrightarrow> lookup (remove_at k m) = (lookup m)(k := None)"
    and valid_insert: "valid m \<Longrightarrow> valid (insert_at k v m)"
    and valid_remove: "valid m \<Longrightarrow> valid (remove_at k m)"
    and entries_sorted: "valid m \<Longrightarrow> sorted_wrt (<) (map fst (entries m))"
    and entries_lookup: "valid m \<Longrightarrow> map_of (entries m) = lookup m"
begin

lemma keys_distinct: "valid m \<Longrightarrow> distinct (map fst (entries m))"
  using entries_sorted by (simp add: strict_sorted_iff)

lemma insert_insert: "valid m \<Longrightarrow> lookup (insert_at k v (insert_at k w m)) = lookup (insert_at k v m)"
  by (simp add: lookup_insert valid_insert)

lemma insert_remove: "valid m \<Longrightarrow> lookup (remove_at k (insert_at k v m)) = (lookup m)(k := None)"
  by (simp add: lookup_insert lookup_remove valid_insert)

lemma in_entries: "valid m \<Longrightarrow> (k, v) \<in> set (entries m) \<longleftrightarrow> lookup m k = Some v"
  using entries_lookup[of m] keys_distinct[of m] by (metis map_of_eq_Some_iff)

end

interpretation btree: ordered_map map_of om_insert om_remove "\<lambda>m. m" om_ok
  by unfold_locales (auto simp: om_ok_def[symmetric])

end
