(* ===== verification/Buffers.thy ===== *)
theory Buffers
  imports OrdMap Utf8
begin

text \<open>
  The store of named copy buffers: \<open>src/src/buffers.rs\<close>. A \<open>BTreeMap\<close> from names to entries, a
  \<open>u64\<close> sequence counter that is renumbered when it would overflow, and eviction of the oldest
  entry at the cap. The abstract view \<open>ages\<close> is the list of buffers from the oldest to the
  newest; every operation refines a list operation on it. \<open>save\<close> is modelled as the sequence
  of system calls it makes, against any answers of the operating system.
\<close>

section \<open>State\<close>

record BufferEntry =
  buf_text :: ustr
  created_at :: "64 word"

record BufferStore =
  buffers :: "(ustr \<times> BufferEntry) list"
  seq_counter :: "64 word"

definition MAX_BUFFERS :: nat where "MAX_BUFFERS = 100"
definition MAX_BYTES :: nat where "MAX_BYTES = 16 * 1024 * 1024"
definition DEFAULT_NAME :: ustr where "DEFAULT_NAME = []"

datatype SetError = TooLarge ustr nat nat

definition store_new :: BufferStore where
  "store_new = \<lparr>buffers = [], seq_counter = 0\<rparr>"

section \<open>Operations\<close>

definition by_age :: "(ustr \<times> BufferEntry) list \<Rightarrow> (ustr \<times> BufferEntry) list" where
  "by_age m = sort_key (\<lambda>e. created_at (snd e)) m"

definition rank :: "'a \<Rightarrow> 'a list \<Rightarrow> nat" where
  "rank x xs = length (takeWhile (\<lambda>y. y \<noteq> x) xs)"

text \<open>\<open>sort_unstable_by_key\<close> may order entries of one age in any way; under the invariant ages
  are distinct, so the stable sort is the same.\<close>

definition renumber :: "(ustr \<times> BufferEntry) list \<Rightarrow> (ustr \<times> BufferEntry) list" where
  "renumber m =
     map (\<lambda>(k, e). (k, e\<lparr>created_at := of_nat (rank k (map fst (by_age m)))\<rparr>)) m"

definition next_seq :: "BufferStore \<Rightarrow> 64 word \<times> BufferStore" where
  "next_seq s =
     (let s = (if seq_counter s = - 1
               then s\<lparr>buffers := renumber (buffers s), seq_counter := of_nat (length (buffers s))\<rparr>
               else s)
      in (seq_counter s, s\<lparr>seq_counter := seq_counter s + 1\<rparr>))"

definition evict_oldest :: "BufferStore \<Rightarrow> BufferStore" where
  "evict_oldest s =
     (if buffers s = [] then s
      else let oldest = fst (arg_min_list (\<lambda>e. created_at (snd e)) (buffers s))
           in s\<lparr>buffers := om_remove oldest (buffers s)\<rparr>)"

definition set_buffer :: "ustr \<Rightarrow> ustr \<Rightarrow> BufferStore \<Rightarrow> (SetError + unit) \<times> BufferStore" where
  "set_buffer name txt s =
     (if MAX_BYTES < str_len txt then (Inl (TooLarge name (str_len txt) MAX_BYTES), s)
      else let (seq, s) = next_seq s;
               is_new = (map_of (buffers s) name = None);
               s = (if is_new \<and> MAX_BUFFERS \<le> length (buffers s) then evict_oldest s else s)
           in (Inr (), s\<lparr>buffers := om_insert name \<lparr>buf_text = txt, created_at = seq\<rparr> (buffers s)\<rparr>))"

definition get_buffer :: "ustr \<Rightarrow> BufferStore \<Rightarrow> BufferEntry option" where
  "get_buffer name s = map_of (buffers s) name"

definition default_buffer :: "BufferStore \<Rightarrow> BufferEntry option" where
  "default_buffer s = get_buffer DEFAULT_NAME s"

definition delete_buffer :: "ustr \<Rightarrow> BufferStore \<Rightarrow> BufferEntry option \<times> BufferStore" where
  "delete_buffer name s = (map_of (buffers s) name, s\<lparr>buffers := om_remove name (buffers s)\<rparr>)"

definition list_buffers :: "BufferStore \<Rightarrow> (ustr \<times> BufferEntry) list" where
  "list_buffers s = buffers s"

definition store_len :: "BufferStore \<Rightarrow> nat" where
  "store_len s = length (buffers s)"

definition store_is_empty :: "BufferStore \<Rightarrow> bool" where
  "store_is_empty s \<longleftrightarrow> buffers s = []"

text \<open>\<open>save\<close>: what the operating system answers to each call is a parameter; the model returns
  the calls made, in order, with the result.\<close>

datatype save_call = OpenFile bool bool nat | Metadata | SetPermissions nat | SetLen nat | WriteAll ustr

datatype 'e save_error = NoSuchBuffer ustr | Io "'e io_error"

fun run_calls :: "(save_call \<Rightarrow> 'e + bool) \<Rightarrow> save_call list \<Rightarrow> save_call list \<times> 'e save_error option" where
  "run_calls os [] = ([], None)"
| "run_calls os (c # cs) =
     (case os c of
        Inl e \<Rightarrow> ([c], Some (Io (OsError e)))
      | Inr fine \<Rightarrow>
          if c = Metadata \<and> \<not> fine then ([c], Some (Io InvalidInput))
          else let (made, r) = run_calls os cs in (c # made, r))"

definition save_buffer ::
  "(save_call \<Rightarrow> 'e + bool) \<Rightarrow> ustr \<Rightarrow> bool \<Rightarrow> BufferStore \<Rightarrow> save_call list \<times> ('e save_error + nat)" where
  "save_buffer os name overwrite s =
     (case get_buffer name s of
        None \<Rightarrow> ([], Inl (NoSuchBuffer name))
      | Some entry \<Rightarrow>
          let (made, r) = run_calls os
                ([OpenFile True (\<not> overwrite) 384, Metadata, SetPermissions 384] @
                 (if overwrite then [SetLen 0] else []) @ [WriteAll (buf_text entry)])
          in (made, case r of Some e \<Rightarrow> Inl e | None \<Rightarrow> Inr (str_len (buf_text entry))))"

section \<open>Invariant and abstract view\<close>

definition store_ok :: "BufferStore \<Rightarrow> bool" where
  "store_ok s \<longleftrightarrow> om_ok (buffers s) \<and> length (buffers s) \<le> MAX_BUFFERS \<and>
     distinct (map (\<lambda>e. created_at (snd e)) (buffers s)) \<and>
     list_all (\<lambda>e. created_at (snd e) < seq_counter s) (buffers s) \<and>
     list_all (\<lambda>e. str_len (buf_text (snd e)) \<le> MAX_BYTES) (buffers s)"

text \<open>Names and texts, from the oldest to the newest.\<close>

definition ages :: "BufferStore \<Rightarrow> (ustr \<times> ustr) list" where
  "ages s = map (\<lambda>e. (fst e, buf_text (snd e))) (by_age (buffers s))"

definition spec_set :: "ustr \<Rightarrow> ustr \<Rightarrow> (ustr \<times> ustr) list \<Rightarrow> (ustr \<times> ustr) list" where
  "spec_set name txt l =
     (if name \<in> fst ` set l then [e \<leftarrow> l. fst e \<noteq> name]
      else if MAX_BUFFERS \<le> length l then tl l else l) @ [(name, txt)]"

section \<open>Sorting by age\<close>

lemma by_age_eq:
  assumes "mset ys = mset m" "sorted (map (\<lambda>e. created_at (snd e)) ys)"
    "distinct (map (\<lambda>e. created_at (snd e)) ys)"
  shows "by_age m = ys"
  unfolding by_age_def
proof (rule properties_for_sort_key[OF assms(1) _ assms(2)])
  fix k assume k: "k \<in> set ys"
  have "inj_on (\<lambda>e. created_at (snd e)) (set ys)" using assms(3) by (simp add: distinct_map)
  moreover have "set m = set ys" using assms(1) by (metis set_mset_mset)
  ultimately have eq: "filter (\<lambda>x. created_at (snd k) = created_at (snd x)) zs = filter (\<lambda>x. k = x) zs"
    if "set zs = set ys" for zs
    using k that by (intro filter_cong) (auto dest: inj_onD)
  have "length (filter (\<lambda>x. k = x) ys) = length (filter (\<lambda>x. k = x) m)"
    using assms(1) by (metis mset_filter size_mset)
  then have "filter (\<lambda>x. k = x) ys = filter (\<lambda>x. k = x) m"
    by (metis replicate_length_filter)
  then show "filter (\<lambda>x. created_at (snd k) = created_at (snd x)) ys =
      filter (\<lambda>x. created_at (snd k) = created_at (snd x)) m"
    using eq[of ys] eq[of m] \<open>set m = set ys\<close> by simp
qed

lemma mset_by_age [simp]: "mset (by_age m) = mset m"
  by (simp add: by_age_def)

lemma set_by_age [simp]: "set (by_age m) = set m"
  by (simp add: by_age_def)

lemma length_by_age [simp]: "length (by_age m) = length m"
  by (simp add: by_age_def)

lemma sorted_by_age: "sorted (map (\<lambda>e. created_at (snd e)) (by_age m))"
  by (simp add: by_age_def)

lemma distinct_by_age [simp]:
  "distinct (map (\<lambda>e. created_at (snd e)) (by_age m)) \<longleftrightarrow> distinct (map (\<lambda>e. created_at (snd e)) m)"
  "distinct (map fst (by_age m)) \<longleftrightarrow> distinct (map fst m)"
  by (metis mset_by_age mset_eq_imp_distinct_iff mset_map)+

lemma by_age_remove: "by_age (om_remove k m) = [e \<leftarrow> by_age m. fst e \<noteq> k]"
  by (simp add: by_age_def om_remove_def filter_sort)

lemma by_age_newest:
  assumes "om_ok m" "distinct (map (\<lambda>e. created_at (snd e)) m)"
    "list_all (\<lambda>e. created_at (snd e) < created_at x) m"
  shows "by_age (om_insert k x m) = [e \<leftarrow> by_age m. fst e \<noteq> k] @ [(k, x)]"
    and "distinct (map (\<lambda>e. created_at (snd e)) (om_insert k x m))"
proof -
  let ?l = "[e \<leftarrow> by_age m. fst e \<noteq> k]"
  have ms: "mset (?l @ [(k, x)]) = mset (om_insert k x m)"
    by (simp add: mset_om_insert[OF assms(1)] om_remove_def)
  have l: "\<forall>e \<in> set ?l. created_at (snd e) < created_at x"
    using assms(3) by (auto simp: list_all_iff)
  have "sorted (map (\<lambda>e. created_at (snd e)) ?l)"
    unfolding by_age_def filter_sort by simp
  then have s: "sorted (map (\<lambda>e. created_at (snd e)) (?l @ [(k, x)]))"
    using l by (auto simp: sorted_append less_imp_le)
  have "distinct (map (\<lambda>e. created_at (snd e)) ?l)"
    using assms(2) by (intro distinct_map_filter) simp
  then have d: "distinct (map (\<lambda>e. created_at (snd e)) (?l @ [(k, x)]))"
    using l by fastforce
  show b: "by_age (om_insert k x m) = ?l @ [(k, x)]" by (rule by_age_eq[OF ms s d])
  show "distinct (map (\<lambda>e. created_at (snd e)) (om_insert k x m))"
    using d unfolding b[symmetric] by simp
qed

lemma by_age_oldest:
  assumes "m \<noteq> []" "distinct (map (\<lambda>e. created_at (snd e)) m)"
  shows "hd (by_age m) = arg_min_list (\<lambda>e. created_at (snd e)) m"
proof -
  let ?f = "\<lambda>e :: ustr \<times> BufferEntry. created_at (snd e)"
  obtain x xs where b: "by_age m = x # xs" using assms(1) by (metis length_by_age length_0_conv neq_Nil_conv)
  have "\<forall>e \<in> set m. ?f x \<le> ?f e" using sorted_by_age[of m] set_by_age[of m] by (auto simp: b)
  moreover have "x \<in> set m" using set_by_age[of m] by (auto simp: b)
  ultimately have "?f x = Min (?f ` set m)" by (intro Min_eqI[symmetric]) auto
  then have "?f x = ?f (arg_min_list ?f m)" using f_arg_min_list_f[OF assms(1), of ?f] by simp
  moreover have "inj_on ?f (set m)" using assms(2) by (simp add: distinct_map)
  ultimately show ?thesis
    using \<open>x \<in> set m\<close> arg_min_list_in[OF assms(1), of ?f] by (simp add: b inj_onD)
qed

lemma by_age_evict:
  assumes "om_ok m" "m \<noteq> []" "distinct (map (\<lambda>e. created_at (snd e)) m)"
  shows "by_age (om_remove (fst (arg_min_list (\<lambda>e. created_at (snd e)) m)) m) = tl (by_age m)"
proof -
  obtain x xs where b: "by_age m = x # xs" using assms(2) by (metis length_by_age length_0_conv neq_Nil_conv)
  have "distinct (map fst (x # xs))" using btree.keys_distinct[OF assms(1)] unfolding b[symmetric] by simp
  then have "fst x \<notin> fst ` set xs" by simp
  then have "\<forall>e \<in> set xs. fst e \<noteq> fst x" by (metis imageI)
  then show ?thesis
    by (simp add: by_age_remove by_age_oldest[OF assms(2,3), symmetric] b filter_id_conv)
qed

section \<open>Renumbering\<close>

lemma rank_nth: "distinct xs \<Longrightarrow> i < length xs \<Longrightarrow> rank (xs ! i) xs = i"
proof (induction xs arbitrary: i)
  case (Cons x xs)
  then show ?case by (cases i) (auto simp: rank_def)
qed simp

lemma rank_less: "x \<in> set xs \<Longrightarrow> rank x xs < length xs"
  by (induction xs) (auto simp: rank_def)

lemma small_u64: "n \<le> MAX_BUFFERS \<Longrightarrow> unat (of_nat n :: 64 word) = n"
  by (simp add: MAX_BUFFERS_def unat_of_nat take_bit_eq_mod)


lemma renumber_props:
  "map fst (renumber m) = map fst m" "length (renumber m) = length m"
  "om_ok (renumber m) \<longleftrightarrow> om_ok m" "map_of (renumber m) k = None \<longleftrightarrow> map_of m k = None"
proof -
  show f: "map fst (renumber m) = map fst m" by (simp add: renumber_def comp_def case_prod_beta)
  show "length (renumber m) = length m" by (simp add: renumber_def)
  show "om_ok (renumber m) \<longleftrightarrow> om_ok m" by (simp add: om_ok_def f)
  show "map_of (renumber m) k = None \<longleftrightarrow> map_of m k = None"
    unfolding map_of_eq_None_iff using f by (metis list.set_map)
qed

lemma by_age_renumber:
  assumes "om_ok m" "length m \<le> MAX_BUFFERS"
  shows "by_age (renumber m) = map (\<lambda>(k, e). (k, e\<lparr>created_at := of_nat (rank k (map fst (by_age m)))\<rparr>)) (by_age m)"
    (is "_ = map ?g _")
    and "map (\<lambda>e. created_at (snd e)) (by_age (renumber m)) = map of_nat [0..<length m]"
proof -
  let ?f = "\<lambda>e :: ustr \<times> BufferEntry. created_at (snd e)"
  have d: "distinct (map fst (by_age m))" using btree.keys_distinct[OF assms(1)] by simp
  have n: "map ?f (map ?g (by_age m)) = map of_nat [0..<length m]"
  proof (rule nth_equalityI)
    fix i assume "i < length (map ?f (map ?g (by_age m)))"
    then have i: "i < length m" by simp
    then have "rank (fst (by_age m ! i)) (map fst (by_age m)) = i"
      using rank_nth[OF d, of i] by simp
    then show "map ?f (map ?g (by_age m)) ! i = map of_nat [0..<length m] ! i"
      using i by (simp add: case_prod_beta)
  qed simp
  have u: "unat (of_nat i :: 64 word) = i" if "i < length m" for i
    using small_u64[of i] that assms(2) by simp
  have mono: "sorted_wrt (<) (map of_nat [0..<length m] :: 64 word list)"
    by (auto simp: sorted_wrt_map word_less_nat_alt sorted_wrt_iff_nth_less u)
  then have s: "sorted (map ?f (map ?g (by_age m)))" "distinct (map ?f (map ?g (by_age m)))"
    unfolding n by (simp_all add: strict_sorted_iff)
  have "mset (map ?g (by_age m)) = mset (renumber m)"
    by (simp add: renumber_def)
  then show b: "by_age (renumber m) = map ?g (by_age m)" by (rule by_age_eq[OF _ s])
  show "map ?f (by_age (renumber m)) = map of_nat [0..<length m]" unfolding b by (rule n)
qed

section \<open>Operations on the abstract view\<close>

text \<open>Renumbering keeps the order of the ages and restarts the numbers below the number of
  buffers.\<close>

lemma u64_less_Suc: "x \<noteq> - 1 \<Longrightarrow> x < x + (1 :: 64 word)"
  using inc_less_eq_triv_imp linorder_not_le by blast

lemma renumber_ages:
  assumes "om_ok m" "length m \<le> MAX_BUFFERS"
  shows "map (\<lambda>e. (fst e, buf_text (snd e))) (by_age (renumber m)) =
      map (\<lambda>e. (fst e, buf_text (snd e))) (by_age m)"
    and "distinct (map (\<lambda>e. created_at (snd e)) (renumber m))"
    and "list_all (\<lambda>e. created_at (snd e) < of_nat (length m)) (renumber m)"
proof -
  show "map (\<lambda>e. (fst e, buf_text (snd e))) (by_age (renumber m)) =
      map (\<lambda>e. (fst e, buf_text (snd e))) (by_age m)"
    unfolding by_age_renumber(1)[OF assms] by (simp add: case_prod_beta)
  have u: "unat (of_nat i :: 64 word) = i" if "i \<le> length m" for i
    using small_u64[of i] that assms(2) by simp
  have "inj_on (of_nat :: nat \<Rightarrow> 64 word) {0..<length m}"
    by (rule inj_on_inverseI[of _ unat]) (simp add: u)
  then have "distinct (map (\<lambda>e. created_at (snd e)) (by_age (renumber m)))"
    unfolding by_age_renumber(2)[OF assms] by (simp add: distinct_map)
  then show "distinct (map (\<lambda>e. created_at (snd e)) (renumber m))" by simp
  have "\<forall>x \<in> set (map (\<lambda>e. created_at (snd e)) (by_age (renumber m))). x < of_nat (length m)"
    unfolding by_age_renumber(2)[OF assms] by (auto simp: word_less_nat_alt u)
  then show "list_all (\<lambda>e. created_at (snd e) < of_nat (length m)) (renumber m)"
    by (simp add: list_all_iff)
qed

text \<open>Taking a sequence number: the ages keep their order and the number is above all of them.\<close>

lemma next_seq_props:
  assumes "store_ok s" "next_seq s = (seq, t)"
  shows "om_ok (buffers t)" "length (buffers t) = length (buffers s)"
    "distinct (map (\<lambda>e. created_at (snd e)) (buffers t))"
    "list_all (\<lambda>e. created_at (snd e) < seq) (buffers t)" "seq < seq_counter t"
    "list_all (\<lambda>e. str_len (buf_text (snd e)) \<le> MAX_BYTES) (buffers t)"
    "ages t = ages s" "map_of (buffers t) k = None \<longleftrightarrow> map_of (buffers s) k = None"
proof -
  note ok = assms(1)[unfolded store_ok_def]
  let ?m = "buffers s"
  have n: "of_nat (length ?m) \<noteq> (- 1 :: 64 word)"
  proof
    assume "of_nat (length ?m) = (- 1 :: 64 word)"
    then have "unat (of_nat (length ?m) :: 64 word) = unat (- 1 :: 64 word)" by simp
    moreover have "unat (of_nat (length ?m) :: 64 word) = length ?m" using ok small_u64 by blast
    ultimately show False using ok by (simp add: MAX_BUFFERS_def unsigned_minus_1_eq_mask mask_eq_exp_minus_1)
  qed
  have t: "(seq_counter s = - 1 \<and> buffers t = renumber ?m \<and> seq = of_nat (length ?m)) \<or>
      (seq_counter s \<noteq> - 1 \<and> buffers t = ?m \<and> seq = seq_counter s)" "seq_counter t = seq + 1"
    using assms(2) by (auto simp: next_seq_def Let_def split: if_splits)
  note r = renumber_props[of ?m] renumber_ages[of ?m]
  show "om_ok (buffers t)" "length (buffers t) = length (buffers s)"
    "map_of (buffers t) k = None \<longleftrightarrow> map_of (buffers s) k = None"
    "distinct (map (\<lambda>e. created_at (snd e)) (buffers t))"
    "list_all (\<lambda>e. created_at (snd e) < seq) (buffers t)" "ages t = ages s"
    using t(1) ok r by (auto simp: ages_def)
  have "list_all (\<lambda>e. str_len (buf_text (snd e)) \<le> MAX_BYTES) (renumber ?m)"
    using ok by (auto simp: renumber_def list_all_iff)
  then show "list_all (\<lambda>e. str_len (buf_text (snd e)) \<le> MAX_BYTES) (buffers t)" using t(1) ok by auto
  show "seq < seq_counter t" using t n u64_less_Suc by auto
qed

lemma ages_keys: "fst ` set (ages s) = fst ` set (buffers s)"
  by (simp add: ages_def image_image)

lemma om_remove_ok:
  assumes "om_ok m" "distinct (map (\<lambda>e. created_at (snd e)) m)"
  shows "om_ok (om_remove k m)" "distinct (map (\<lambda>e. created_at (snd e)) (om_remove k m))"
    "list_all P m \<Longrightarrow> list_all P (om_remove k m)" "length (om_remove k m) \<le> length m"
  using assms by (auto simp: om_remove_def list_all_iff distinct_map_filter om_ok_remove[unfolded om_remove_def])

lemma ages_remove: "ages (s\<lparr>buffers := om_remove k (buffers s)\<rparr>) = [e \<leftarrow> ages s. fst e \<noteq> k]"
  by (simp add: ages_def by_age_remove filter_map o_def)

lemma evict_props:
  assumes "om_ok (buffers s)" "buffers s \<noteq> []" "distinct (map (\<lambda>e. created_at (snd e)) (buffers s))"
  shows "ages (evict_oldest s) = tl (ages s)" "length (buffers (evict_oldest s)) = length (buffers s) - 1"
    "\<exists>k. evict_oldest s = s\<lparr>buffers := om_remove k (buffers s)\<rparr>"
proof -
  show a: "ages (evict_oldest s) = tl (ages s)"
    using assms by (simp add: evict_oldest_def Let_def ages_def by_age_evict map_tl)
  then have "length (ages (evict_oldest s)) = length (ages s) - 1" by simp
  then show "length (buffers (evict_oldest s)) = length (buffers s) - 1" by (simp add: ages_def)
  show "\<exists>k. evict_oldest s = s\<lparr>buffers := om_remove k (buffers s)\<rparr>"
    using assms(2) by (auto simp: evict_oldest_def Let_def)
qed


lemma set_refines:
  assumes "store_ok s" "set_buffer name txt s = (r, s')" "str_len txt \<le> MAX_BYTES"
  shows "r = Inr () \<and> store_ok s' \<and> ages s' = spec_set name txt (ages s)"
proof -
  obtain seq t where n: "next_seq s = (seq, t)" by (cases "next_seq s")
  note t = next_seq_props[OF assms(1) n]
  define u where "u = (if map_of (buffers t) name = None \<and> MAX_BUFFERS \<le> length (buffers t) then evict_oldest t else t)"
  have r: "r = Inr ()" and s': "s' = u\<lparr>buffers := om_insert name \<lparr>buf_text = txt, created_at = seq\<rparr> (buffers u)\<rparr>"
    using assms(2,3) by (auto simp: set_buffer_def n u_def Let_def split: if_splits)
  have len: "length (ages s) = length (buffers t)" using t(2) by (simp add: ages_def)
  have new: "map_of (buffers t) name = None \<longleftrightarrow> name \<notin> fst ` set (ages s)"
    using ages_keys[of t] by (simp add: map_of_eq_None_iff t(7))
  have evict: "buffers t \<noteq> []" if "MAX_BUFFERS \<le> length (buffers t)" using that by (auto simp: MAX_BUFFERS_def)
  have ua: "ages u = (if name \<notin> fst ` set (ages s) \<and> MAX_BUFFERS \<le> length (ages s) then tl (ages s) else ages s)"
    using evict_props(1)[OF t(1) evict t(3)] by (simp add: u_def new len t(7))
  have ub: "buffers u = buffers t \<or> (\<exists>k. buffers u = om_remove k (buffers t))" "seq_counter u = seq_counter t"
  proof -
    have "u = t \<or> (\<exists>k. u = t\<lparr>buffers := om_remove k (buffers t)\<rparr>)"
      using evict_props(3)[OF t(1) evict t(3)] unfolding u_def by metis
    then show "buffers u = buffers t \<or> (\<exists>k. buffers u = om_remove k (buffers t))"
      "seq_counter u = seq_counter t" by fastforce+
  qed
  have u: "om_ok (buffers u)" "distinct (map (\<lambda>e. created_at (snd e)) (buffers u))"
    "list_all (\<lambda>e. created_at (snd e) < seq) (buffers u)"
    "list_all (\<lambda>e. str_len (buf_text (snd e)) \<le> MAX_BYTES) (buffers u)"
    using ub(1) t om_remove_ok[OF t(1,3)] by auto
  have ins: "mset (buffers s') = add_mset (name, \<lparr>buf_text = txt, created_at = seq\<rparr>) (mset (om_remove name (buffers u)))"
    by (simp add: s' mset_om_insert[OF u(1)])
  have b: "by_age (buffers s') = [e \<leftarrow> by_age (buffers u). fst e \<noteq> name] @ [(name, \<lparr>buf_text = txt, created_at = seq\<rparr>)]"
    using by_age_newest(1)[OF u(1,2), of "\<lparr>buf_text = txt, created_at = seq\<rparr>" name] u(3) by (simp add: s')
  have a: "ages s' = [e \<leftarrow> ages u. fst e \<noteq> name] @ [(name, txt)]"
    by (simp add: ages_def b filter_map o_def)
  have f: "[e \<leftarrow> l. fst e \<noteq> name] = l" if "name \<notin> fst ` set l" for l :: "(ustr \<times> ustr) list"
    using that by (induction l) auto
  have "name \<notin> fst ` set (tl (ages s))" if "name \<notin> fst ` set (ages s)"
    using that by (cases "ages s") auto
  then have spec: "ages s' = spec_set name txt (ages s)"
    unfolding a ua spec_set_def by (auto simp: f)
  have "length (ages s') \<le> MAX_BUFFERS"
  proof -
    have "length (ages s) \<le> MAX_BUFFERS" using assms(1) by (simp add: ages_def store_ok_def)
    moreover have "length [e \<leftarrow> ages s. fst e \<noteq> name] < length (ages s)" if "name \<in> fst ` set (ages s)"
      using that length_filter_less[of _ "ages s" "\<lambda>e. fst e \<noteq> name"] by fastforce
    ultimately show ?thesis unfolding spec spec_set_def
      by (cases "name \<in> fst ` set (ages s)") (simp_all add: MAX_BUFFERS_def)
  qed
  then have "length (buffers s') \<le> MAX_BUFFERS" by (simp add: ages_def)
  moreover have "set (buffers s') = insert (name, \<lparr>buf_text = txt, created_at = seq\<rparr>) (set (om_remove name (buffers u)))"
    using ins by (metis set_mset_add_mset_insert set_mset_mset)
  moreover have "distinct (map (\<lambda>e. created_at (snd e)) (buffers s'))"
    unfolding s' using by_age_newest(2)[OF u(1,2), of "\<lparr>buf_text = txt, created_at = seq\<rparr>" name] u(3) by simp
  moreover have "seq < seq_counter s'" "om_ok (buffers s')" using t(5) ub(2) u(1) by (simp_all add: s')
  ultimately have "store_ok s'"
    using u(3,4) assms(3) by (force simp: store_ok_def list_all_iff om_remove_def)
  then show ?thesis using r spec by simp
qed

lemma delete_refines:
  assumes "store_ok s" "delete_buffer name s = (r, s')"
  shows "store_ok s' \<and> ages s' = [e \<leftarrow> ages s. fst e \<noteq> name]"
proof -
  have s': "s' = s\<lparr>buffers := om_remove name (buffers s)\<rparr>" using assms(2) by (simp add: delete_buffer_def)
  note ok = assms(1)[unfolded store_ok_def]
  have "store_ok s'"
    using ok om_remove_ok[of "buffers s"] unfolding s' store_ok_def by simp (meson le_trans)
  then show ?thesis unfolding s' by (simp add: ages_remove)
qed

lemma get_ages:
  assumes "om_ok (buffers s)"
  shows "map_option buf_text (get_buffer k s) = map_of (ages s) k"
proof -
  have "distinct (map fst (by_age (buffers s)))" using btree.keys_distinct[OF assms] by simp
  then have "map_of (by_age (buffers s)) = map_of (buffers s)"
    using btree.keys_distinct[OF assms] by (subst map_of_inject_set) auto
  moreover have "map_of (map (\<lambda>e. (fst e, buf_text (snd e))) l) k = map_option buf_text (map_of l k)"
    for l :: "(ustr \<times> BufferEntry) list" by (induction l) auto
  ultimately show ?thesis by (simp add: get_buffer_def ages_def)
qed

section \<open>The store as a machine\<close>

datatype buffer_op = SetOp ustr ustr | DeleteOp ustr

fun buffer_step :: "buffer_op \<Rightarrow> BufferStore \<Rightarrow> BufferStore option" where
  "buffer_step (SetOp name txt) s = Some (snd (set_buffer name txt s))"
| "buffer_step (DeleteOp name) s = Some (snd (delete_buffer name s))"

fun spec_buffer_op :: "buffer_op \<Rightarrow> (ustr \<times> ustr) list \<Rightarrow> (ustr \<times> ustr) list" where
  "spec_buffer_op (SetOp name txt) l = (if MAX_BYTES < str_len txt then l else spec_set name txt l)"
| "spec_buffer_op (DeleteOp name) l = [e \<leftarrow> l. fst e \<noteq> name]"

lemma buffer_step_refines:
  assumes "store_ok s"
  shows "\<exists>s'. buffer_step e s = Some s' \<and> store_ok s' \<and> ages s' = spec_buffer_op e (ages s)"
proof (cases e)
  case (SetOp name t)
  show ?thesis
  proof (cases "MAX_BYTES < str_len t")
    case True
    then show ?thesis using SetOp assms by (simp add: set_buffer_def)
  next
    case False
    obtain r s' where "set_buffer name t s = (r, s')" by (cases "set_buffer name t s")
    then show ?thesis using set_refines[OF assms] False SetOp by simp
  qed
next
  case (DeleteOp name)
  then show ?thesis using delete_refines[OF assms, of name] by (simp add: delete_buffer_def)
qed

interpretation buffer_machine: safe_machine buffer_step store_ok "\<lambda>_ _. True"
  by unfold_locales (use buffer_step_refines in blast)

lemma store_new_ok: "store_ok store_new" "ages store_new = []"
  by (simp_all add: store_ok_def store_new_def ages_def by_age_def om_ok_def)

section \<open>Properties\<close>

text \<open>C15. The buffer store implements a list of buffers from the oldest to the newest. From the empty
  store, any sequence of sets and deletes leaves exactly the list that the same operations on
  lists leave: a set moves the name to the newest end, evicting the oldest buffer only when the
  name is new and 100 buffers are stored; an oversized text changes nothing; and looking a name
  up finds its entry in that list. The renumbering of the sequence counter is never visible.\<close>

theorem buffers_refine_ages:
  "\<exists>s. fold_opt buffer_step ops store_new = Some s \<and> store_ok s \<and>
     ages s = fold spec_buffer_op ops [] \<and>
     map_option buf_text (get_buffer name s) = map_of (fold spec_buffer_op ops []) name \<and>
     length (buffers s) \<le> 100"
proof -
  have "\<exists>s. fold_opt buffer_step ops t = Some s \<and> store_ok s \<and> ages s = fold spec_buffer_op ops (ages t)"
    if "store_ok t" for t using that
  proof (induction ops arbitrary: t)
    case (Cons e ops)
    then show ?case using buffer_step_refines[OF Cons.prems, of e] by fastforce
  qed simp
  from this[OF store_new_ok(1)] show ?thesis
    using get_ages[of _ name] by (auto simp: store_new_ok(2) store_ok_def MAX_BUFFERS_def)
qed

text \<open>The sequence counter never repeats a number. Whatever the counter is, also at \<open>u64::MAX\<close>,
  setting a buffer within the cap succeeds, keeps the invariant (entries with distinct numbers,
  all below the counter), and makes the buffer the newest one, with the other buffers in the
  order they had; a text above the cap is refused with the sizes and changes nothing.\<close>

theorem set_buffer_any_counter:
  assumes "store_ok s"
  shows "if str_len txt \<le> MAX_BYTES
    then \<exists>s'. set_buffer name txt s = (Inr (), s') \<and> store_ok s' \<and>
      ages s' = spec_set name txt (ages s) \<and> last (ages s') = (name, txt) \<and>
      map_option buf_text (get_buffer name s') = Some txt
    else set_buffer name txt s = (Inl (TooLarge name (str_len txt) MAX_BYTES), s)"
proof (cases "str_len txt \<le> MAX_BYTES")
  case True
  obtain r s' where r: "set_buffer name txt s = (r, s')" by (cases "set_buffer name txt s")
  have *: "r = Inr ()" "store_ok s'" "ages s' = spec_set name txt (ages s)"
    using set_refines[OF assms r True] by auto
  have "map_option buf_text (get_buffer name s') = map_of (spec_set name txt (ages s)) name"
    using get_ages[of s' name] * by (simp add: store_ok_def)
  moreover have "name \<notin> fst ` set (if name \<in> fst ` set (ages s) then [e \<leftarrow> ages s. fst e \<noteq> name]
      else if MAX_BUFFERS \<le> length (ages s) then tl (ages s) else ages s)"
    by (cases "ages s") auto
  then have "map_of (spec_set name txt (ages s)) name = Some txt"
    unfolding spec_set_def by (simp add: map_add_def map_of_eq_None_iff[THEN iffD2] split: option.split)
  ultimately show ?thesis using True r * by (simp add: spec_set_def)
qed (simp add: set_buffer_def)

definition full_counter :: BufferStore where
  "full_counter = \<lparr>buffers = [([97], \<lparr>buf_text = [49], created_at = 7\<rparr>), ([98], \<lparr>buf_text = [50], created_at = 3\<rparr>)],
     seq_counter = - 1\<rparr>"

theorem set_buffer_any_counter_witness:
  "\<exists>s'. set_buffer [99] [51] full_counter = (Inr (), s') \<and> store_ok s' \<and>
     ages s' = [([98], [50]), ([97], [49]), ([99], [51])]"
proof -
  have ok: "store_ok full_counter"
    by (simp add: store_ok_def full_counter_def om_ok_def MAX_BUFFERS_def MAX_BYTES_def str_len_def len_utf8_def
        word_less_nat_alt unsigned_minus_1_eq_mask mask_eq_exp_minus_1)
  have "spec_set [99] [51] (ages full_counter) = [([98], [50]), ([97], [49]), ([99], [51])]"
    by (simp add: spec_set_def ages_def full_counter_def by_age_def MAX_BUFFERS_def)
  moreover have "str_len [51] \<le> MAX_BYTES" by (simp add: str_len_def len_utf8_def MAX_BYTES_def)
  ultimately show ?thesis using set_buffer_any_counter[OF ok, of "[51]" "[99]"] by auto
qed

text \<open>C16. A saved buffer is never readable by others. Whatever the operating system answers, the text
  is written at most once and only after the opened file was found to be regular and its mode
  was set to 0600; a new file is created with that mode and, without the overwrite flag, never
  opened over an existing one; and the result is the length exactly when every call succeeded.\<close>

theorem save_buffer_private:
  assumes "save_buffer os name overwrite s = (made, r)"
  shows "(\<forall>t. WriteAll t \<in> set made \<longrightarrow>
      made = [OpenFile True (\<not> overwrite) 384, Metadata, SetPermissions 384] @
        (if overwrite then [SetLen 0] else []) @ [WriteAll t] \<and>
      os Metadata = Inr True \<and> \<not> isl (os (SetPermissions 384)) \<and>
      map_option buf_text (get_buffer name s) = Some t) \<and>
    (SetLen 0 \<in> set made \<longrightarrow> overwrite \<and> os Metadata = Inr True) \<and>
    (\<forall>n. r = Inr n \<longleftrightarrow> (\<exists>t. WriteAll t \<in> set made \<and> \<not> isl (os (WriteAll t)) \<and> n = str_len t))"
proof (cases "get_buffer name s")
  case None
  then show ?thesis using assms by (auto simp: save_buffer_def)
next
  case (Some e)
  consider (opened) x where "os (OpenFile True (\<not> overwrite) 384) = Inl x"
    | (stat) x y where "os (OpenFile True (\<not> overwrite) 384) = Inr y" "os Metadata = Inl x"
    | (regular) y where "os (OpenFile True (\<not> overwrite) 384) = Inr y" "os Metadata = Inr False"
    | (mode) x y where "os (OpenFile True (\<not> overwrite) 384) = Inr y" "os Metadata = Inr True"
        "os (SetPermissions 384) = Inl x"
    | (ok) y z where "os (OpenFile True (\<not> overwrite) 384) = Inr y" "os Metadata = Inr True"
        "os (SetPermissions 384) = Inr z"
    by (metis (full_types) sum.exhaust)
  then show ?thesis
  proof cases
    case ok
    then show ?thesis using assms Some
      by (cases overwrite; cases "os (SetLen 0)"; cases "os (WriteAll (buf_text e))")
        (auto simp: save_buffer_def Let_def split: prod.splits)
  qed (use assms Some in \<open>auto simp: save_buffer_def Let_def split: prod.splits\<close>)
qed

theorem save_buffer_private_witness:
  "\<exists>s made r. save_buffer (\<lambda>_. Inr True :: nat + bool) [99] False s = (made, r) \<and>
     WriteAll [51] \<in> set made \<and> made = [OpenFile True True 384, Metadata, SetPermissions 384, WriteAll [51]]"
proof -
  define s where "s = \<lparr>buffers = [([99], \<lparr>buf_text = [51], created_at = 0\<rparr>)], seq_counter = 1\<rparr>"
  obtain made r where e: "save_buffer (\<lambda>_. Inr True :: nat + bool) [99] False s = (made, r)"
    by (cases "save_buffer (\<lambda>_. Inr True :: nat + bool) [99] False s")
  then have w: "WriteAll [51] \<in> set made"
    by (auto simp: save_buffer_def s_def get_buffer_def Let_def)
  show ?thesis using save_buffer_private[OF e] e w by auto
qed

end
