(* ===== verification/Clipboard.thy ===== *)
theory Clipboard
  imports Utf8
begin

text \<open>
  The system clipboard: \<open>src/src/clipboard.rs\<close> (which command is run, and the loop that feeds it
  the text and waits for it) and \<open>base64_encode\<close> of \<open>src/src/bootstrap.rs\<close>, the encoding of the
  OSC 52 fallback. The environment, the file system and the answers of the child process are
  parameters.
\<close>

section \<open>Which command\<close>

datatype CopySource = Detected string | Override

record CopyCommand =
  cc_program :: string
  cc_args :: "string list"
  cc_source :: CopySource

definition new_detected :: "string \<Rightarrow> string list \<Rightarrow> string \<Rightarrow> CopyCommand" where
  "new_detected program args label = \<lparr>cc_program = program, cc_args = args, cc_source = Detected label\<rparr>"

definition new_override :: "string \<Rightarrow> string list \<Rightarrow> CopyCommand" where
  "new_override program args = \<lparr>cc_program = program, cc_args = args, cc_source = Override\<rparr>"

definition command_label :: "CopyCommand \<Rightarrow> string" where
  "command_label c = (case cc_source c of Detected name \<Rightarrow> name
     | Override \<Rightarrow> ''override('' @ cc_program c @ '')'')"

text \<open>\<open>env_set\<close> and \<open>which\<close> read the environment, the build target is fixed: what they answer.\<close>

record Environment =
  var_os :: "string \<Rightarrow> string option"
  on_path :: "string \<Rightarrow> bool"
  macos :: bool

definition env_set :: "Environment \<Rightarrow> string \<Rightarrow> bool" where
  "env_set env name = (case var_os env name of Some v \<Rightarrow> v \<noteq> [] | None \<Rightarrow> False)"

definition detect_chain :: "Environment \<Rightarrow> CopyCommand option" where
  "detect_chain env =
     (if env_set env ''WAYLAND_DISPLAY'' \<and> on_path env ''wl-copy'' then
        Some (new_detected ''wl-copy'' [] ''wl-copy'')
      else if env_set env ''DISPLAY'' \<and> on_path env ''xclip'' then
        Some (new_detected ''xclip'' [''-selection'', ''clipboard''] ''xclip'')
      else if env_set env ''DISPLAY'' \<and> on_path env ''xsel'' then
        Some (new_detected ''xsel'' [''--clipboard'', ''--input''] ''xsel'')
      else if macos env \<and> on_path env ''pbcopy'' then Some (new_detected ''pbcopy'' [] ''pbcopy'')
      else None)"

text \<open>The cached result of the first detection is passed along, as the \<open>OnceLock\<close> keeps it.\<close>

type_synonym auto_cache = "CopyCommand option option"

definition resolve_for_session ::
  "Environment \<Rightarrow> string list option \<Rightarrow> bool \<Rightarrow> auto_cache \<Rightarrow> CopyCommand option \<times> auto_cache" where
  "resolve_for_session env override_argv remote cache =
     (case override_argv of
        Some (program # args) \<Rightarrow> (if program = [] then None else Some (new_override program args), cache)
      | _ \<Rightarrow>
          if remote then (None, cache)
          else case cache of
            Some c \<Rightarrow> (c, cache)
          | None \<Rightarrow> (detect_chain env, Some (detect_chain env)))"

definition resolve :: "Environment \<Rightarrow> string list option \<Rightarrow> auto_cache \<Rightarrow> CopyCommand option \<times> auto_cache" where
  "resolve env override_argv cache =
     resolve_for_session env override_argv (env_set env ''SSH_CONNECTION'' \<or> env_set env ''SSH_TTY'') cache"

section \<open>Feeding the command\<close>

datatype 'e ClipboardError =
    NoCommand | Spawn string 'e | StdinUnavailable | ClipWrite "'e + unit" | Wait 'e
  | Timeout string | ExitStatus string "int option"

text \<open>The answers to \<open>write\<close> (bytes accepted, interrupted, would block, an error), each with
  whether the deadline had passed when it was asked for; then the answers to \<open>try_wait\<close>.\<close>

datatype 'e write_answer = Wrote nat | Interrupted | WouldBlock | WriteFails 'e

datatype 'e wait_answer = Running | Finished bool "int option" | WaitFails 'e

fun feed_child ::
  "string \<Rightarrow> (bool \<times> 'e write_answer) list \<Rightarrow> 'b list \<Rightarrow> 'b list \<Rightarrow> ('e ClipboardError + unit) option \<times> 'b list" where
  "feed_child program answers [] sent = (Some (Inr ()), sent)"
| "feed_child program [] (b # bs) sent = (None, sent)"
| "feed_child program ((late, a) # as) (b # bs) sent =
     (if late then (Some (Inl (Timeout program)), sent)
      else case a of
        Wrote n \<Rightarrow>
          if n = 0 then (Some (Inl (ClipWrite (Inr ()))), sent)
          else feed_child program as (drop n (b # bs)) (sent @ take n (b # bs))
      | Interrupted \<Rightarrow> feed_child program as (b # bs) sent
      | WouldBlock \<Rightarrow> feed_child program as (b # bs) sent
      | WriteFails e \<Rightarrow> (Some (Inl (ClipWrite (Inl e))), sent))"

fun await_child ::
  "string \<Rightarrow> string \<Rightarrow> (bool \<times> 'e wait_answer) list \<Rightarrow> ('e ClipboardError + string) option" where
  "await_child program label [] = None"
| "await_child program label ((late, a) # as) =
     (case a of
        WaitFails e \<Rightarrow> Some (Inl (Wait e))
      | Finished success c \<Rightarrow> Some (if success then Inr label else Inl (ExitStatus program c))
      | Running \<Rightarrow> if late then Some (Inl (Timeout program)) else await_child program label as)"

text \<open>The whole delivery: the result of \<open>spawn\<close> and of making the pipe non-blocking, then the
  answers above. \<^const>\<open>None\<close> when the answers given end while the command is still fed or
  awaited; the second component is what the command has been sent.\<close>

definition copy_with_timeout ::
  "8 word list \<Rightarrow> CopyCommand \<Rightarrow> 'e + unit \<Rightarrow> 'e + unit \<Rightarrow> (bool \<times> 'e write_answer) list \<Rightarrow>
     (bool \<times> 'e wait_answer) list \<Rightarrow> ('e ClipboardError + string) option \<times> 8 word list" where
  "copy_with_timeout txt cmd spawned nonblocking writes waits =
     (case spawned of
        Inl e \<Rightarrow> (Some (Inl (Spawn (cc_program cmd) e)), [])
      | Inr _ \<Rightarrow>
          (case nonblocking of
             Inl e \<Rightarrow> (Some (Inl (ClipWrite (Inl e))), [])
           | Inr _ \<Rightarrow>
               (case feed_child (cc_program cmd) writes txt [] of
                  (Some (Inl e), sent) \<Rightarrow> (Some (Inl e), sent)
                | (Some (Inr _), sent) \<Rightarrow> (await_child (cc_program cmd) (command_label cmd) waits, sent)
                | (None, sent) \<Rightarrow> (None, sent))))"

section \<open>Base64\<close>

definition ALPHABET :: "string" where
  "ALPHABET = ''ABCDEFGHIJKLMNOPQRSTUVWXYZabcdefghijklmnopqrstuvwxyz0123456789+/''"

definition sextet :: "32 word \<Rightarrow> nat \<Rightarrow> char option" where
  "sextet triple k = vec_get (unat (and (drop_bit k triple) 0x3F)) ALPHABET"

text \<open>One chunk of at most three bytes.\<close>

definition encode_chunk :: "8 word list \<Rightarrow> string option" where
  "encode_chunk chunk =
     do { x \<leftarrow> vec_get 0 chunk;
          let b0 = ucast x;
          let b1 = (case vec_get 1 chunk of Some b \<Rightarrow> ucast b | None \<Rightarrow> 0);
          let b2 = (case vec_get 2 chunk of Some b \<Rightarrow> ucast b | None \<Rightarrow> 0);
          let triple = or (or (push_bit 16 b0) (push_bit 8 b1)) b2;
          c0 \<leftarrow> sextet triple 18;
          c1 \<leftarrow> sextet triple 12;
          c2 \<leftarrow> (if 1 < length chunk then sextet triple 6 else Some (CHR ''=''));
          c3 \<leftarrow> (if 2 < length chunk then sextet triple 0 else Some (CHR ''=''));
          Some [c0, c1, c2, c3] }"

text \<open>\<open>data.chunks(3)\<close>.\<close>

fun chunks3 :: "'a list \<Rightarrow> 'a list list" where
  "chunks3 [] = []"
| "chunks3 [a] = [[a]]"
| "chunks3 [a, b] = [[a, b]]"
| "chunks3 (a # b # c # ds) = [a, b, c] # chunks3 ds"

definition base64_encode :: "8 word list \<Rightarrow> string option" where
  "base64_encode data = fold_opt (\<lambda>chunk out. map_option ((@) out) (encode_chunk chunk)) (chunks3 data) []"

section \<open>Decoding\<close>

text \<open>A decoder for the standard alphabet with padding: what the terminal does with the sequence.\<close>

fun position :: "'a \<Rightarrow> 'a list \<Rightarrow> nat option" where
  "position x [] = None"
| "position x (y # ys) = (if x = y then Some 0 else map_option Suc (position x ys))"

definition sextet_of :: "char \<Rightarrow> 32 word option" where
  "sextet_of c = map_option of_nat (position c ALPHABET)"

definition joined :: "32 word \<Rightarrow> 32 word \<Rightarrow> 32 word \<Rightarrow> 32 word \<Rightarrow> 32 word" where
  "joined a b c d = or (or (or (push_bit 18 a) (push_bit 12 b)) (push_bit 6 c)) d"

definition byte_of :: "nat \<Rightarrow> 32 word \<Rightarrow> 8 word" where
  "byte_of k t = ucast (drop_bit k t)"

fun base64_decode :: "string \<Rightarrow> 8 word list option" where
  "base64_decode [] = Some []"
| "base64_decode (c0 # c1 # c2 # c3 # cs) =
     do { a \<leftarrow> sextet_of c0;
          b \<leftarrow> sextet_of c1;
          if c2 = CHR ''='' then
            (if c3 = CHR ''='' \<and> cs = [] then Some [byte_of 16 (joined a b 0 0)] else None)
          else do {
            c \<leftarrow> sextet_of c2;
            if c3 = CHR ''='' then
              (if cs = [] then Some [byte_of 16 (joined a b c 0), byte_of 8 (joined a b c 0)] else None)
            else do {
              d \<leftarrow> sextet_of c3;
              bs \<leftarrow> base64_decode cs;
              Some ([byte_of 16 (joined a b c d), byte_of 8 (joined a b c d), byte_of 0 (joined a b c d)] @ bs) } } }"
| "base64_decode _ = None"

lemma alphabet_positions: "list_all (\<lambda>i. position (ALPHABET ! i) ALPHABET = Some i \<and> ALPHABET ! i \<noteq> CHR ''='') [0..<64]"
  unfolding ALPHABET_def by code_simp

lemma length_alphabet: "length ALPHABET = 64"
  by (simp add: ALPHABET_def)

definition low6 :: "32 word \<Rightarrow> nat \<Rightarrow> 32 word" where
  "low6 t k = and (drop_bit k t) (mask 6)"

lemma low6_less: "unat (low6 t k) < 64"
proof -
  have "unat (low6 t k) = take_bit 6 (unat (drop_bit k t))"
    by (simp only: low6_def take_bit_eq_mask[symmetric] unsigned_take_bit_eq)
  then show ?thesis using take_bit_nat_less_exp[of 6 "unat (drop_bit k t)"] by simp
qed

lemma sextet_eq:
  "sextet t k = Some (ALPHABET ! unat (low6 t k))" "sextet_of (ALPHABET ! unat (low6 t k)) = Some (low6 t k)"
  "ALPHABET ! unat (low6 t k) \<noteq> CHR ''=''"
proof -
  have m: "(0x3F :: 32 word) = mask 6" by (simp add: mask_eq_exp_minus_1)
  show "sextet t k = Some (ALPHABET ! unat (low6 t k))"
    using low6_less[of t k] by (simp add: sextet_def vec_get_def length_alphabet m low6_def)
  have "position (ALPHABET ! unat (low6 t k)) ALPHABET = Some (unat (low6 t k)) \<and> ALPHABET ! unat (low6 t k) \<noteq> CHR ''=''"
    using alphabet_positions low6_less[of t k] by (simp add: list_all_iff)
  then show "sextet_of (ALPHABET ! unat (low6 t k)) = Some (low6 t k)" "ALPHABET ! unat (low6 t k) \<noteq> CHR ''=''"
    by (simp_all add: sextet_of_def)
qed

definition packed :: "8 word \<Rightarrow> 8 word \<Rightarrow> 8 word \<Rightarrow> 32 word" where
  "packed x y z = or (or (push_bit 16 (ucast x)) (push_bit 8 (ucast y))) (ucast z)"

lemma bytes_of_packed [simp]:
  "byte_of 16 (packed x y z) = x" "byte_of 8 (packed x y z) = y" "byte_of 0 (packed x y z) = z"
  by (rule bit_word_eqI; auto simp: byte_of_def packed_def bit_simps dest: bit_imp_le_length)+

lemma joined_low6:
  assumes "take_bit 24 t = t"
  shows "joined (low6 t 18) (low6 t 12) (low6 t 6) (low6 t 0) = t"
proof (rule bit_word_eqI)
  fix n
  assume "n < LENGTH(32)"
  have "bit t n \<Longrightarrow> n < 24" using assms by (metis bit_take_bit_iff)
  then show "bit (joined (low6 t 18) (low6 t 12) (low6 t 6) (low6 t 0)) n = bit t n"
    by (cases "n < 6"; cases "n < 12"; cases "n < 18") (auto simp: joined_def low6_def bit_simps \<open>n < LENGTH(32)\<close>)
qed

lemma take_bit_packed: "take_bit 24 (packed x y z) = packed x y z"
  by (rule bit_word_eqI) (auto simp: packed_def bit_simps dest: bit_imp_le_length)

lemma padding_zero [simp]:
  "low6 (packed x y 0) 0 = 0" "low6 (packed x 0 0) 6 = 0" "low6 (packed x 0 0) 0 = 0"
  by (rule bit_word_eqI; auto simp: low6_def packed_def bit_simps dest: bit_imp_le_length)+

lemma encode_chunk_eq:
  "encode_chunk [x] = Some [ALPHABET ! unat (low6 (packed x 0 0) 18), ALPHABET ! unat (low6 (packed x 0 0) 12), CHR ''='', CHR ''='']"
  "encode_chunk [x, y] = Some [ALPHABET ! unat (low6 (packed x y 0) 18), ALPHABET ! unat (low6 (packed x y 0) 12),
     ALPHABET ! unat (low6 (packed x y 0) 6), CHR ''='']"
  "encode_chunk [x, y, z] = Some [ALPHABET ! unat (low6 (packed x y z) 18), ALPHABET ! unat (low6 (packed x y z) 12),
     ALPHABET ! unat (low6 (packed x y z) 6), ALPHABET ! unat (low6 (packed x y z) 0)]"
proof -
  have p: "or (or (push_bit 16 (ucast x)) (push_bit 8 0)) 0 = packed x 0 0"
    "or (or (push_bit 16 (ucast x)) (push_bit 8 (ucast y))) 0 = packed x y 0"
    by (simp_all add: packed_def)
  show "encode_chunk [x] = Some [ALPHABET ! unat (low6 (packed x 0 0) 18), ALPHABET ! unat (low6 (packed x 0 0) 12), CHR ''='', CHR ''='']"
    "encode_chunk [x, y] = Some [ALPHABET ! unat (low6 (packed x y 0) 18), ALPHABET ! unat (low6 (packed x y 0) 12),
     ALPHABET ! unat (low6 (packed x y 0) 6), CHR ''='']"
    by (simp_all add: encode_chunk_def Let_def vec_get_def p sextet_eq(1) del: push_bit_of_0 or.right_neutral)
qed (simp add: encode_chunk_def Let_def sextet_eq(1) vec_get_def packed_def[symmetric])

lemma decode_chunk:
  "base64_decode ([ALPHABET ! unat (low6 (packed x y z) 18), ALPHABET ! unat (low6 (packed x y z) 12),
     ALPHABET ! unat (low6 (packed x y z) 6), ALPHABET ! unat (low6 (packed x y z) 0)] @ cs) =
   map_option ((@) [x, y, z]) (base64_decode cs)"
  by (simp add: sextet_eq(2,3) joined_low6[OF take_bit_packed] map_option_case split: option.split)

lemma decode_last:
  "base64_decode [ALPHABET ! unat (low6 (packed x 0 0) 18), ALPHABET ! unat (low6 (packed x 0 0) 12), CHR ''='', CHR ''=''] = Some [x]"
  "base64_decode [ALPHABET ! unat (low6 (packed x y 0) 18), ALPHABET ! unat (low6 (packed x y 0) 12),
     ALPHABET ! unat (low6 (packed x y 0) 6), CHR ''=''] = Some [x, y]"
  using joined_low6[OF take_bit_packed[of x 0 0]] joined_low6[OF take_bit_packed[of x y 0]]
  by (simp_all add: sextet_eq(2,3))

lemma fold_opt_prefix:
  "fold_opt (\<lambda>c out. map_option ((@) out) (f c)) cs out =
     map_option ((@) out) (fold_opt (\<lambda>c out. map_option ((@) out) (f c)) cs [])"
proof (induction cs arbitrary: out)
  case (Cons c cs)
  show ?case
  proof (cases "f c")
    case (Some x)
    then show ?thesis using Cons[of "out @ x"] Cons[of x]
      by (simp add: option.map_comp comp_def)
  qed simp
qed simp

lemma base64_encode_simps:
  "base64_encode [] = Some []"
  "base64_encode [x] = encode_chunk [x]"
  "base64_encode [x, y] = encode_chunk [x, y]"
  "base64_encode (x # y # z # ds) =
     do { c \<leftarrow> encode_chunk [x, y, z]; cs \<leftarrow> base64_encode ds; Some (c @ cs) }"
proof -
  have id: "map_option ((@) []) m = m" for m :: "string option" by (cases m) simp_all
  have bind_some: "Option.bind m (fold_opt f []) = m" for m and f :: "'b \<Rightarrow> string \<Rightarrow> string option" by (cases m) simp_all
  show "base64_encode [] = Some []" "base64_encode [x] = encode_chunk [x]" "base64_encode [x, y] = encode_chunk [x, y]"
    using bind_some by (simp_all add: base64_encode_def id)
  show "base64_encode (x # y # z # ds) =
     do { c \<leftarrow> encode_chunk [x, y, z]; cs \<leftarrow> base64_encode ds; Some (c @ cs) }"
  proof (cases "encode_chunk [x, y, z]")
    case (Some c)
    have "base64_encode (x # y # z # ds) = fold_opt (\<lambda>c out. map_option ((@) out) (encode_chunk c)) (chunks3 ds) c"
      using Some by (simp add: base64_encode_def)
    also have "\<dots> = map_option ((@) c) (base64_encode ds)"
      unfolding base64_encode_def by (rule fold_opt_prefix)
    finally show ?thesis using Some by (simp add: map_option_case split: option.split)
  qed (simp add: base64_encode_def)
qed

section \<open>Delivery\<close>

lemma feed_child_sent:
  "feed_child program as bs sent = (r, out) \<Longrightarrow>
     (\<exists>n. out = sent @ take n bs) \<and> (r = Some (Inr ()) \<longrightarrow> out = sent @ bs)"
proof (induction program as bs sent arbitrary: r out rule: feed_child.induct)
  case (3 program late a as b bs sent)
  show ?case
  proof (cases "late \<or> a = Wrote 0 \<or> (\<forall>n. a \<noteq> Wrote n)")
    case True
    then show ?thesis using 3 by (auto split: if_splits write_answer.splits intro: exI[of _ 0])
  next
    case False
    then obtain n where n: "a = Wrote n" "0 < n" "\<not> late" by auto
    then have IH: "(\<exists>m. out = (sent @ take n (b # bs)) @ take m (drop n (b # bs))) \<and>
      (r = Some (Inr ()) \<longrightarrow> out = (sent @ take n (b # bs)) @ drop n (b # bs))"
      using 3(1)[of n] 3(4) by auto
    then obtain m where "out = sent @ take (n + m) (b # bs)" by (auto simp: take_add)
    with IH show ?thesis by (metis append.assoc append_take_drop_id)
  qed
qed (auto intro: exI[of _ 0])

text \<open>A copy that reports success handed over the whole text, in order; one that fails or is
  still under way, a prefix of it.\<close>

lemma copy_delivers:
  assumes "copy_with_timeout txt cmd spawned nonblocking writes waits = (r, sent)"
  shows "(\<exists>n. sent = take n txt) \<and> (\<forall>l. r = Some (Inr l) \<longrightarrow> sent = txt)"
proof -
  obtain f out where f: "feed_child (cc_program cmd) writes txt [] = (f, out)"
    by (cases "feed_child (cc_program cmd) writes txt []")
  show ?thesis using assms feed_child_sent[OF f] f
    by (auto simp: copy_with_timeout_def split: sum.splits option.splits intro: exI[of _ 0] exI[of _ "length txt"])
qed

lemma base64_encode_total: "\<exists>out. base64_encode data = Some out"
  by (induction data rule: chunks3.induct) (auto simp: base64_encode_simps encode_chunk_eq)

section \<open>Properties\<close>

text \<open>C25. The text sent to the terminal's clipboard arrives unchanged: encoding never panics,
  every three bytes or part of three give four characters, and decoding the result by the
  standard alphabet with padding gives the bytes back, whatever their number.\<close>

theorem base64_roundtrip:
  "\<exists>out. base64_encode data = Some out \<and> base64_decode out = Some data \<and>
     length out = 4 * ((length data + 2) div 3)"
proof (induction data rule: chunks3.induct)
  case (4 x y z ds)
  moreover have "4 + 4 * ((length ds + 2) div 3) = 4 * ((length (x # y # z # ds) + 2) div 3)"
    using div_add_self2[of 3 "length ds + 2"] by simp
  ultimately show ?case
    using decode_chunk[of x y z] by (auto simp: base64_encode_simps encode_chunk_eq(3))
qed (simp_all add: base64_encode_simps encode_chunk_eq decode_last del: base64_decode.simps(2))

end
