(* ===== verification/CopySession.thy ===== *)
theory CopySession
  imports CopyModeProps Buffers Clipboard
begin

text \<open>
  Copy mode on a live pane: the scrolling operations of \<open>Pane\<close> (\<open>src/src/pane.rs\<close>), the copy
  mode branch of the key handler (\<open>src/src/server/input_modes.rs\<close>) and \<open>yank_to_buffer\<close>
  (\<open>src/src/copy_mode.rs\<close>), interleaved with the program's output and with resizes. It composes
  the terminal, copy mode, the buffer store and the clipboard. \<open>None\<close> is a panic.
\<close>

section \<open>Panes\<close>

record Pane =
  p_screen :: Screen
  scroll_offset :: nat
  osc52_pending :: "string list"

definition pane_set_scrollback :: "nat \<Rightarrow> Pane \<Rightarrow> Pane option" where
  "pane_set_scrollback n p = map_option (\<lambda>s. p\<lparr>p_screen := s\<rparr>) (screen_set_scrollback n (p_screen p))"

text \<open>\<open>scroll_up\<close>: a probe finds how far the history reaches; the parser's view is then live again.\<close>

definition pane_scroll_up :: "nat \<Rightarrow> Pane \<Rightarrow> Pane option" where
  "pane_scroll_up n p =
     do { p \<leftarrow> pane_set_scrollback (min usize_max (scroll_offset p + n)) p;
          let p = p\<lparr>scroll_offset := scrollback_offset (cur_grid (p_screen p))\<rparr>;
          pane_set_scrollback 0 p }"

definition pane_scroll_down :: "nat \<Rightarrow> Pane \<Rightarrow> Pane" where
  "pane_scroll_down n p = p\<lparr>scroll_offset := scroll_offset p - n\<rparr>"

definition snap_to_bottom :: "Pane \<Rightarrow> Pane" where
  "snap_to_bottom p = p\<lparr>scroll_offset := 0\<rparr>"

definition sync_scrollback :: "Pane \<Rightarrow> Pane option" where
  "sync_scrollback p = pane_set_scrollback (scroll_offset p) p"

definition reset_scrollback_view :: "Pane \<Rightarrow> Pane option" where
  "reset_scrollback_view p = pane_set_scrollback 0 p"

text \<open>A chunk of output, as the events of the parser.\<close>

definition read_output :: "(nat \<Rightarrow> nat option) \<Rightarrow> vte_event list \<Rightarrow> Pane \<Rightarrow> Pane option" where
  "read_output width events p =
     do { p \<leftarrow> pane_set_scrollback 0 p;
          s \<leftarrow> fold_opt (perform width) events (p_screen p);
          Some (p\<lparr>p_screen := s, scroll_offset := 0\<rparr>) }"

text \<open>\<open>pty\<close>: whether the pseudo terminal accepted the new size.\<close>

definition pane_resize :: "bool \<Rightarrow> nat \<Rightarrow> nat \<Rightarrow> Pane \<Rightarrow> Pane option" where
  "pane_resize pty cols rows p =
     (if cols = 0 \<or> rows = 0 \<or> screen_size (p_screen p) = (rows, cols) \<or> \<not> pty then Some p
      else map_option (\<lambda>s. p\<lparr>p_screen := s\<rparr>) (screen_set_size rows cols (p_screen p)))"

section \<open>The copy mode branch of the key handler\<close>

datatype InputMode = NormalMode | CopyMode CopyModeState

record CopySession =
  pane :: Pane
  input_mode :: InputMode
  store :: BufferStore

definition pre_scroll :: "KeyCode \<Rightarrow> bool \<Rightarrow> CopyModeState \<Rightarrow> Pane \<Rightarrow> Pane option" where
  "pre_scroll k ctrl cm p =
     (if (is_char k ''k'' \<or> k = UpKey) \<and> cursor_row cm = 0 then pane_scroll_up 1 p
      else if (is_char k ''j'' \<or> k = DownKey) \<and> pane_rows cm - 1 \<le> cursor_row cm then Some (pane_scroll_down 1 p)
      else if is_char k ''g'' \<and> \<not> ctrl then pane_scroll_up usize_max p
      else if is_char k ''G'' then Some (snap_to_bottom p)
      else if is_char k ''u'' \<and> ctrl then pane_scroll_up (pane_rows cm div 2) p
      else if is_char k ''d'' \<and> ctrl then Some (pane_scroll_down (pane_rows cm div 2) p)
      else if k = PageUp then pane_scroll_up (pane_rows cm) p
      else if k = PageDown then Some (pane_scroll_down (pane_rows cm) p)
      else Some p)"

text \<open>\<open>clipboard::copy\<close> starts a process: \<open>copied\<close> is whether it took the text. The scroll requests
  of copy mode itself are discarded here, as the closures do.\<close>

definition yank_to_buffer :: "(ustr \<Rightarrow> bool) \<Rightarrow> ustr \<Rightarrow> BufferStore \<Rightarrow> ((SetError + unit) \<times> bool) \<times> BufferStore" where
  "yank_to_buffer copied txt s = (let (r, s) = set_buffer DEFAULT_NAME txt s in ((r, copied txt), s))"

definition osc52 :: "ustr \<Rightarrow> string option" where
  "osc52 txt = map_option (\<lambda>e. [CHR 0x1B] @ '']52;c;'' @ e @ [CHR 0x07]) (base64_encode (utf8 txt))"

definition copy_key ::
  "(nat \<Rightarrow> bool) \<Rightarrow> (ustr \<Rightarrow> ustr) \<Rightarrow> (ustr \<Rightarrow> bool) \<Rightarrow> KeyEvent \<Rightarrow> CopyModeState \<Rightarrow> CopySession \<Rightarrow> CopySession option" where
  "copy_key alnum lower copied key cm s =
     do { p \<leftarrow> pre_scroll (code key) (CONTROL \<in> modifiers key) cm (pane s);
          p \<leftarrow> sync_scrollback p;
          v \<leftarrow> screen_view (p_screen p);
          (action, cm, _) \<leftarrow> handle_key alnum lower key v cm;
          p \<leftarrow> reset_scrollback_view p;
          case action of
            CopyAndExit txt \<Rightarrow>
              (let ((_, clipboard), b) = yank_to_buffer copied txt (store s) in
               do { p \<leftarrow> (if clipboard then Some p
                          else map_option (\<lambda>seq. p\<lparr>osc52_pending := osc52_pending p @ [seq]\<rparr>) (osc52 txt));
                    Some (s\<lparr>pane := snap_to_bottom p, input_mode := NormalMode, store := b\<rparr>) })
          | Exit \<Rightarrow> Some (s\<lparr>pane := snap_to_bottom p, input_mode := NormalMode\<rparr>)
          | _ \<Rightarrow> Some (s\<lparr>pane := p, input_mode := CopyMode cm\<rparr>) }"

definition enter_copy_mode :: "CopySession \<Rightarrow> CopySession" where
  "enter_copy_mode s =
     (let (rows, cols) = screen_size (p_screen (pane s))
      in s\<lparr>input_mode := CopyMode (copy_new rows cols)\<rparr>)"

section \<open>Sessions\<close>

text \<open>What happens to the pane: output, a resize, and keys. Keys outside copy mode go to the
  program and are not modelled here, except the one that enters copy mode.\<close>

datatype session_event = Output "vte_event list" | ResizeTo bool nat nat | Key KeyEvent | EnterCopy

fun session_step ::
  "(nat \<Rightarrow> nat option) \<Rightarrow> (nat \<Rightarrow> bool) \<Rightarrow> (ustr \<Rightarrow> ustr) \<Rightarrow> (ustr \<Rightarrow> bool) \<Rightarrow> session_event \<Rightarrow> CopySession \<Rightarrow> CopySession option" where
  "session_step width alnum lower copied (Output es) s = map_option (\<lambda>p. s\<lparr>pane := p\<rparr>) (read_output width es (pane s))"
| "session_step width alnum lower copied (ResizeTo pty cols rows) s =
     map_option (\<lambda>p. s\<lparr>pane := p\<rparr>) (pane_resize pty cols rows (pane s))"
| "session_step width alnum lower copied (Key key) s =
     (if kind key = ReleaseKind then Some s
      else case input_mode s of CopyMode cm \<Rightarrow> copy_key alnum lower copied key cm s | NormalMode \<Rightarrow> Some s)"
| "session_step width alnum lower copied EnterCopy s = Some (enter_copy_mode s)"

section \<open>Reading the screen\<close>

lemma collect_options_total:
  "(\<And>x. x \<in> set xs \<Longrightarrow> \<exists>y. f x = Some y) \<Longrightarrow> \<exists>ys. collect_options (map f xs) = Some ys \<and> length ys = length xs"
  by (induction xs) fastforce+

lemma screen_view_ok:
  assumes "screen_ok s"
  shows "returns (screen_view s) (\<lambda>v. view_ok v \<and> length (v_lines v) = v_rows v \<and>
    (v_rows v, v_cols v) = screen_size s)"
proof -
  have g: "grid_ok (cur_grid s)" "grows (cur_grid s) \<noteq> []" "size_ok (gsize (cur_grid s))"
    using cur_grid_ok[OF assms, THEN conjunct1] unfolding grid_ready_def grid_ok_def by blast+
  obtain rs where rs: "visible_rows (cur_grid s) = Some rs" "length rs = length (grows (cur_grid s))" "list_all history_ok rs"
    using visible_rows_ok[OF g(1)] by (auto simp: returns_def)
  have cell: "\<exists>y. cell_glyph c = Some y" if r: "r \<in> set rs" "c \<in> set (cells r)" for r c
  proof -
    have "cells_ok (cells r)" using r rs(3) by (auto simp: list_all_iff history_ok_def row_ok_def)
    then have "cell_ok c" using cells_okD(1)[of "cells r"] r(2) by (auto simp: in_set_conv_nth)
    then show ?thesis by (auto simp: cell_glyph_def elim: cell_okE)
  qed
  have row: "\<exists>y. map_option (\<lambda>gs. (gs, wrapped r)) (collect_options (map cell_glyph (cells r))) = Some y" if r: "r \<in> set rs" for r
  proof -
    have "\<exists>ys. collect_options (map cell_glyph (cells r)) = Some ys \<and> length ys = length (cells r)"
      by (rule collect_options_total) (rule cell[OF r])
    then show ?thesis by auto
  qed
  obtain lines where "collect_options (map (\<lambda>r. map_option (\<lambda>gs. (gs, wrapped r))
      (collect_options (map cell_glyph (cells r)))) rs) = Some lines" "length lines = length rs"
    using collect_options_total[of rs "\<lambda>r. map_option (\<lambda>gs. (gs, wrapped r)) (collect_options (map cell_glyph (cells r)))"] row
    by blast
  moreover have "length (grows (cur_grid s)) = size_rows (gsize (cur_grid s))" using g(1,2) by (auto simp: grid_ok_def)
  ultimately show ?thesis using rs g(3)
    by (simp add: screen_view_def view_ok_def screen_size_def size_ok_def)
qed

section \<open>Panes keep their screens well formed\<close>

definition pane_ok :: "Pane \<Rightarrow> bool" where
  "pane_ok p \<longleftrightarrow> screen_ok (p_screen p)"

lemma pane_set_scrollback_ok:
  "pane_ok p \<Longrightarrow> returns (pane_set_scrollback n p) (\<lambda>q. pane_ok q \<and> scroll_offset q = scroll_offset p \<and>
     osc52_pending q = osc52_pending p)"
  using on_grid_total_ok[OF _ set_scrollback_ok, of "p_screen p" "\<lambda>_. n"]
  by (auto simp: pane_set_scrollback_def screen_set_scrollback_def pane_ok_def screen_step_def returns_def)

lemma pane_scroll_up_ok: "pane_ok p \<Longrightarrow> returns (pane_scroll_up n p) pane_ok"
proof -
  assume p: "pane_ok p"
  obtain q where q: "pane_set_scrollback (min usize_max (scroll_offset p + n)) p = Some q" "pane_ok q"
    using pane_set_scrollback_ok[OF p] by (auto simp: returns_def)
  then have "pane_ok (q\<lparr>scroll_offset := scrollback_offset (cur_grid (p_screen q))\<rparr>)" by (simp add: pane_ok_def)
  from pane_set_scrollback_ok[OF this, of 0] show ?thesis using q by (auto simp: pane_scroll_up_def returns_def)
qed

lemma pane_ok_scroll [simp]:
  "pane_ok (pane_scroll_down n p) = pane_ok p" "pane_ok (snap_to_bottom p) = pane_ok p"
  "pane_ok (p\<lparr>osc52_pending := os\<rparr>) = pane_ok p"
  by (simp_all add: pane_ok_def pane_scroll_down_def snap_to_bottom_def)

lemma pre_scroll_ok: "pane_ok p \<Longrightarrow> returns (pre_scroll k ctrl cm p) pane_ok"
  by (simp add: pre_scroll_def pane_scroll_up_ok)

lemma read_output_ok:
  assumes "pane_ok p" "char_width_ok width" "list_all event_ok es"
  shows "returns (read_output width es p) pane_ok"
proof -
  obtain q where q: "pane_set_scrollback 0 p = Some q" "pane_ok q"
    using pane_set_scrollback_ok[OF assms(1)] by (auto simp: returns_def)
  have "admissible (\<lambda>_ e. char_width_ok width \<and> event_ok e) (perform width) es (p_screen q)"
    by (rule admissible_const) (use assms in \<open>auto simp: list_all_iff\<close>)
  with q feed.run_safe[of "p_screen q" width es] show ?thesis by (auto simp: read_output_def pane_ok_def)
qed

lemma pane_resize_ok:
  assumes "pane_ok p" "rows \<le> u16_max" "cols \<le> max_cols"
  shows "returns (pane_resize pty cols rows p) pane_ok"
  using screen_resize_ok[of "p_screen p" rows cols] assms
  by (auto simp: pane_resize_def pane_ok_def size_ok_def returns_def)

section \<open>Sessions are safe\<close>

definition session_ok :: "CopySession \<Rightarrow> bool" where
  "session_ok s \<longleftrightarrow> pane_ok (pane s) \<and> store_ok (store s)"

definition session_event_ok :: "(nat \<Rightarrow> nat option) \<Rightarrow> (ustr \<Rightarrow> ustr) \<Rightarrow> session_event \<Rightarrow> bool" where
  "session_event_ok width lower e \<longleftrightarrow> char_width_ok width \<and> lower_ok lower \<and>
     (case e of Output es \<Rightarrow> list_all event_ok es
      | ResizeTo _ cols rows \<Rightarrow> rows \<le> u16_max \<and> cols \<le> max_cols
      | _ \<Rightarrow> True)"

lemma set_buffer_ok: "store_ok s \<Longrightarrow> set_buffer name txt s = (r, t) \<Longrightarrow> store_ok t"
  using buffer_step_refines[of s "SetOp name txt"] by simp

definition cursor_on_screen :: "CopySession \<Rightarrow> bool" where
  "cursor_on_screen s =
     (case input_mode s of
        NormalMode \<Rightarrow> True
      | CopyMode cm \<Rightarrow>
          (let (rows, cols) = screen_size (p_screen (pane s))
           in pane_rows cm = rows \<and> pane_cols cm = cols \<and> cursor_row cm < rows \<and> cursor_col cm < cols \<and>
              (case phase cm of
                 VisualChar r c \<Rightarrow> r < rows \<and> c < cols
               | VisualLine r \<Rightarrow> r < rows
               | _ \<Rightarrow> True)))"

lemma pane_set_scrollback_size: "pane_set_scrollback n p = Some q \<Longrightarrow> screen_size (p_screen q) = screen_size (p_screen p)"
  by (auto simp: pane_set_scrollback_def screen_set_scrollback_def on_grid_def screen_size_def cur_grid_def
      set_scrollback_def has_mode_def split: if_splits bind_splits)

lemma base64_total: "\<exists>out. osc52 txt = Some out"
  using base64_encode_total[of "utf8 txt"] by (auto simp: osc52_def)

lemma copy_key_ok:
  assumes "session_ok s" "lower_ok lower" "kind key \<noteq> ReleaseKind"
  shows "returns (copy_key alnum lower copied key cm s) (\<lambda>t. session_ok t \<and> cursor_on_screen t \<and>
    (input_mode t = NormalMode \<longrightarrow> scroll_offset (pane t) = 0))"
proof -
  have p: "pane_ok (pane s)" "store_ok (store s)" using assms(1) by (simp_all add: session_ok_def)
  obtain p1 where p1: "pre_scroll (code key) (CONTROL \<in> modifiers key) cm (pane s) = Some p1" "pane_ok p1"
    using pre_scroll_ok[OF p(1), of "code key" "CONTROL \<in> modifiers key" cm] by (auto simp: returns_def)
  obtain p2 where p2: "sync_scrollback p1 = Some p2" "pane_ok p2"
    using pane_set_scrollback_ok[OF p1(2)] by (auto simp: returns_def sync_scrollback_def)
  obtain v where v: "screen_view (p_screen p2) = Some v" "view_ok v" "(v_rows v, v_cols v) = screen_size (p_screen p2)"
    using screen_view_ok[of "p_screen p2"] p2(2) by (auto simp: returns_def pane_ok_def)
  obtain a cm' q where h: "handle_key alnum lower key v cm = Some (a, cm', q)" "in_view v cm'"
    using handle_key_in_view[OF assms(2) v(2) assms(3), of alnum cm] by (auto simp: key_result_def returns_def)
  obtain p3 where p3: "reset_scrollback_view p2 = Some p3" "pane_ok p3"
    using pane_set_scrollback_ok[OF p2(2)] by (auto simp: returns_def reset_scrollback_view_def)
  have sz: "screen_size (p_screen p3) = (v_rows v, v_cols v)"
    using p3(1) v(3) by (simp add: reset_scrollback_view_def pane_set_scrollback_size)
  have stay: "cursor_on_screen (s\<lparr>pane := p3, input_mode := CopyMode cm'\<rparr>)"
    using h(2) sz by (simp add: cursor_on_screen_def in_view_def split: Phase.split)
  have "\<And>r b txt. set_buffer DEFAULT_NAME txt (store s) = (r, b) \<Longrightarrow> store_ok b" by (rule set_buffer_ok[OF p(2)])
  moreover obtain seq where "\<And>txt. osc52 txt = Some (seq txt)" using base64_total by metis
  ultimately show ?thesis using p p1 p2 v(1) h p3 stay
    by (cases a) (auto simp: copy_key_def session_ok_def yank_to_buffer_def snap_to_bottom_def pane_ok_def
        cursor_on_screen_def Let_def returns_def split: prod.split)
qed

lemma session_step_ok:
  assumes "session_ok s" "session_event_ok width lower e"
  shows "\<exists>t. session_step width alnum lower copied e s = Some t \<and> session_ok t"
proof (cases e)
  case (Output es)
  then show ?thesis using read_output_ok[of "pane s" width es] assms
    by (auto simp: session_event_ok_def session_ok_def returns_def)
next
  case (ResizeTo pty cols rows)
  then show ?thesis using pane_resize_ok[of "pane s" rows cols pty] assms
    by (auto simp: session_event_ok_def session_ok_def returns_def)
next
  case (Key key)
  then show ?thesis using copy_key_ok[OF assms(1), of lower key alnum copied] assms
    by (auto simp: session_event_ok_def returns_def split: InputMode.split)
next
  case EnterCopy
  then show ?thesis using assms(1) by (simp add: enter_copy_mode_def session_ok_def split: prod.split)
qed

interpretation copy_session: safe_machine "session_step width alnum lower copied" session_ok
    "\<lambda>_. session_event_ok width lower" for width alnum lower copied
  by unfold_locales (rule session_step_ok)

section \<open>Whole lines\<close>

text \<open>The text of a line: its cells left to right, blank cells as spaces, the second halves of wide
  characters left out, without the blanks at the end.\<close>

definition glyph_text :: "Glyph \<Rightarrow> ustr" where
  "glyph_text g = (if gl_cont g then [] else if gl_text g = [] then [32] else gl_text g)"

definition line_text :: "View \<Rightarrow> nat \<Rightarrow> ustr" where
  "line_text v r = trim_end (concat (map glyph_text (take (v_cols v) (fst (v_lines v ! r)))))"

fun join_lines :: "ustr list \<Rightarrow> ustr" where
  "join_lines [] = []"
| "join_lines [l] = l"
| "join_lines (l # ls) = l @ [10] @ join_lines ls"

lemma fold_add_glyph:
  assumes "r < length (v_lines v)"
  shows "fst (fold (add_glyph v r) [0..<n] (t, k)) = t @ concat (map glyph_text (take n (fst (v_lines v ! r))))"
proof (induction n arbitrary: t k)
  case (Suc n)
  obtain t1 k1 where f: "fold (add_glyph v r) [0..<n] (t, k) = (t1, k1)" by (cases "fold (add_glyph v r) [0..<n] (t, k)")
  then have "t1 = t @ concat (map glyph_text (take n (fst (v_lines v ! r))))" using Suc[of t k] by simp
  moreover have "fst (add_glyph v r n (t1, k1)) =
      t1 @ (if n < length (fst (v_lines v ! r)) then glyph_text (fst (v_lines v ! r) ! n) else [])"
    using assms by (simp add: add_glyph_def view_cell_def vec_get_def case_prod_beta glyph_text_def)
  ultimately show ?case using f by (simp add: take_Suc_conv_app_nth)
qed simp

lemma extract_line:
  assumes "phase s = VisualLine a" "pane_cols s = v_cols v" "0 < v_cols v" "r < length (v_lines v)"
  shows "extract_row s v (sr, 0, er, v_cols v - 1) r = line_text v r @ (if r < er then [10] else [])"
proof -
  obtain t k where f: "fold (add_glyph v r) [0..<v_cols v] ([], 0) = (t, k)"
    by (cases "fold (add_glyph v r) [0..<v_cols v] ([], 0)")
  have "t = concat (map glyph_text (take (v_cols v) (fst (v_lines v ! r))))"
    using fold_add_glyph[OF assms(4), of "v_cols v" "[]" 0] f by simp
  moreover have "Suc (v_cols v - 1) = v_cols v" using assms(3) by simp
  ultimately show ?thesis
    using f assms(1) by (cases "r = sr"; cases "r = er")
      (simp_all add: extract_row_def line_text_def Let_def del: upt_Suc One_nat_def)
qed

lemma extract_lines_join:
  assumes "\<And>r. lo \<le> r \<Longrightarrow> r \<le> hi \<Longrightarrow> f r = g r @ (if r < hi then [10] else [])" "lo \<le> hi"
  shows "concat (map f [lo..<Suc hi]) = join_lines (map g [lo..<Suc hi])"
  using assms
proof (induction "hi - lo" arbitrary: lo)
  case 0
  then show ?case by simp
next
  case (Suc n)
  then have "[lo..<Suc hi] = lo # [Suc lo..<Suc hi]" "[Suc lo..<Suc hi] = Suc lo # [Suc (Suc lo)..<Suc hi]"
    by (simp_all add: upt_conv_Cons del: upt_Suc)
  moreover have "concat (map f [Suc lo..<Suc hi]) = join_lines (map g [Suc lo..<Suc hi])"
    using Suc(1)[of "Suc lo"] Suc(2-4) by simp
  ultimately show ?case using Suc by (simp del: upt_Suc)
qed

lemma extract_lines:
  assumes "in_view v s" "view_ok v" "length (v_lines v) = v_rows v" "phase s = VisualLine a"
  shows "extract_selection s v =
    (let t = join_lines (map (line_text v) [min a (cursor_row s)..<Suc (max a (cursor_row s))])
     in if t = [] then None else Some t)"
proof -
  note d = in_viewD[OF assms(1)]
  have a: "a < v_rows v" using assms(1,4) by (simp add: in_view_def)
  have c: "0 < v_cols v" "0 < v_rows v" using assms(2) by (simp_all add: view_ok_def)
  define lo where "lo = min a (cursor_row s)"
  define hi where "hi = max a (cursor_row s)"
  have sel: "selection s = Some (lo, 0, hi, v_cols v - 1)"
    using d a c assms(4) by (auto simp: selection_def lo_def hi_def)
  have b: "lo \<le> hi" "hi < v_rows v" using a d(3) by (simp_all add: lo_def hi_def)
  have "concat (map (extract_row s v (lo, 0, hi, v_cols v - 1)) [lo..<Suc hi]) = join_lines (map (line_text v) [lo..<Suc hi])"
    by (rule extract_lines_join) (use extract_line[OF assms(4) d(2) c(1)] b assms(3) in auto)
  then show ?thesis
    using sel b c unfolding lo_def[symmetric] hi_def[symmetric]
    by (simp add: extract_selection_def Let_def min_absorb1 del: upt_Suc concat_eq_Nil_conv)
qed

lemma set_buffer_gets:
  assumes "set_buffer name txt s = (r, t)" "str_len txt \<le> MAX_BYTES"
  shows "map_option buf_text (get_buffer name t) = Some txt"
  using assms by (auto simp: set_buffer_def get_buffer_def Let_def map_of_om_insert_same split: prod.splits)

section \<open>Properties\<close>

text \<open>C22. Copy mode is safe on a live pane. In any session of output, resizes and keys, no step
  panics and the screen and the buffers stay well formed. After every key in copy mode the
  state's size is the screen's, the cursor and the selection's anchor lie on the screen, and a
  key that leaves copy mode leaves the pane at the bottom.\<close>

theorem copy_session_safe:
  assumes "session_ok s" "list_all (session_event_ok width lower) es" "lower_ok lower" "kind key \<noteq> ReleaseKind"
  shows "\<exists>t u. fold_opt (session_step width alnum lower copied) es s = Some t \<and> session_ok t \<and>
    session_step width alnum lower copied (Key key) t = Some u \<and> session_ok u \<and>
    cursor_on_screen u \<and>
    (input_mode u = NormalMode \<longrightarrow> input_mode t = NormalMode \<or> scroll_offset (pane u) = 0)"
proof -
  have "admissible (\<lambda>_. session_event_ok width lower) (session_step width alnum lower copied) es s"
    by (rule admissible_const) (use assms(2) in \<open>simp add: list_all_iff\<close>)
  from copy_session.run_safe[OF assms(1) this] obtain t where
    t: "fold_opt (session_step width alnum lower copied) es s = Some t" "session_ok t" by blast
  show ?thesis
  proof (cases "input_mode t")
    case NormalMode
    then show ?thesis using t assms(4) by (auto simp: cursor_on_screen_def)
  next
    case (CopyMode cm)
    then show ?thesis using t assms(4) copy_key_ok[OF t(2) assms(3,4), of alnum copied cm]
      by (auto simp: returns_def)
  qed
qed

definition ascii_lower :: "ustr \<Rightarrow> ustr" where
  "ascii_lower s = map (\<lambda>c. if 65 \<le> c \<and> c \<le> 90 then c + 32 else c) s"

lemma ascii_lower_ok: "lower_ok ascii_lower"
  by (simp add: lower_ok_def ascii_lower_def)

definition one_row_screen :: "Screen option" where
  "one_row_screen = do { s \<leftarrow> screen_new \<lparr>size_rows = 1, size_cols = 3\<rparr> 0; perform one_wide (Print 97) s }"

lemma one_row_screen_ok: "returns one_row_screen screen_ok"
proof -
  have ok: "size_ok \<lparr>size_rows = 1, size_cols = 3\<rparr>" "char_width_ok one_wide" "event_ok (Print 97)"
    by (simp_all add: size_ok_def char_width_ok_def one_wide_def event_ok_def scalar_def)
  obtain s where s: "screen_new \<lparr>size_rows = 1, size_cols = 3\<rparr> 0 = Some s" "screen_ok s"
    using screen_new_ok[OF ok(1), of 0] by (auto simp: returns_def)
  then show ?thesis using perform_ok[OF s(2) ok(2,3)]
    by (auto simp: one_row_screen_def returns_def screen_step_def)
qed

definition one_row_session :: "Screen \<Rightarrow> CopySession" where
  "one_row_session s = \<lparr>pane = \<lparr>p_screen = s, scroll_offset = 0, osc52_pending = []\<rparr>,
     input_mode = NormalMode, store = store_new\<rparr>"

lemma one_row_session_ok: "screen_ok s \<Longrightarrow> session_ok (one_row_session s)"
  by (simp add: session_ok_def one_row_session_def pane_ok_def store_new_ok)

definition press :: "nat \<Rightarrow> KeyEvent" where
  "press c = \<lparr>code = Char c, modifiers = {}, kind = PressKind\<rparr>"

lemma copy_session_safe_witness:
  "\<exists>s t u. one_row_screen = Some s \<and>
     fold_opt (session_step one_wide (\<lambda>_. True) ascii_lower (\<lambda>_. True))
       [Output [Print 98], EnterCopy, ResizeTo True 4 2] (one_row_session s) = Some t \<and>
     session_step one_wide (\<lambda>_. True) ascii_lower (\<lambda>_. True) (Key (press 71)) t = Some u \<and>
     cursor_on_screen u"
proof -
  obtain s where s: "one_row_screen = Some s" "screen_ok s" using one_row_screen_ok by (auto simp: returns_def)
  have e: "list_all (session_event_ok one_wide ascii_lower) [Output [Print 98], EnterCopy, ResizeTo True 4 2]"
    by (simp add: session_event_ok_def ascii_lower_ok char_width_ok_def one_wide_def event_ok_def scalar_def)
  show ?thesis
    using s(1) copy_session_safe[OF one_row_session_ok[OF s(2)] e ascii_lower_ok, of "press 71" "\<lambda>_. True" "\<lambda>_. True"]
    by (auto simp: press_def)
qed

text \<open>C23. Search finds every match and only matches. For a non-empty query, in the search prompt or
  when repeated, the matches found are the occurrences of the lower-case query in the lower-case
  text of every row, from the top, overlapping ones included, each with the columns its first
  and last character occupy; and the cursor moves to the next one in the direction of the
  search, around the end when there is none.\<close>

theorem search_finds_all:
  assumes "lower_ok lower" "view_ok v" "in_view v s" "search_query s \<noteq> []"
  shows "\<exists>s'. execute_search lower v s = Some s' \<and> in_view v s' \<and>
    search_matches s' = all_matches lower v (lower (search_query s)) \<and>
    (search_matches s' \<noteq> [] \<longrightarrow>
       (\<exists>w. next_match (search_forward s) (searching s) (cursor_row s, cursor_col s) (search_matches s') =
          (cursor_row s', cursor_col s', w)))"
proof -
  obtain s' where "execute_search lower v s = Some s'" "in_view v s'"
    "search_matches s' = all_matches lower v (lower (search_query s))"
    "search_matches s' \<noteq> [] \<longrightarrow>
       (\<exists>w. next_match (search_forward s) (searching s) (cursor_row s, cursor_col s) (search_matches s') =
          (cursor_row s', cursor_col s', w))"
    using execute_search_eq[OF assms] by metis
  then show ?thesis by blast
qed

definition abab :: View where
  "abab = \<lparr>v_rows = 1, v_cols = 4,
     v_lines = [(map (\<lambda>c. \<lparr>gl_text = [c], gl_wide = False, gl_cont = False\<rparr>) [97, 66, 65, 98], False)]\<rparr>"

lemma search_finds_all_witness:
  "\<exists>s'. execute_search ascii_lower abab ((copy_new 1 4)\<lparr>phase := Search True [98], cursor_col := 2\<rparr>) = Some s' \<and>
     search_matches s' = [(0, 1, 1), (0, 3, 1)] \<and> cursor_col s' = 3"
proof -
  let ?s = "(copy_new 1 4)\<lparr>phase := Search True [98], cursor_col := 2\<rparr>"
  have ok: "view_ok abab" "in_view abab ?s" "search_query ?s \<noteq> []"
    by (simp_all add: view_ok_def abab_def in_view_def copy_new_def search_query_def)
  have m: "all_matches ascii_lower abab (ascii_lower (search_query ?s)) = [(0, 1, 1), (0, 3, 1)]"
    unfolding abab_def copy_new_def ascii_lower_def by code_simp
  have "next_match (search_forward ?s) (searching ?s) (cursor_row ?s, cursor_col ?s) [(0, 1, 1), (0, 3, 1)] = (0, 3, 1)"
    by (simp add: next_match_def search_forward_def searching_def copy_new_def pos_less_def)
  then show ?thesis using search_finds_all[OF ascii_lower_ok ok] unfolding m by auto
qed

text \<open>C24. Yanking whole lines. In line selection, \<open>y\<close> puts the selected lines of the screen as it is
  scrolled, each without its trailing blanks and joined by newlines, into the default buffer,
  leaves copy mode and returns the pane to the bottom; when all of them are blank on one line,
  nothing is copied and copy mode goes on.\<close>

theorem yank_lines:
  assumes "session_ok s" "lower_ok lower" "phase cm = VisualLine a" "code key = Char 121" "kind key \<noteq> ReleaseKind"
  shows "\<exists>p v u. sync_scrollback (pane s) = Some p \<and> screen_view (p_screen p) = Some v \<and>
    copy_key alnum lower copied key cm s = Some u \<and>
    (let from = min a (v_rows v - 1); to = min (cursor_row cm) (v_rows v - 1);
         t = join_lines (map (line_text v) [min from to..<Suc (max from to)])
     in if t = [] then store u = store s \<and> input_mode u = CopyMode (clamp_state v cm)
        else input_mode u = NormalMode \<and> scroll_offset (pane u) = 0 \<and>
          (str_len t \<le> MAX_BYTES \<longrightarrow> map_option buf_text (default_buffer (store u)) = Some t))"
proof -
  have p: "pane_ok (pane s)" "store_ok (store s)" using assms(1) by (simp_all add: session_ok_def)
  have p1: "pre_scroll (code key) c cm (pane s) = Some (pane s)" for c
    using assms(4) by (simp add: pre_scroll_def is_char_def ascii_def)
  obtain p2 where p2: "sync_scrollback (pane s) = Some p2" "pane_ok p2"
    using pane_set_scrollback_ok[OF p(1)] by (auto simp: returns_def sync_scrollback_def)
  obtain v where v: "screen_view (p_screen p2) = Some v" "view_ok v" "length (v_lines v) = v_rows v"
    using screen_view_ok[of "p_screen p2"] p2(2) by (auto simp: returns_def pane_ok_def)
  obtain p3 where p3: "reset_scrollback_view p2 = Some p3"
    using pane_set_scrollback_ok[OF p2(2)] by (auto simp: returns_def reset_scrollback_view_def)
  let ?c = "clamp_state v cm"
  define t where "t = join_lines (map (line_text v)
    [min (min a (v_rows v - 1)) (min (cursor_row cm) (v_rows v - 1))..<
     Suc (max (min a (v_rows v - 1)) (min (cursor_row cm) (v_rows v - 1)))])"
  have ph: "phase ?c = VisualLine (min a (v_rows v - 1))" "cursor_row ?c = min (cursor_row cm) (v_rows v - 1)"
    using assms(3) by (simp_all add: clamp_state_def)
  have e: "extract_selection ?c v = (if t = [] then None else Some t)"
    using extract_lines[OF clamp_state_in_view[OF v(2)] v(2,3) ph(1)] by (simp add: ph(2) t_def Let_def del: upt_Suc)
  have h: "handle_key alnum lower key v cm = Some (if t = [] then NoAction else CopyAndExit t, ?c, [])"
    using assms(4,5) e ph(1) by (simp add: handle_key_def Let_def normal_key_def is_char_def ascii_def)
  obtain osc where osc: "osc52 t = Some osc" using base64_total by blast
  obtain r b where b: "set_buffer DEFAULT_NAME t (store s) = (r, b)" by (cases "set_buffer DEFAULT_NAME t (store s)")
  have "map_option buf_text (default_buffer b) = Some t" if "str_len t \<le> MAX_BYTES"
    using set_buffer_gets[OF b that] by (simp add: default_buffer_def)
  note got = this
  have r: "\<exists>u. copy_key alnum lower copied key cm s = Some u \<and>
    (if t = [] then store u = store s \<and> input_mode u = CopyMode ?c
     else input_mode u = NormalMode \<and> scroll_offset (pane u) = 0 \<and> store u = b)"
    using p1 p2(1) v(1) h p3 osc b
    by (cases "t = []"; cases "copied t") (simp_all add: copy_key_def yank_to_buffer_def snap_to_bottom_def)
  then obtain u where u: "copy_key alnum lower copied key cm s = Some u"
    "if t = [] then store u = store s \<and> input_mode u = CopyMode ?c
     else input_mode u = NormalMode \<and> scroll_offset (pane u) = 0 \<and> store u = b" by blast
  show ?thesis
  proof (intro exI conjI)
    show "let from = min a (v_rows v - 1); to = min (cursor_row cm) (v_rows v - 1);
         t = join_lines (map (line_text v) [min from to..<Suc (max from to)])
     in if t = [] then store u = store s \<and> input_mode u = CopyMode ?c
        else input_mode u = NormalMode \<and> scroll_offset (pane u) = 0 \<and>
          (str_len t \<le> MAX_BYTES \<longrightarrow> map_option buf_text (default_buffer (store u)) = Some t)"
      unfolding Let_def t_def[symmetric] using u(2) got by (simp split: if_splits)
  qed (rule p2(1) v(1) u(1))+
qed

lemma yank_lines_witness:
  "\<exists>s u. one_row_screen = Some s \<and>
     copy_key (\<lambda>_. True) ascii_lower (\<lambda>_. False) (press 121) ((copy_new 1 3)\<lparr>phase := VisualLine 0\<rparr>)
       (one_row_session s) = Some u \<and>
     input_mode u = NormalMode \<and> map_option buf_text (default_buffer (store u)) = Some [97]"
proof -
  obtain s where s: "one_row_screen = Some s" "screen_ok s" using one_row_screen_ok by (auto simp: returns_def)
  have k: "code (press 121) = Char 121" "kind (press 121) \<noteq> ReleaseKind" by (simp_all add: press_def)
  define cm where "cm = (copy_new 1 3)\<lparr>phase := VisualLine 0\<rparr>"
  have ph: "phase cm = VisualLine 0" "cursor_row cm = 0" by (simp_all add: cm_def copy_new_def)
  obtain p v u where r: "sync_scrollback (pane (one_row_session s)) = Some p" "screen_view (p_screen p) = Some v"
    "copy_key (\<lambda>_. True) ascii_lower (\<lambda>_. False) (press 121) cm (one_row_session s) = Some u"
    "let t = join_lines (map (line_text v) [0..<1])
     in if t = [] then store u = store (one_row_session s) \<and> input_mode u = CopyMode (clamp_state v cm)
        else input_mode u = NormalMode \<and> scroll_offset (pane u) = 0 \<and>
          (str_len t \<le> MAX_BYTES \<longrightarrow> map_option buf_text (default_buffer (store u)) = Some t)"
    using yank_lines[OF one_row_session_ok[OF s(2)] ascii_lower_ok ph(1) k, of "\<lambda>_. True" "\<lambda>_. False"]
    by (auto simp: ph(2))
  have "do { s \<leftarrow> one_row_screen; p \<leftarrow> sync_scrollback (pane (one_row_session s)); v \<leftarrow> screen_view (p_screen p);
      Some (line_text v 0) } = Some [97]" by code_simp
  then have "line_text v 0 = [97]" by (simp add: s(1) r(1,2) del: One_nat_def)
  then show ?thesis using s(1) r(3,4) unfolding cm_def by (auto simp: str_len_def len_utf8_def MAX_BYTES_def)
qed

end
