(* ===== verification/Commands.thy ===== *)
theory Commands
  imports Prelude
begin

text \<open>
  The vocabulary of the command palette: \<open>src/src/commands.rs\<close>. A tokenizer with quotes and
  backslashes, then one parser per command. The round trip says that every command has a
  spelling, with its arguments quoted, that the parser reads back as exactly that command.
\<close>

section \<open>Commands\<close>

datatype Dir = DirUp | DirDown | DirLeft | DirRight

definition dir_parse :: "ustr \<Rightarrow> Dir option" where
  "dir_parse flag =
     (if flag = ascii ''-U'' \<or> flag = ascii ''-u'' then Some DirUp
      else if flag = ascii ''-D'' \<or> flag = ascii ''-d'' then Some DirDown
      else if flag = ascii ''-L'' \<or> flag = ascii ''-l'' then Some DirLeft
      else if flag = ascii ''-R'' \<or> flag = ascii ''-r'' then Some DirRight
      else None)"

datatype Command =
    SplitHorizontal | SplitVertical | KillPane | KillWindow | NewWindow "ustr option" | RenameWindow ustr
  | SelectPane Dir | ResizePane Dir nat | SwapPane bool | SelectLayout ustr | SetOption ustr ustr
  | DisplayMessage ustr

datatype ParseError =
    Empty | UnknownCommand ustr | MissingArgument string string | InvalidArgument string ustr | UnterminatedQuote

definition parse_error_text :: "ParseError \<Rightarrow> ustr" where
  "parse_error_text e =
     (case e of
        Empty \<Rightarrow> ascii ''empty command''
      | UnknownCommand name \<Rightarrow> ascii ''unknown command: '' @ name @ ascii '' (try ?)''
      | MissingArgument cmd arg \<Rightarrow> ascii cmd @ ascii '': missing argument <'' @ ascii arg @ ascii ''>''
      | InvalidArgument cmd arg \<Rightarrow> ascii cmd @ ascii '': invalid argument: '' @ arg
      | UnterminatedQuote \<Rightarrow> ascii ''unterminated quote'')"

section \<open>Tokens\<close>

abbreviation dquote :: nat where "dquote \<equiv> 34"
abbreviation squote :: nat where "squote \<equiv> 39"
abbreviation backslash :: nat where "backslash \<equiv> 92"

fun tokenize_loop :: "ustr \<Rightarrow> ustr list \<Rightarrow> ustr \<Rightarrow> bool \<Rightarrow> nat option \<Rightarrow> ParseError + ustr list" where
  "tokenize_loop [] tokens current in_token quot =
     (if quot \<noteq> None then Inl UnterminatedQuote
      else Inr (if in_token then tokens @ [current] else tokens))"
| "tokenize_loop (c # cs) tokens current in_token quot =
     (case quot of
        Some q \<Rightarrow>
          if c = q then tokenize_loop cs tokens current True None
          else if q = dquote \<and> c = backslash then
            (case cs of
               [] \<Rightarrow> tokenize_loop [] tokens current in_token quot
             | next # cs \<Rightarrow> tokenize_loop cs tokens (current @ [next]) in_token quot)
          else tokenize_loop cs tokens (current @ [c]) True quot
      | None \<Rightarrow>
          if c = dquote \<or> c = squote then tokenize_loop cs tokens current True (Some c)
          else if c = backslash then
            (case cs of
               [] \<Rightarrow> tokenize_loop [] tokens current in_token None
             | next # cs \<Rightarrow> tokenize_loop cs tokens (current @ [next]) True None)
          else if is_white c then
            (if in_token then tokenize_loop cs (tokens @ [current]) [] False None
             else tokenize_loop cs tokens current in_token None)
          else tokenize_loop cs tokens (current @ [c]) True None)"

definition tokenize :: "ustr \<Rightarrow> ParseError + ustr list" where
  "tokenize input = tokenize_loop input [] [] False None"

section \<open>Parsers\<close>

fun join_with :: "ustr \<Rightarrow> ustr list \<Rightarrow> ustr" where
  "join_with sep [] = []"
| "join_with sep [t] = t"
| "join_with sep (t # ts) = t @ sep @ join_with sep ts"

definition join_remaining :: "ustr list \<Rightarrow> ustr option" where
  "join_remaining tokens = (if tokens = [] then None else Some (join_with [32] tokens))"

definition starts_dash :: "ustr \<Rightarrow> bool" where
  "starts_dash s \<longleftrightarrow> (case s of c # _ \<Rightarrow> c = 45 | [] \<Rightarrow> False)"

definition parse_split :: "ustr list \<Rightarrow> ParseError + Command" where
  "parse_split rest =
     (case rest of
        [] \<Rightarrow> Inr SplitHorizontal
      | flag # _ \<Rightarrow>
          if flag = ascii ''-h'' then Inr SplitHorizontal
          else if flag = ascii ''-v'' then Inr SplitVertical
          else if starts_dash flag then Inl (InvalidArgument ''split-window'' flag)
          else Inr SplitHorizontal)"

fun new_window_name :: "ustr list \<Rightarrow> ustr option \<Rightarrow> ParseError + ustr option" where
  "new_window_name [] name = Inr name"
| "new_window_name (t # ts) name =
     (if t = ascii ''-n'' then
        (case ts of
           [] \<Rightarrow> Inl (MissingArgument ''new-window'' ''NAME'')
         | v # ts \<Rightarrow> new_window_name ts (Some v))
      else if starts_dash t then Inl (InvalidArgument ''new-window'' t)
      else new_window_name ts name)"

definition parse_new_window :: "ustr list \<Rightarrow> ParseError + Command" where
  "parse_new_window rest = map_sum id NewWindow (new_window_name rest None)"

definition parse_dir_only :: "ustr list \<Rightarrow> string \<Rightarrow> ParseError + Dir" where
  "parse_dir_only rest cmd =
     (case rest of
        [] \<Rightarrow> Inl (MissingArgument cmd ''-U|-D|-L|-R'')
      | flag # _ \<Rightarrow> (case dir_parse flag of None \<Rightarrow> Inl (InvalidArgument cmd flag) | Some d \<Rightarrow> Inr d))"

definition parse_resize_pane :: "ustr list \<Rightarrow> ParseError + Command" where
  "parse_resize_pane rest =
     (case parse_dir_only rest ''resize-pane'' of
        Inl e \<Rightarrow> Inl e
      | Inr dir \<Rightarrow>
          (case rest of
             _ # s # _ \<Rightarrow>
               (case parse_uint 65536 s of
                  None \<Rightarrow> Inl (InvalidArgument ''resize-pane'' s) | Some n \<Rightarrow> Inr (ResizePane dir n))
           | _ \<Rightarrow> Inr (ResizePane dir 1)))"

definition parse_swap_pane :: "ustr list \<Rightarrow> ParseError + Command" where
  "parse_swap_pane rest =
     (case rest of
        [] \<Rightarrow> Inl (MissingArgument ''swap-pane'' ''-U|-D'')
      | flag # _ \<Rightarrow>
          if flag = ascii ''-U'' \<or> flag = ascii ''-u'' then Inr (SwapPane True)
          else if flag = ascii ''-D'' \<or> flag = ascii ''-d'' then Inr (SwapPane False)
          else Inl (InvalidArgument ''swap-pane'' flag))"

definition parse_set_option :: "ustr list \<Rightarrow> ParseError + Command" where
  "parse_set_option rest =
     (case rest of
        [] \<Rightarrow> Inl (MissingArgument ''set-option'' ''KEY'')
      | [_] \<Rightarrow> Inl (MissingArgument ''set-option'' ''VALUE'')
      | key # v # vs \<Rightarrow> Inr (SetOption key (join_with [32] (v # vs))))"

definition is_word :: "ustr \<Rightarrow> string list \<Rightarrow> bool" where
  "is_word head names \<longleftrightarrow> head \<in> ascii ` set names"

definition parse_tokens :: "ustr \<Rightarrow> ustr list \<Rightarrow> ParseError + Command" where
  "parse_tokens head rest =
     (if is_word head [''split-window'', ''splitw'', ''split''] then parse_split rest
      else if is_word head [''kill-pane'', ''killp'', ''close-pane''] then Inr KillPane
      else if is_word head [''kill-window'', ''close-tab''] then Inr KillWindow
      else if is_word head [''new-window'', ''new-tab'', ''neww''] then parse_new_window rest
      else if is_word head [''rename-window'', ''rename-tab'', ''renamew''] then
        (case join_remaining rest of
           None \<Rightarrow> Inl (MissingArgument ''rename-window'' ''NAME'') | Some name \<Rightarrow> Inr (RenameWindow name))
      else if is_word head [''select-pane'', ''selectp''] then map_sum id SelectPane (parse_dir_only rest ''select-pane'')
      else if is_word head [''resize-pane'', ''resizep''] then parse_resize_pane rest
      else if is_word head [''swap-pane'', ''swapp''] then parse_swap_pane rest
      else if is_word head [''select-layout'', ''selectl'', ''layout''] then
        (case rest of
           [] \<Rightarrow> Inl (MissingArgument ''select-layout'' ''NAME'') | name # _ \<Rightarrow> Inr (SelectLayout name))
      else if is_word head [''set-option'', ''setw'', ''set''] then parse_set_option rest
      else if is_word head [''display-message'', ''display'', ''displaym''] then
        (case join_remaining rest of
           None \<Rightarrow> Inl (MissingArgument ''display-message'' ''TEXT'') | Some t \<Rightarrow> Inr (DisplayMessage t))
      else Inl (UnknownCommand head))"

definition parse_command :: "ustr \<Rightarrow> ParseError + Command" where
  "parse_command input =
     (case tokenize input of
        Inl e \<Rightarrow> Inl e
      | Inr [] \<Rightarrow> Inl Empty
      | Inr (head # rest) \<Rightarrow> parse_tokens head rest)"

section \<open>Quoting\<close>

text \<open>A token in double quotes, with quotes and backslashes escaped.\<close>

definition escaped :: "ustr \<Rightarrow> ustr" where
  "escaped t = concat (map (\<lambda>c. if c = dquote \<or> c = backslash then [backslash, c] else [c]) t)"

definition quoted :: "ustr \<Rightarrow> ustr" where
  "quoted t = dquote # escaped t @ [dquote]"

lemma tokenize_escaped:
  "tokenize_loop (escaped t @ dquote # cs) tokens current True (Some dquote) =
     tokenize_loop cs tokens (current @ t) True None"
proof (induction t arbitrary: current)
  case (Cons c t)
  then show ?case using Cons[of "current @ [c]"] by (auto simp: escaped_def)
qed (simp add: escaped_def)

lemma tokenize_quoted_loop:
  "tokenize_loop (join_with [32] (map quoted (t # ts))) tokens [] False None = Inr (tokens @ t # ts)"
proof (induction ts arbitrary: t tokens)
  case Nil
  then show ?case using tokenize_escaped[of t "[]" tokens "[]"] by (simp add: quoted_def)
next
  case (Cons u ts)
  have "tokenize_loop (join_with [32] (map quoted (t # u # ts))) tokens [] False None =
    tokenize_loop (escaped t @ dquote # 32 # join_with [32] (map quoted (u # ts))) tokens [] True (Some dquote)"
    by (simp add: quoted_def)
  also have "\<dots> = tokenize_loop (join_with [32] (map quoted (u # ts))) (tokens @ [t]) [] False None"
    by (simp add: tokenize_escaped is_white_def)
  finally show ?case using Cons by simp
qed

lemma tokenize_quoted: "tokenize (join_with [32] (map quoted ts)) = Inr ts"
  using tokenize_quoted_loop[of _ _ "[]"] by (cases ts) (simp_all add: tokenize_def)

section \<open>Spelling commands\<close>

definition flag_of :: "Dir \<Rightarrow> string" where
  "flag_of d = (case d of DirUp \<Rightarrow> ''-U'' | DirDown \<Rightarrow> ''-D'' | DirLeft \<Rightarrow> ''-L'' | DirRight \<Rightarrow> ''-R'')"

definition command_tokens :: "Command \<Rightarrow> ustr list" where
  "command_tokens cmd =
     (case cmd of
        SplitHorizontal \<Rightarrow> map ascii [''split-window'', ''-h'']
      | SplitVertical \<Rightarrow> map ascii [''split-window'', ''-v'']
      | KillPane \<Rightarrow> [ascii ''kill-pane'']
      | KillWindow \<Rightarrow> [ascii ''kill-window'']
      | NewWindow None \<Rightarrow> [ascii ''new-window'']
      | NewWindow (Some name) \<Rightarrow> map ascii [''new-window'', ''-n''] @ [name]
      | RenameWindow name \<Rightarrow> [ascii ''rename-window'', name]
      | SelectPane d \<Rightarrow> map ascii [''select-pane'', flag_of d]
      | ResizePane d n \<Rightarrow> map ascii [''resize-pane'', flag_of d] @ [decimal n]
      | SwapPane up \<Rightarrow> map ascii [''swap-pane'', if up then ''-U'' else ''-D'']
      | SelectLayout name \<Rightarrow> [ascii ''select-layout'', name]
      | SetOption k v \<Rightarrow> [ascii ''set-option'', k, v]
      | DisplayMessage t \<Rightarrow> [ascii ''display-message'', t])"

definition command_text :: "Command \<Rightarrow> ustr" where
  "command_text cmd = join_with [32] (map quoted (command_tokens cmd))"

lemma dir_parse_flag: "dir_parse (ascii (flag_of d)) = Some d"
  by (cases d) (simp_all add: dir_parse_def flag_of_def ascii_def)

lemma parse_tokens_spelled:
  assumes "\<forall>d n. cmd = ResizePane d n \<longrightarrow> n < 65536"
  shows "\<exists>head rest. command_tokens cmd = head # rest \<and> parse_tokens head rest = Inr cmd"
proof (cases cmd)
  case (NewWindow name)
  then show ?thesis
    by (cases name) (simp_all add: command_tokens_def parse_tokens_def is_word_def ascii_def parse_new_window_def starts_dash_def)
next
  case (SelectPane d)
  then show ?thesis
    using dir_parse_flag[of d] by (simp add: command_tokens_def parse_tokens_def is_word_def ascii_def parse_dir_only_def)
next
  case (ResizePane d n)
  then show ?thesis
    using dir_parse_flag[of d] parse_uint_decimal[of n 65536] assms
    by (simp add: command_tokens_def parse_tokens_def is_word_def ascii_def parse_dir_only_def parse_resize_pane_def)
qed (simp_all add: command_tokens_def parse_tokens_def is_word_def ascii_def parse_split_def parse_swap_pane_def
    parse_set_option_def join_remaining_def)

section \<open>Properties\<close>

text \<open>C26. Every command of the palette can be typed. Writing its canonical name and its arguments in
  double quotes, with quotes and backslashes escaped, gives a line that parses back to exactly
  that command, whatever characters, blanks and quotes the arguments contain; only the amount of a
  resize must fit in 16 bits.\<close>

theorem command_roundtrip:
  assumes "\<forall>d n. cmd = ResizePane d n \<longrightarrow> n < 65536"
  shows "parse_command (command_text cmd) = Inr cmd"
  using parse_tokens_spelled[OF assms] by (auto simp: parse_command_def command_text_def tokenize_quoted)

lemma command_roundtrip_witness:
  "parse_command ([34] @ ascii ''set-option'' @ [34, 32, 34] @ ascii ''a b'' @ [34, 32, 34, 92, 34, 92, 92, 34]) = Inr (SetOption (ascii ''a b'') [34, 92])"
proof -
  have "parse_command (command_text (SetOption (ascii ''a b'') [34, 92])) = Inr (SetOption (ascii ''a b'') [34, 92])"
    by (rule command_roundtrip) simp
  moreover have "command_text (SetOption (ascii ''a b'') [34, 92]) = [34] @ ascii ''set-option'' @ [34, 32, 34] @ ascii ''a b'' @ [34, 32, 34, 92, 34, 92, 92, 34]"
    by (simp add: command_text_def command_tokens_def quoted_def escaped_def ascii_def)
  ultimately show ?thesis by simp
qed

end
