(* ===== verification/Keymap.thy ===== *)
theory Keymap
  imports Keys
begin

text \<open>
  User key bindings: \<open>src/src/keymap.rs\<close>. The action vocabulary with its parser, key chords with
  their parser and the normalisation that makes legacy and enhanced terminal reports agree, and
  the merging of binding tables. The crate \<open>toml\<close> delivers a table as its entries in iteration
  order.
\<close>

section \<open>Actions\<close>

datatype Dir = DirUp | DirDown | DirLeft | DirRight

datatype Action =
    SplitWindowH | SplitWindowV | KillPane | NewWindow "ustr option" | RenameWindow | KillWindow
  | SelectWindow nat | NextWindow | PreviousWindow | SelectPane Dir | ResizePane Dir nat | SwapPane bool
  | Equalize | SelectLayout ustr | DetachSession | KillSession | CopyModeAction | CancelAction
  | BeginSelection | CopySelectionAndCancel | ReloadConfig | CommandPrompt | ToggleSettings
  | ToggleBroadcast | DisplayMessage ustr | SetOption ustr ustr | SetBuffer ustr ustr
  | PasteBuffer "ustr option" | ListBuffers

fun action_kind :: "Action \<Rightarrow> string" where
  "action_kind SplitWindowH = ''split-window-h''"
| "action_kind SplitWindowV = ''split-window-v''"
| "action_kind KillPane = ''kill-pane''"
| "action_kind (NewWindow _) = ''new-window''"
| "action_kind RenameWindow = ''rename-window''"
| "action_kind KillWindow = ''kill-window''"
| "action_kind (SelectWindow _) = ''select-window''"
| "action_kind NextWindow = ''next-window''"
| "action_kind PreviousWindow = ''previous-window''"
| "action_kind (SelectPane _) = ''select-pane''"
| "action_kind (ResizePane _ _) = ''resize-pane''"
| "action_kind (SwapPane _) = ''swap-pane''"
| "action_kind Equalize = ''equalize''"
| "action_kind (SelectLayout _) = ''select-layout''"
| "action_kind DetachSession = ''detach-session''"
| "action_kind KillSession = ''kill-session''"
| "action_kind CopyModeAction = ''copy-mode''"
| "action_kind CancelAction = ''cancel''"
| "action_kind BeginSelection = ''begin-selection''"
| "action_kind CopySelectionAndCancel = ''copy-selection-and-cancel''"
| "action_kind ReloadConfig = ''reload-config''"
| "action_kind CommandPrompt = ''command-prompt''"
| "action_kind ToggleSettings = ''toggle-settings''"
| "action_kind ToggleBroadcast = ''toggle-broadcast''"
| "action_kind (DisplayMessage _) = ''display-message''"
| "action_kind (SetOption _ _) = ''set-option''"
| "action_kind (SetBuffer _ _) = ''set-buffer''"
| "action_kind (PasteBuffer _) = ''paste-buffer''"
| "action_kind ListBuffers = ''list-buffers''"

definition vocabulary :: "string list" where
  "vocabulary =
     [''split-window-h'', ''split-window-v'', ''kill-pane'', ''new-window'', ''rename-window'',
      ''kill-window'', ''select-window'', ''next-window'', ''previous-window'', ''select-pane'',
      ''resize-pane'', ''swap-pane'', ''equalize'', ''select-layout'', ''detach-session'',
      ''kill-session'', ''copy-mode'', ''cancel'', ''begin-selection'', ''copy-selection-and-cancel'',
      ''reload-config'', ''command-prompt'', ''toggle-settings'', ''toggle-broadcast'',
      ''display-message'', ''set-option'', ''set-buffer'', ''paste-buffer'', ''list-buffers'']"

definition keymap_dir :: "ustr \<Rightarrow> Dir option" where
  "keymap_dir s =
     (if s \<in> {ascii ''up'', ascii ''U'', ascii ''u''} then Some DirUp
      else if s \<in> {ascii ''down'', ascii ''D'', ascii ''d''} then Some DirDown
      else if s \<in> {ascii ''left'', ascii ''L'', ascii ''l''} then Some DirLeft
      else if s \<in> {ascii ''right'', ascii ''R'', ascii ''r''} then Some DirRight
      else None)"

datatype ActionParseError =
    EmptyAction | UnknownAction ustr | MissingArgument string string | InvalidArgument string ustr

definition action_error_text :: "ActionParseError \<Rightarrow> ustr" where
  "action_error_text e =
     (case e of
        EmptyAction \<Rightarrow> ascii ''empty action''
      | UnknownAction name \<Rightarrow> ascii ''unknown action: '' @ name
      | MissingArgument action arg \<Rightarrow> ascii action @ ascii '': missing argument <'' @ ascii arg @ ascii ''>''
      | InvalidArgument action arg \<Rightarrow> ascii action @ ascii '': invalid argument: '' @ arg)"

text \<open>\<open>split_once(char::is_whitespace)\<close>.\<close>

definition split_once_white :: "ustr \<Rightarrow> (ustr \<times> ustr) option" where
  "split_once_white s =
     (case dropWhile (\<lambda>c. \<not> is_white c) s of
        [] \<Rightarrow> None
      | _ # r \<Rightarrow> Some (takeWhile (\<lambda>c. \<not> is_white c) s, r))"

definition parse_new_window :: "ustr \<Rightarrow> ActionParseError + Action" where
  "parse_new_window rest =
     (if rest = [] then Inr (NewWindow None)
      else if take 2 rest = ascii ''-n'' then
        (let name = trim (drop 2 rest)
         in if name = [] then Inl (MissingArgument ''new-window'' ''NAME'') else Inr (NewWindow (Some name)))
      else Inr (NewWindow (Some rest)))"

definition parse_resize_pane :: "ustr \<Rightarrow> ActionParseError + Action" where
  "parse_resize_pane rest =
     (let (dir_part, amount_part) =
            (case split_once_white rest of Some (d, a) \<Rightarrow> (d, trim a) | None \<Rightarrow> (rest, []))
      in case keymap_dir dir_part of
           None \<Rightarrow> Inl (InvalidArgument ''resize-pane'' dir_part)
         | Some dir \<Rightarrow>
             if amount_part = [] then Inr (ResizePane dir 1)
             else (case parse_uint 65536 amount_part of
                     None \<Rightarrow> Inl (InvalidArgument ''resize-pane'' amount_part)
                   | Some n \<Rightarrow> Inr (ResizePane dir n)))"

definition parse_select_window :: "ustr \<Rightarrow> ActionParseError + Action" where
  "parse_select_window rest =
     (case parse_uint (2 ^ 64) rest of
        None \<Rightarrow> Inl (InvalidArgument ''select-window'' rest)
      | Some n \<Rightarrow> Inr (SelectWindow n))"

definition parse_select_pane :: "ustr \<Rightarrow> ActionParseError + Action" where
  "parse_select_pane rest =
     (case keymap_dir rest of
        None \<Rightarrow> Inl (InvalidArgument ''select-pane'' rest)
      | Some d \<Rightarrow> Inr (SelectPane d))"

definition parse_swap_pane :: "ustr \<Rightarrow> ActionParseError + Action" where
  "parse_swap_pane rest =
     (if rest \<in> {ascii ''up'', ascii ''U'', ascii ''u'', []} then Inr (SwapPane True)
      else if rest \<in> {ascii ''down'', ascii ''D'', ascii ''d''} then Inr (SwapPane False)
      else Inl (InvalidArgument ''swap-pane'' rest))"

definition parse_set_option :: "ustr \<Rightarrow> ActionParseError + Action" where
  "parse_set_option rest =
     (case split_once_white rest of
        None \<Rightarrow> Inl (MissingArgument ''set-option'' ''VALUE'')
      | Some (k, v) \<Rightarrow> Inr (SetOption k (trim v)))"

definition parse_set_buffer :: "ustr \<Rightarrow> ActionParseError + Action" where
  "parse_set_buffer rest =
     (if rest = [] then Inl (MissingArgument ''set-buffer'' ''NAME'')
      else case split_once_white rest of
             None \<Rightarrow> Inl (MissingArgument ''set-buffer'' ''VALUE'')
           | Some (name, v) \<Rightarrow> Inr (SetBuffer name (trim v)))"

definition parse_head :: "ustr \<Rightarrow> ustr \<Rightarrow> ActionParseError + Action" where
  "parse_head head rest =
     (if head = ascii ''split-window-h'' then Inr SplitWindowH
      else if head = ascii ''split-window-v'' then Inr SplitWindowV
      else if head = ascii ''kill-pane'' then Inr KillPane
      else if head = ascii ''kill-window'' then Inr KillWindow
      else if head = ascii ''new-window'' then parse_new_window rest
      else if head = ascii ''rename-window'' then Inr RenameWindow
      else if head = ascii ''select-window'' then parse_select_window rest
      else if head = ascii ''next-window'' then Inr NextWindow
      else if head = ascii ''previous-window'' then Inr PreviousWindow
      else if head = ascii ''select-pane'' then parse_select_pane rest
      else if head = ascii ''resize-pane'' then parse_resize_pane rest
      else if head = ascii ''swap-pane'' then parse_swap_pane rest
      else if head = ascii ''equalize'' then Inr Equalize
      else if head = ascii ''select-layout'' then
        (if rest = [] then Inl (MissingArgument ''select-layout'' ''NAME'') else Inr (SelectLayout rest))
      else if head = ascii ''detach-session'' then Inr DetachSession
      else if head = ascii ''kill-session'' then Inr KillSession
      else if head = ascii ''copy-mode'' then Inr CopyModeAction
      else if head = ascii ''cancel'' then Inr CancelAction
      else if head = ascii ''begin-selection'' then Inr BeginSelection
      else if head = ascii ''copy-selection-and-cancel'' then Inr CopySelectionAndCancel
      else if head = ascii ''reload-config'' then Inr ReloadConfig
      else if head = ascii ''command-prompt'' then Inr CommandPrompt
      else if head = ascii ''toggle-settings'' then Inr ToggleSettings
      else if head = ascii ''toggle-broadcast'' then Inr ToggleBroadcast
      else if head = ascii ''display-message'' then
        (if rest = [] then Inl (MissingArgument ''display-message'' ''TEXT'') else Inr (DisplayMessage rest))
      else if head = ascii ''set-option'' then parse_set_option rest
      else if head = ascii ''set-buffer'' then parse_set_buffer rest
      else if head = ascii ''paste-buffer'' then Inr (PasteBuffer (if rest = [] then None else Some rest))
      else if head = ascii ''list-buffers'' then Inr ListBuffers
      else Inl (UnknownAction head))"

definition parse_action :: "ustr \<Rightarrow> ActionParseError + Action" where
  "parse_action input =
     (if trim input = [] then Inl EmptyAction
      else let (head, rest) = (case split_once_white (trim input) of
             Some (h, r) \<Rightarrow> (h, trim r) | None \<Rightarrow> (trim input, []))
      in parse_head head rest)"

section \<open>Key chords\<close>

record KeyChord =
  chord_code :: KeyCode
  chord_mods :: "Modifier set"

definition is_upper :: "nat \<Rightarrow> bool" where "is_upper c \<longleftrightarrow> 65 \<le> c \<and> c \<le> 90"
definition is_lower :: "nat \<Rightarrow> bool" where "is_lower c \<longleftrightarrow> 97 \<le> c \<and> c \<le> 122"

definition chord_new :: "KeyCode \<Rightarrow> Modifier set \<Rightarrow> KeyChord" where
  "chord_new k mods =
     (case k of
        Char c \<Rightarrow>
          if is_upper c \<or> is_lower c then
            \<lparr>chord_code = Char (if is_upper c then c + 32 else c),
             chord_mods = (if is_upper c \<and> CONTROL \<notin> mods then insert SHIFT mods else mods)\<rparr>
          else \<lparr>chord_code = Char c, chord_mods = mods - {SHIFT}\<rparr>
      | _ \<Rightarrow> \<lparr>chord_code = k, chord_mods = mods\<rparr>)"

definition from_event :: "KeyEvent \<Rightarrow> KeyChord" where
  "from_event ev = chord_new (code ev) (modifiers ev \<inter> {CONTROL, ALT, SHIFT})"

datatype KeyParseError = EmptyKey | UnknownNamedKey ustr | InvalidModifier ustr | DanglingModifier

definition key_error_text :: "KeyParseError \<Rightarrow> ustr" where
  "key_error_text e =
     (case e of
        EmptyKey \<Rightarrow> ascii ''empty key spec''
      | UnknownNamedKey s \<Rightarrow> ascii ''unknown named key: '' @ s
      | InvalidModifier s \<Rightarrow> ascii ''invalid modifier: '' @ s
      | DanglingModifier \<Rightarrow> ascii ''modifier without a key'')"

text \<open>The modifier prefixes. A first byte \<open>C\<close>, \<open>M\<close> or \<open>S\<close> and a second byte \<open>-\<close> are whole characters.\<close>

fun parse_mods :: "ustr \<Rightarrow> Modifier set \<Rightarrow> Modifier set \<times> ustr" where
  "parse_mods (a # b # rest) mods =
     (if b = 45 \<and> (a = 67 \<or> a = 99) then parse_mods rest (insert CONTROL mods)
      else if b = 45 \<and> (a = 77 \<or> a = 109) then parse_mods rest (insert ALT mods)
      else if b = 45 \<and> (a = 83 \<or> a = 115) then parse_mods rest (insert SHIFT mods)
      else (mods, a # b # rest))"
| "parse_mods s mods = (mods, s)"

definition named_keys :: "(string \<times> KeyCode) list" where
  "named_keys =
     [(''Enter'', Enter), (''enter'', Enter), (''Return'', Enter), (''return'', Enter),
      (''Esc'', Esc), (''esc'', Esc), (''Escape'', Esc), (''escape'', Esc),
      (''Tab'', TabKey), (''tab'', TabKey), (''BackTab'', BackTab), (''backtab'', BackTab),
      (''Backspace'', Backspace), (''backspace'', Backspace), (''BS'', Backspace),
      (''Delete'', DeleteKey), (''delete'', DeleteKey), (''Del'', DeleteKey),
      (''Insert'', Insert), (''insert'', Insert), (''Ins'', Insert),
      (''Home'', Home), (''home'', Home), (''End'', EndKey), (''end'', EndKey),
      (''PageUp'', PageUp), (''pageup'', PageUp), (''PgUp'', PageUp),
      (''PageDown'', PageDown), (''pagedown'', PageDown), (''PgDn'', PageDown), (''PgDown'', PageDown),
      (''Up'', UpKey), (''up'', UpKey), (''Down'', DownKey), (''down'', DownKey),
      (''Left'', LeftKey), (''left'', LeftKey), (''Right'', RightKey), (''right'', RightKey),
      (''Space'', Char 32), (''space'', Char 32)]"

definition named_key :: "ustr \<Rightarrow> KeyCode option" where
  "named_key s = map_of (map (\<lambda>(n, k). (ascii n, k)) named_keys) s"

definition function_key :: "ustr \<Rightarrow> nat option" where
  "function_key rest =
     (case rest of
        c # num \<Rightarrow>
          if c = 70 \<or> c = 102 then
            (case parse_uint 256 num of Some n \<Rightarrow> (if 1 \<le> n \<and> n \<le> 12 then Some n else None) | None \<Rightarrow> None)
          else None
      | [] \<Rightarrow> None)"

definition parse_chord :: "ustr \<Rightarrow> KeyParseError + KeyChord" where
  "parse_chord input =
     (if trim input = [] then Inl EmptyKey
      else let (mods, rest) = parse_mods (trim input) {}
      in if rest = [] then Inl DanglingModifier
      else case function_key rest of
             Some n \<Rightarrow> Inr (chord_new (F n) mods)
           | None \<Rightarrow>
               (case named_key rest of
                  Some k \<Rightarrow> Inr (chord_new k mods)
                | None \<Rightarrow>
                    (case rest of
                       [c] \<Rightarrow> Inr (chord_new (Char c) mods)
                     | _ \<Rightarrow> Inl (UnknownNamedKey rest))))"

section \<open>Tables\<close>

datatype KeymapTable = PrefixTable | NormalTable | CopyModeTable

fun table_name :: "KeymapTable \<Rightarrow> string" where
  "table_name PrefixTable = ''prefix''"
| "table_name NormalTable = ''normal''"
| "table_name CopyModeTable = ''copy_mode''"

definition table_from_str :: "ustr \<Rightarrow> KeymapTable option" where
  "table_from_str s =
     (if s = ascii ''prefix'' then Some PrefixTable
      else if s = ascii ''normal'' then Some NormalTable
      else if s = ascii ''copy_mode'' \<or> s = ascii ''copy-mode'' then Some CopyModeTable
      else None)"

text \<open>The tables, an absent one as an empty one, and the tables that were cleared.\<close>

record Keymap =
  km_tables :: "KeymapTable \<Rightarrow> KeyChord \<Rightarrow> Action option"
  km_cleared :: "KeymapTable set"

definition keymap_new :: Keymap where
  "keymap_new = \<lparr>km_tables = (\<lambda>_ _. None), km_cleared = {}\<rparr>"

definition keymap_lookup :: "KeymapTable \<Rightarrow> KeyChord \<Rightarrow> Keymap \<Rightarrow> Action option" where
  "keymap_lookup t c km = km_tables km t c"

definition keymap_bind :: "KeymapTable \<Rightarrow> KeyChord \<Rightarrow> Action \<Rightarrow> Keymap \<Rightarrow> Keymap" where
  "keymap_bind t c a km = km\<lparr>km_tables := (km_tables km)(t := (km_tables km t)(c := Some a))\<rparr>"

definition keymap_clear :: "KeymapTable \<Rightarrow> Keymap \<Rightarrow> Keymap" where
  "keymap_clear t km =
     km\<lparr>km_cleared := insert t (km_cleared km), km_tables := (km_tables km)(t := (\<lambda>_. None))\<rparr>"

definition allows_builtin_fallback :: "KeymapTable \<Rightarrow> Keymap \<Rightarrow> bool" where
  "allows_builtin_fallback t km \<longleftrightarrow> t \<notin> km_cleared km"

section \<open>Loading\<close>

datatype toml = TBool bool | TString ustr | TTable "(ustr \<times> toml) list" | TOther

record KeymapLoadError =
  le_table :: ustr
  le_key :: ustr
  le_message :: ustr

fun apply_entries ::
  "KeymapTable \<Rightarrow> (ustr \<times> toml) list \<Rightarrow> Keymap \<Rightarrow> ustr list \<Rightarrow> (KeymapLoadError + ustr list) \<times> Keymap" where
  "apply_entries t [] km warnings = (Inr warnings, km)"
| "apply_entries t ((key, val) # es) km warnings =
     (if key = ascii ''clear'' then apply_entries t es km warnings
      else case val of
        TString action_str \<Rightarrow>
          (case parse_chord key of
             Inl e \<Rightarrow> (Inl \<lparr>le_table = ascii (table_name t), le_key = key,
                           le_message = ascii ''invalid key: '' @ key_error_text e\<rparr>, km)
           | Inr chord \<Rightarrow>
               (case parse_action action_str of
                  Inl e \<Rightarrow> (Inl \<lparr>le_table = ascii (table_name t), le_key = key,
                                le_message = ascii ''invalid action: '' @ action_error_text e\<rparr>, km)
                | Inr action \<Rightarrow>
                    apply_entries t es (keymap_bind t chord action km)
                      (if keymap_lookup t chord km \<noteq> None
                       then warnings @ [ascii ''[keymap.'' @ ascii (table_name t) @ ascii ''] '' @ key @
                              ascii '' overrides previous binding'']
                       else warnings)))
      | _ \<Rightarrow> (Inl \<lparr>le_table = ascii (table_name t), le_key = key,
                  le_message = ascii ''value must be a string action''\<rparr>, km))"

definition apply_table ::
  "KeymapTable \<Rightarrow> (ustr \<times> toml) list \<Rightarrow> Keymap \<Rightarrow> (KeymapLoadError + ustr list) \<times> Keymap" where
  "apply_table t raw km =
     (case map_of raw (ascii ''clear'') of
        None \<Rightarrow> apply_entries t raw km []
      | Some (TBool b) \<Rightarrow> apply_entries t raw (if b then keymap_clear t km else km) []
      | Some _ \<Rightarrow> (Inl \<lparr>le_table = ascii (table_name t), le_key = ascii ''clear'',
                       le_message = ascii ''must be a boolean''\<rparr>, km))"

fun apply_keymap_section ::
  "(ustr \<times> toml) list \<Rightarrow> Keymap \<Rightarrow> ustr list \<Rightarrow> (KeymapLoadError + ustr list) \<times> Keymap" where
  "apply_keymap_section [] km warnings = (Inr warnings, km)"
| "apply_keymap_section ((sub_name, sub) # subs) km warnings =
     (case table_from_str sub_name of
        None \<Rightarrow> (Inl \<lparr>le_table = sub_name, le_key = [],
                     le_message = ascii ''unknown keymap table (valid: prefix, normal, copy_mode)''\<rparr>, km)
      | Some t \<Rightarrow>
          (case sub of
             TTable raw \<Rightarrow>
               (case apply_table t raw km of
                  (Inl e, km) \<Rightarrow> (Inl e, km)
                | (Inr ws, km) \<Rightarrow> apply_keymap_section subs km (warnings @ ws))
           | _ \<Rightarrow> (Inl \<lparr>le_table = sub_name, le_key = [], le_message = ascii ''must be a table''\<rparr>, km)))"

end
