(* ===== verification/KeymapProps.thy ===== *)
theory KeymapProps
  imports Keymap
begin

text \<open>
  Properties of key bindings: what the action parser answers on every input, spellings of chords
  that parse back, chords of events that do not depend on how the terminal reports them, and the
  meaning of applying a table.
\<close>

section \<open>Actions\<close>

lemma action_kind_in_vocabulary: "action_kind a \<in> set vocabulary"
  by (cases a) (simp_all add: vocabulary_def)

lemma ascii_inj [simp]: "ascii a = ascii b \<longleftrightarrow> a = b"
proof -
  have "inj (of_char :: char \<Rightarrow> nat)" by (simp add: inj_on_def)
  then show ?thesis by (simp add: ascii_def inj_map_eq_map)
qed

text \<open>What an outcome says of the first word: the kind of the action, the name in the error, or a
  word outside the vocabulary.\<close>

definition explains :: "ustr \<Rightarrow> ActionParseError + Action \<Rightarrow> bool" where
  "explains w r \<longleftrightarrow>
     (case r of
        Inr a \<Rightarrow> w = ascii (action_kind a)
      | Inl EmptyAction \<Rightarrow> False
      | Inl (UnknownAction u) \<Rightarrow> u = w \<and> w \<notin> ascii ` set vocabulary
      | Inl (MissingArgument k _) \<Rightarrow> w = ascii k \<and> k \<in> set vocabulary
      | Inl (InvalidArgument k _) \<Rightarrow> w = ascii k \<and> k \<in> set vocabulary)"

lemma explains_arguments:
  "explains (ascii ''new-window'') (parse_new_window r)" "explains (ascii ''resize-pane'') (parse_resize_pane r)"
  "explains (ascii ''select-window'') (parse_select_window r)" "explains (ascii ''select-pane'') (parse_select_pane r)"
  "explains (ascii ''swap-pane'') (parse_swap_pane r)" "explains (ascii ''set-option'') (parse_set_option r)"
  "explains (ascii ''set-buffer'') (parse_set_buffer r)"
  by (simp_all add: explains_def parse_new_window_def parse_resize_pane_def parse_select_window_def
      parse_select_pane_def parse_swap_pane_def parse_set_option_def parse_set_buffer_def vocabulary_def
      Let_def case_prod_beta split: option.split)

lemma explains_known:
  "explains (ascii (action_kind a)) (Inr a)"
  "k \<in> set vocabulary \<Longrightarrow> explains (ascii k) (Inl (MissingArgument k x))"
  "w \<notin> ascii ` set vocabulary \<Longrightarrow> explains w (Inl (UnknownAction w))"
  by (simp_all add: explains_def)

lemma explains_if:
  "(w = c \<Longrightarrow> explains c x) \<Longrightarrow> (w \<noteq> c \<Longrightarrow> explains w y) \<Longrightarrow> explains w (if w = c then x else y)"
  by simp

lemma parse_head_explains: "explains w (parse_head w rest)"
  unfolding parse_head_def
  by (intro explains_if)
    (simp_all add: explains_arguments,
     simp_all add: explains_def vocabulary_def)

definition first_word :: "ustr \<Rightarrow> ustr" where
  "first_word s = takeWhile (\<lambda>c. \<not> is_white c) (trim s)"

lemma parse_action_head:
  assumes "trim input \<noteq> []"
  shows "\<exists>rest. parse_action input = parse_head (first_word input) rest"
proof (cases "split_once_white (trim input)")
  case None
  then have "dropWhile (\<lambda>c. \<not> is_white c) (trim input) = []" by (simp add: split_once_white_def split: list.splits)
  then have "first_word input = trim input"
    unfolding first_word_def by (metis append_Nil2 takeWhile_dropWhile_id)
  then show ?thesis using assms None by (auto simp: parse_action_def)
next
  case (Some p)
  then show ?thesis using assms
    by (auto simp: parse_action_def first_word_def split_once_white_def split: list.splits)
qed

definition sample_argument :: "string \<Rightarrow> ustr" where
  "sample_argument k =
     (if k = ''select-window'' then [48]
      else if k \<in> {''select-pane'', ''resize-pane'', ''swap-pane''} then [85] else [97, 32, 98])"

lemma samples_parse:
  "list_all (\<lambda>k. case parse_action (ascii k @ 32 # sample_argument k) of Inr a \<Rightarrow> action_kind a = k | Inl _ \<Rightarrow> False)
     vocabulary"
  by code_simp

text \<open>The action parser answers every string, and what it says is about its first word. An
  accepted action has that word as its stable name; an error about an argument names the same
  action; a word is unknown only when it is outside the published vocabulary, and a string is
  empty only when it is blank. Every word of the vocabulary is the name of some parsed action,
  and no other.\<close>

theorem action_vocabulary:
  "(case parse_action input of
      Inl EmptyAction \<Rightarrow> trim input = []
    | r \<Rightarrow> explains (first_word input) r) \<and>
   {action_kind a | a s. parse_action s = Inr a} = set vocabulary"
proof
  show "case parse_action input of Inl EmptyAction \<Rightarrow> trim input = [] | r \<Rightarrow> explains (first_word input) r"
  proof (cases "trim input = []")
    case True
    then show ?thesis by (simp add: parse_action_def)
  next
    case False
    then obtain rest where r: "parse_action input = parse_head (first_word input) rest"
      using parse_action_head by blast
    show ?thesis using parse_head_explains[of "first_word input" rest] unfolding r
      by (auto simp: explains_def split: sum.splits ActionParseError.splits)
  qed
  show "{action_kind a | a s. parse_action s = Inr a} = set vocabulary"
  proof (intro equalityI subsetI)
    fix k assume "k \<in> set vocabulary"
    then obtain a where "parse_action (ascii k @ 32 # sample_argument k) = Inr a" "action_kind a = k"
      using samples_parse
      by (cases "parse_action (ascii k @ 32 # sample_argument k)") (auto simp: list_all_iff)
    then show "k \<in> {action_kind a | a s. parse_action s = Inr a}" by blast
  qed (auto simp: action_kind_in_vocabulary)
qed

section \<open>Chords\<close>

definition modifier_prefix :: "Modifier set \<Rightarrow> ustr" where
  "modifier_prefix m =
     (if CONTROL \<in> m then [67, 45] else []) @ (if ALT \<in> m then [77, 45] else []) @ (if SHIFT \<in> m then [83, 45] else [])"

fun key_name :: "KeyCode \<Rightarrow> ustr option" where
  "key_name Enter = Some (ascii ''Enter'')"
| "key_name Esc = Some (ascii ''Esc'')"
| "key_name TabKey = Some (ascii ''Tab'')"
| "key_name BackTab = Some (ascii ''BackTab'')"
| "key_name Backspace = Some (ascii ''Backspace'')"
| "key_name DeleteKey = Some (ascii ''Delete'')"
| "key_name Insert = Some (ascii ''Insert'')"
| "key_name Home = Some (ascii ''Home'')"
| "key_name EndKey = Some (ascii ''End'')"
| "key_name PageUp = Some (ascii ''PageUp'')"
| "key_name PageDown = Some (ascii ''PageDown'')"
| "key_name UpKey = Some (ascii ''Up'')"
| "key_name DownKey = Some (ascii ''Down'')"
| "key_name LeftKey = Some (ascii ''Left'')"
| "key_name RightKey = Some (ascii ''Right'')"
| "key_name (F n) = (if 1 \<le> n \<and> n \<le> 12 then Some (70 # decimal n) else None)"
| "key_name (Char c) = (if c = 32 then Some (ascii ''Space'') else if is_white c then None else Some [c])"
| "key_name _ = None"

text \<open>Chords as \<open>KeyChord::new\<close> makes them.\<close>

definition chord_ok :: "KeyChord \<Rightarrow> bool" where
  "chord_ok ch \<longleftrightarrow> chord_mods ch \<subseteq> {CONTROL, ALT, SHIFT} \<and>
     (case chord_code ch of
        Char c \<Rightarrow> \<not> is_upper c \<and> (SHIFT \<in> chord_mods ch \<longrightarrow> is_lower c)
      | _ \<Rightarrow> True)"

definition chord_text :: "KeyChord \<Rightarrow> ustr option" where
  "chord_text ch = map_option ((@) (modifier_prefix (chord_mods ch))) (key_name (chord_code ch))"

lemma chord_new_ok: "mods \<subseteq> {CONTROL, ALT, SHIFT} \<Longrightarrow> chord_ok (chord_new k mods)"
  by (cases k) (auto simp: chord_ok_def chord_new_def is_upper_def is_lower_def)

lemma chord_new_id: "chord_ok ch \<Longrightarrow> chord_new (chord_code ch) (chord_mods ch) = ch"
  by (cases ch; cases "chord_code ch") (auto simp: chord_ok_def chord_new_def)

lemma trim_id: "s \<noteq> [] \<Longrightarrow> \<not> is_white (hd s) \<Longrightarrow> \<not> is_white (last s) \<Longrightarrow> trim s = s"
proof -
  assume a: "s \<noteq> []" "\<not> is_white (hd s)" "\<not> is_white (last s)"
  have d: "dropWhile is_white t = t" if "t \<noteq> []" "\<not> is_white (hd t)" for t using that by (cases t) auto
  show ?thesis using a d[of s] d[of "rev s"] by (simp add: trim_def hd_rev)
qed

lemma parse_mods_prefix:
  assumes "m \<subseteq> {CONTROL, ALT, SHIFT}" "parse_mods name m = (m, name)"
  shows "parse_mods (modifier_prefix m @ name) {} = (m, name)"
proof -
  have m: "m = (if CONTROL \<in> m then {CONTROL} else {}) \<union> (if ALT \<in> m then {ALT} else {}) \<union>
      (if SHIFT \<in> m then {SHIFT} else {})" using assms(1) by auto
  show ?thesis using assms(2)
    by (subst (2) m, subst (asm) (1 2) m)
      (auto simp: modifier_prefix_def insert_commute split: if_splits)
qed

definition plain_name :: "ustr \<Rightarrow> bool" where
  "plain_name s \<longleftrightarrow> (case s of [] \<Rightarrow> False | [c] \<Rightarrow> \<not> is_white c | c # d # _ \<Rightarrow> \<not> is_white c \<and> d \<noteq> 45 \<and> \<not> is_white (last s))"

lemma key_name_plain: "key_name k = Some name \<Longrightarrow> plain_name name"
proof (cases k)
  case (F n)
  assume a: "key_name k = Some name"
  have l: "last (decimal n) \<in> set (decimal n)" "hd (decimal n) \<in> set (decimal n)" using decimal_nonempty[of n] by auto
  then have "48 \<le> last (decimal n) \<and> last (decimal n) \<le> 57" "hd (decimal n) \<noteq> 45"
    using decimal_digits by force+
  then show ?thesis using a F decimal_nonempty[of n]
    by (cases "decimal n") (auto simp: plain_name_def is_white_def split: if_splits)
qed (auto simp: plain_name_def ascii_def is_white_def split: if_splits)

lemma plain_nameD:
  assumes "plain_name s"
  shows "s \<noteq> []" "\<not> is_white (hd s)" "\<not> is_white (last s)" "parse_mods s m = (m, s)"
  using assms by (auto simp: plain_name_def split: list.splits)

lemma function_key_name: "1 \<le> n \<Longrightarrow> n \<le> 12 \<Longrightarrow> function_key (70 # decimal n) = Some n"
  by (simp add: function_key_def parse_uint_decimal)

lemma parse_chord_name:
  assumes "key_name k = Some name" "m \<subseteq> {CONTROL, ALT, SHIFT}"
  shows "parse_chord (modifier_prefix m @ name) = Inr (chord_new k m)"
proof -
  note p = plain_nameD[OF key_name_plain[OF assms(1)]]
  have h: "modifier_prefix m @ name \<noteq> []" "\<not> is_white (hd (modifier_prefix m @ name))"
    "\<not> is_white (last (modifier_prefix m @ name))"
    using p(1-3) by (auto simp: modifier_prefix_def is_white_def hd_append)
  have s: "trim (modifier_prefix m @ name) = modifier_prefix m @ name" by (rule trim_id[OF h])
  have r: "parse_mods (modifier_prefix m @ name) {} = (m, name)" by (rule parse_mods_prefix[OF assms(2) p(4)])
  have k: "(case function_key name of Some n \<Rightarrow> Some (F n) | None \<Rightarrow>
      (case named_key name of Some k \<Rightarrow> Some k | None \<Rightarrow> (case name of [c] \<Rightarrow> Some (Char c) | _ \<Rightarrow> None))) = Some k"
  proof (cases k)
    case (F n)
    then show ?thesis using assms(1) function_key_name[of n] by (auto split: if_splits)
  next
    case (Char c)
    then show ?thesis using assms(1)
      by (auto simp: function_key_def parse_uint_def named_key_def named_keys_def ascii_def split: if_splits)
  qed (use assms(1) in \<open>auto simp: function_key_def parse_uint_def named_key_def named_keys_def ascii_def\<close>)
  then show ?thesis using s r h(1) p(1)
    by (auto simp: parse_chord_def split: option.splits list.splits)
qed

lemma parse_mods_subset: "parse_mods s m = (m', rest) \<Longrightarrow> m \<subseteq> {CONTROL, ALT, SHIFT} \<Longrightarrow> m' \<subseteq> {CONTROL, ALT, SHIFT}"
  by (induction s m rule: parse_mods.induct) (auto split: if_splits)

lemma parse_chord_ok: "parse_chord s = Inr ch \<Longrightarrow> chord_ok ch"
  by (auto simp: parse_chord_def split: if_splits prod.splits option.splits list.splits
      intro!: chord_new_ok dest!: parse_mods_subset)

text \<open>C28. Every chord of a nameable key has a spelling that parses back to it: the modifiers as
  \<open>C-\<close>, \<open>M-\<close>, \<open>S-\<close> prefixes, then the key's name or its character, also for the keys \<open>C\<close>, \<open>-\<close>, \<open>F\<close> and
  the space.\<close>

theorem chord_roundtrip:
  assumes "chord_ok ch" "chord_text ch = Some s"
  shows "parse_chord s = Inr ch"
proof -
  obtain name where n: "key_name (chord_code ch) = Some name" "s = modifier_prefix (chord_mods ch) @ name"
    using assms(2) by (auto simp: chord_text_def)
  show ?thesis
    using parse_chord_name[OF n(1), of "chord_mods ch"] assms(1) chord_new_id[OF assms(1)] n(2)
    by (simp add: chord_ok_def)
qed

lemma chord_roundtrip_witness:
  "parse_chord (ascii ''C-M--'') = Inr \<lparr>chord_code = Char 45, chord_mods = {CONTROL, ALT}\<rparr>"
  by (rule chord_roundtrip)
    (simp_all add: chord_ok_def is_upper_def chord_text_def modifier_prefix_def is_white_def ascii_def)

text \<open>Bindings do not depend on how the terminal reports a key. A letter with Shift gives one
  chord whether it arrives in upper case without the modifier, in upper case with it or in lower
  case with it; for any other character Shift is ignored, since the character shows it; the
  modifiers super, hyper and meta never matter; and a binding is looked up exactly when its chord
  is the event's, because parsed chords and events have one normal form.\<close>

theorem chord_reports_agree:
  assumes "is_upper c" "CONTROL \<notin> m" "\<not> is_upper d" "\<not> is_lower d" "parse_chord spec = Inr ch"
  shows "from_event \<lparr>code = Char c, modifiers = m - {SHIFT}, kind = t\<rparr> =
      from_event \<lparr>code = Char c, modifiers = insert SHIFT m, kind = t\<rparr> \<and>
    from_event \<lparr>code = Char c, modifiers = insert SHIFT m, kind = t\<rparr> =
      from_event \<lparr>code = Char (c + 32), modifiers = insert SHIFT m, kind = t\<rparr> \<and>
    from_event \<lparr>code = Char d, modifiers = insert SHIFT m, kind = t\<rparr> =
      from_event \<lparr>code = Char d, modifiers = m - {SHIFT}, kind = t\<rparr> \<and>
    from_event \<lparr>code = k, modifiers = m \<union> {SUPER, HYPER, META}, kind = t\<rparr> =
      from_event \<lparr>code = k, modifiers = m - {SUPER, HYPER, META}, kind = t\<rparr> \<and>
    chord_ok (from_event ev) \<and> chord_ok ch \<and> chord_new (chord_code ch) (chord_mods ch) = ch"
proof -
  have "m \<inter> {CONTROL, ALT, SHIFT} = (m \<union> {SUPER, HYPER, META}) \<inter> {CONTROL, ALT, SHIFT}"
    "m \<inter> {CONTROL, ALT, SHIFT} = (m - {SUPER, HYPER, META}) \<inter> {CONTROL, ALT, SHIFT}" by auto
  then have "from_event \<lparr>code = k, modifiers = m \<union> {SUPER, HYPER, META}, kind = t\<rparr> =
      from_event \<lparr>code = k, modifiers = m - {SUPER, HYPER, META}, kind = t\<rparr>"
    by (simp add: from_event_def)
  moreover have "chord_ok (from_event ev) \<and> chord_ok ch \<and> chord_new (chord_code ch) (chord_mods ch) = ch"
    using parse_chord_ok[OF assms(5)] chord_new_id by (auto simp: from_event_def chord_new_ok)
  moreover have "from_event \<lparr>code = Char c, modifiers = m - {SHIFT}, kind = t\<rparr> =
      from_event \<lparr>code = Char c, modifiers = insert SHIFT m, kind = t\<rparr>"
    "from_event \<lparr>code = Char c, modifiers = insert SHIFT m, kind = t\<rparr> =
      from_event \<lparr>code = Char (c + 32), modifiers = insert SHIFT m, kind = t\<rparr>"
    "from_event \<lparr>code = Char d, modifiers = insert SHIFT m, kind = t\<rparr> =
      from_event \<lparr>code = Char d, modifiers = m - {SHIFT}, kind = t\<rparr>"
    using assms by (auto simp: from_event_def chord_new_def is_upper_def is_lower_def)
  ultimately show ?thesis by simp
qed

lemma chord_reports_agree_witness:
  "from_event \<lparr>code = Char 65, modifiers = {ALT} - {SHIFT}, kind = PressKind\<rparr> =
     from_event \<lparr>code = Char 65, modifiers = insert SHIFT {ALT}, kind = PressKind\<rparr>"
proof -
  have "parse_chord (ascii ''M-S-a'') = Inr \<lparr>chord_code = Char 97, chord_mods = {ALT, SHIFT}\<rparr>" by code_simp
  from chord_reports_agree[of 65 "{ALT}" 37, OF _ _ _ _ this] show ?thesis
    by (simp add: is_upper_def is_lower_def)
qed

section \<open>Tables\<close>

text \<open>What a table says: its bindings in order, when all of its entries are valid.\<close>

definition clear_key :: ustr where
  "clear_key = ascii ''clear''"

definition entry_binding :: "ustr \<times> toml \<Rightarrow> (KeyChord \<times> Action) option" where
  "entry_binding e =
     (case snd e of
        TString s \<Rightarrow>
          (case (parse_chord (fst e), parse_action s) of (Inr c, Inr a) \<Rightarrow> Some (c, a) | _ \<Rightarrow> None)
      | _ \<Rightarrow> None)"

definition table_bindings :: "(ustr \<times> toml) list \<Rightarrow> (KeyChord \<times> Action) list option" where
  "table_bindings raw = those (map entry_binding [e \<leftarrow> raw. fst e \<noteq> clear_key])"

definition clear_flag :: "(ustr \<times> toml) list \<Rightarrow> bool option" where
  "clear_flag raw = (case map_of raw clear_key of None \<Rightarrow> Some False | Some (TBool b) \<Rightarrow> Some b | _ \<Rightarrow> None)"

definition bind_all :: "KeymapTable \<Rightarrow> (KeyChord \<times> Action) list \<Rightarrow> Keymap \<Rightarrow> Keymap" where
  "bind_all t bs km = fold (\<lambda>(c, a). keymap_bind t c a) bs km"

lemma apply_entries_bindings:
  "case table_bindings raw of
     Some bs \<Rightarrow> \<exists>ws. apply_entries t raw km ws0 = (Inr ws, bind_all t bs km)
   | None \<Rightarrow> \<exists>e km'. apply_entries t raw km ws0 = (Inl e, km') \<and> le_table e = ascii (table_name t)"
proof (induction t raw km ws0 rule: apply_entries.induct)
  case (1 t km ws)
  then show ?case by (simp add: table_bindings_def bind_all_def)
next
  case (2 t key val es km ws)
  show ?case
  proof (cases "key = ascii ''clear''")
    case True
    then show ?thesis using 2(1) by (auto simp: table_bindings_def clear_key_def split: option.splits)
  next
    case False
    then have b: "table_bindings ((key, val) # es) = (case entry_binding (key, val) of None \<Rightarrow> None
        | Some p \<Rightarrow> map_option ((#) p) (table_bindings es))"
      by (simp add: table_bindings_def clear_key_def split: option.split)
    show ?thesis
    proof (cases "entry_binding (key, val)")
      case None
      then show ?thesis using False b
        by (auto simp: entry_binding_def split: toml.splits sum.splits)
    next
      case (Some p)
      then obtain s c a where p: "val = TString s" "parse_chord key = Inr c" "parse_action s = Inr a" "p = (c, a)"
        by (auto simp: entry_binding_def split: toml.splits sum.splits)
      show ?thesis using 2(2)[OF False p(1-3)] False b Some p
        by (auto simp: bind_all_def split: option.splits)
    qed
  qed
qed

lemma bind_all_lookup:
  "keymap_lookup t' c (bind_all t bs km) =
     (if t' = t then (case map_of (rev bs) c of Some a \<Rightarrow> Some a | None \<Rightarrow> keymap_lookup t c km)
      else keymap_lookup t' c km)"
  "km_cleared (bind_all t bs km) = km_cleared km"
proof -
  show "keymap_lookup t' c (bind_all t bs km) =
     (if t' = t then (case map_of (rev bs) c of Some a \<Rightarrow> Some a | None \<Rightarrow> keymap_lookup t c km)
      else keymap_lookup t' c km)"
    by (induction bs arbitrary: km)
      (auto simp: bind_all_def keymap_bind_def keymap_lookup_def map_add_def split: option.splits)
  show "km_cleared (bind_all t bs km) = km_cleared km"
    by (induction bs arbitrary: km) (auto simp: bind_all_def keymap_bind_def)
qed

lemma keymap_clear_simps:
  "keymap_lookup t' c (keymap_clear t km) = (if t' = t then None else keymap_lookup t' c km)"
  "km_cleared (keymap_clear t km) = insert t (km_cleared km)"
  by (simp_all add: keymap_clear_def keymap_lookup_def)

lemma apply_table_cases:
  "apply_table t raw km =
     (case clear_flag raw of
        None \<Rightarrow> (Inl \<lparr>le_table = ascii (table_name t), le_key = clear_key, le_message = ascii ''must be a boolean''\<rparr>, km)
      | Some b \<Rightarrow> apply_entries t raw (if b then keymap_clear t km else km) [])"
  by (auto simp: apply_table_def clear_flag_def clear_key_def split: option.splits toml.splits)

text \<open>C27. What loading a table does. It succeeds exactly when the clear flag is a boolean or absent and every
  other entry is a string with a valid key and a valid action; otherwise the error names the
  table. After a success a chord of that table has the action of its last entry, else, unless
  the table was cleared first, the action it had before; other tables are untouched; and the
  built-in keys stay available unless this or an earlier layer cleared the table.\<close>

theorem apply_table_outcome:
  "case (clear_flag raw, table_bindings raw) of
     (Some clear, Some bs) \<Rightarrow>
       (\<exists>ws km'. apply_table t raw km = (Inr ws, km') \<and>
          (\<forall>c. keymap_lookup t c km' =
             (case map_of (rev bs) c of Some a \<Rightarrow> Some a | None \<Rightarrow> if clear then None else keymap_lookup t c km)) \<and>
          (\<forall>c t'. keymap_lookup t' c km' = (if t' = t then keymap_lookup t c km' else keymap_lookup t' c km)) \<and>
          km_cleared km' = (if clear then insert t (km_cleared km) else km_cleared km))
   | _ \<Rightarrow> \<exists>e km'. apply_table t raw km = (Inl e, km') \<and> le_table e = ascii (table_name t)"
proof (cases "clear_flag raw")
  case None
  then show ?thesis by (simp add: apply_table_cases)
next
  case (Some b)
  let ?km = "if b then keymap_clear t km else km"
  show ?thesis
  proof (cases "table_bindings raw")
    case None
    then show ?thesis using Some apply_entries_bindings[where raw = raw and t = t and km = ?km and ?ws0.0 = "[]"] by (auto simp: apply_table_cases)
  next
    case (Some bs)
    then obtain ws where "apply_table t raw km = (Inr ws, bind_all t bs ?km)"
      using \<open>clear_flag raw = Some b\<close> apply_entries_bindings[where raw = raw and t = t and km = ?km and ?ws0.0 = "[]"] by (auto simp: apply_table_cases)
    then show ?thesis using Some \<open>clear_flag raw = Some b\<close>
      by (auto simp: bind_all_lookup keymap_clear_simps split: option.split)
  qed
qed

end
