(* ===== verification/EnvInterp.thy ===== *)
theory EnvInterp
  imports Utf8
begin

text \<open>
  Environment interpolation in project files: \<open>src/src/env_interp.rs\<close>. The layers of variables,
  the \<open>.env.local\<close> parser, the loading of the secrets file against any answers of the operating
  system, and the expansion of templates with the flag that tells whether an external value was
  read. The crate \<open>toml\<close> is a parameter.
\<close>

section \<open>Layers\<close>

datatype ExpandError = Required ustr ustr | UnknownSecret ustr | Syntax ustr

definition expand_error_text :: "ExpandError \<Rightarrow> ustr" where
  "expand_error_text e =
     (case e of
        Required var message \<Rightarrow> ascii ''required variable `'' @ var @ ascii ''` is unset: '' @ message
      | UnknownSecret key \<Rightarrow> ascii ''unknown secret `'' @ key @ ascii ''` referenced via ${secret:..}''
      | Syntax msg \<Rightarrow> ascii ''interpolation syntax error: '' @ msg)"

record EnvContext =
  per_pane :: "ustr \<Rightarrow> ustr option"
  dotenv :: "ustr \<Rightarrow> ustr option"
  secrets :: "ustr \<Rightarrow> ustr option"
  process :: "ustr \<Rightarrow> ustr option"
  sensitive_read :: bool

definition build_with_process ::
  "(ustr \<Rightarrow> ustr option) \<Rightarrow> (ustr \<Rightarrow> ustr option) \<Rightarrow> (ustr \<Rightarrow> ustr option) \<Rightarrow> EnvContext" where
  "build_with_process env_local sec proc_env =
     \<lparr>per_pane = (\<lambda>_. None), dotenv = env_local, secrets = sec, process = proc_env, sensitive_read = False\<rparr>"

definition with_pane :: "(ustr \<Rightarrow> ustr option) \<Rightarrow> EnvContext \<Rightarrow> EnvContext" where
  "with_pane overrides ctx = ctx\<lparr>per_pane := overrides, sensitive_read := False\<rparr>"

definition lookup_plain :: "ustr \<Rightarrow> EnvContext \<Rightarrow> ustr option \<times> EnvContext" where
  "lookup_plain name ctx =
     (case per_pane ctx name of
        Some v \<Rightarrow> (Some v, ctx)
      | None \<Rightarrow>
          (case dotenv ctx name of
             Some v \<Rightarrow> (Some v, ctx\<lparr>sensitive_read := True\<rparr>)
           | None \<Rightarrow>
               (case process ctx name of
                  Some v \<Rightarrow> (Some v, ctx\<lparr>sensitive_read := True\<rparr>)
                | None \<Rightarrow> (None, ctx))))"

definition lookup_secret :: "ustr \<Rightarrow> EnvContext \<Rightarrow> ustr option \<times> EnvContext" where
  "lookup_secret key ctx = (secrets ctx key, ctx\<lparr>sensitive_read := True\<rparr>)"

section \<open>The local environment file\<close>

text \<open>\<open>str::lines\<close>: a last empty line is dropped, and a carriage return before a line feed.\<close>

definition strip_cr :: "ustr \<Rightarrow> ustr" where
  "strip_cr l = (if l \<noteq> [] \<and> last l = 13 then butlast l else l)"

definition str_lines :: "ustr \<Rightarrow> ustr list" where
  "str_lines s =
     (let ls = split_on 10 s
      in map strip_cr (butlast ls) @ (if last ls = [] then [] else [last ls]))"

definition starts_with :: "ustr \<Rightarrow> ustr \<Rightarrow> bool" where
  "starts_with p s \<longleftrightarrow> take (length p) s = p"

definition split_once :: "nat \<Rightarrow> ustr \<Rightarrow> (ustr \<times> ustr) option" where
  "split_once c s =
     (case dropWhile (\<lambda>x. x \<noteq> c) s of [] \<Rightarrow> None | _ # r \<Rightarrow> Some (takeWhile (\<lambda>x. x \<noteq> c) s, r))"

definition unquote :: "ustr \<Rightarrow> ustr" where
  "unquote v =
     (if 2 \<le> length v \<and> (hd v = 34 \<and> last v = 34 \<or> hd v = 39 \<and> last v = 39)
      then butlast (tl v) else v)"

definition dotenv_line :: "ustr \<Rightarrow> (ustr \<times> ustr) option" where
  "dotenv_line raw =
     (let line = trim raw
      in if line = [] \<or> hd line = 35 then None
      else let line = (if starts_with (ascii ''export '') line then drop 7 line else line)
      in case split_once 61 line of
           None \<Rightarrow> None
         | Some (k, v) \<Rightarrow> if trim k = [] then None else Some (trim k, unquote (trim v)))"

definition parse_dotenv :: "ustr \<Rightarrow> ustr \<Rightarrow> ustr option" where
  "parse_dotenv contents =
     fold (\<lambda>raw out. case dotenv_line raw of None \<Rightarrow> out | Some (k, v) \<Rightarrow> out(k \<mapsto> v)) (str_lines contents) (\<lambda>_. None)"

section \<open>Secrets\<close>

datatype 'e SecretsLoadError = InsecurePermissions nat | SecretsIo "'e + ustr" | SecretsParse nat

record FileMeta =
  is_file :: bool
  file_uid :: nat
  file_mode :: nat

definition MAX_SECRETS_BYTES :: nat where "MAX_SECRETS_BYTES = 1024 * 1024"

text \<open>\<open>opened\<close>: the open call (\<open>Inl None\<close> for a missing file), \<open>meta\<close> and \<open>contents\<close> the calls on
  the descriptor, \<open>contents\<close> what the file holds. \<open>parse\<close> is the crate \<open>toml\<close>: the byte of the
  error or the entries, of which only strings carry a value.\<close>

definition load_secrets ::
  "('e option + unit) \<Rightarrow> ('e + FileMeta) \<Rightarrow> nat \<Rightarrow> ('e + ustr) \<Rightarrow> (ustr \<Rightarrow> nat + (ustr \<times> ustr option) list) \<Rightarrow>
     'e SecretsLoadError + (ustr \<Rightarrow> ustr option)" where
  "load_secrets opened meta euid contents parse =
     (case opened of
        Inl None \<Rightarrow> Inr (\<lambda>_. None)
      | Inl (Some e) \<Rightarrow> Inl (SecretsIo (Inl e))
      | Inr _ \<Rightarrow>
     (case meta of
        Inl e \<Rightarrow> Inl (SecretsIo (Inl e))
      | Inr m \<Rightarrow>
          if \<not> is_file m then Inl (SecretsIo (Inr (ascii ''secrets must be a regular file'')))
          else if file_uid m \<noteq> euid then
            Inl (SecretsIo (Inr (ascii ''secrets file must belong to the current user'')))
          else if file_mode m mod 512 \<noteq> 384 then Inl (InsecurePermissions (file_mode m mod 512))
          else
     (case contents of
        Inl e \<Rightarrow> Inl (SecretsIo (Inl e))
      | Inr s \<Rightarrow>
          if MAX_SECRETS_BYTES < str_len s then
            Inl (SecretsIo (Inr (ascii ''secrets file exceeds 1 MiB'')))
          else (case parse s of
                  Inl at_byte \<Rightarrow> Inl (SecretsParse at_byte)
                | Inr entries \<Rightarrow>
                    Inr (fold (\<lambda>(k, v) out. case v of Some x \<Rightarrow> out(k \<mapsto> x) | None \<Rightarrow> out) entries (\<lambda>_. None))))))"

section \<open>Expansion\<close>

definition ident_start :: "nat \<Rightarrow> bool" where
  "ident_start c \<longleftrightarrow> (65 \<le> c \<and> c \<le> 90) \<or> (97 \<le> c \<and> c \<le> 122) \<or> c = 95"

definition ident_char :: "nat \<Rightarrow> bool" where
  "ident_char c \<longleftrightarrow> ident_start c \<or> (48 \<le> c \<and> c \<le> 57)"

text \<open>\<open>scan_identifier_end\<close>: the identifier a string starts with, empty when there is none.\<close>

definition scan_identifier :: "ustr \<Rightarrow> ustr" where
  "scan_identifier s =
     (case s of [] \<Rightarrow> [] | c # cs \<Rightarrow> if ident_start c then c # takeWhile ident_char cs else [])"

definition validate_name :: "ustr \<Rightarrow> ExpandError + unit" where
  "validate_name name =
     (case name of
        [] \<Rightarrow> Inl (Syntax (ascii ''empty variable name in `${}`''))
      | c # cs \<Rightarrow>
          if ident_start c \<and> list_all ident_char cs then Inr ()
          else Inl (Syntax (ascii ''invalid variable name `'' @ name @ ascii ''`'')))"

text \<open>\<open>inner.find(':')\<close> when the text from there starts with the operator.\<close>

definition operator_split :: "nat \<Rightarrow> ustr \<Rightarrow> (ustr \<times> ustr) option" where
  "operator_split op inner =
     (case split_once 58 inner of
        Some (name, c # arg) \<Rightarrow> if c = op then Some (name, arg) else None
      | _ \<Rightarrow> None)"

definition value_or :: "(ustr \<Rightarrow> ExpandError + ustr) \<Rightarrow> ustr \<Rightarrow> ustr \<Rightarrow> EnvContext \<Rightarrow> (ExpandError + ustr) \<times> EnvContext" where
  "value_or otherwise name arg ctx =
     (case validate_name name of
        Inl e \<Rightarrow> (Inl e, ctx)
      | Inr _ \<Rightarrow>
          (case lookup_plain name ctx of
             (Some (c # cs), ctx) \<Rightarrow> (Inr (c # cs), ctx)
           | (_, ctx) \<Rightarrow> (otherwise arg, ctx)))"

definition expand_braced :: "ustr \<Rightarrow> EnvContext \<Rightarrow> (ExpandError + ustr) \<times> EnvContext" where
  "expand_braced inner ctx =
     (if starts_with (ascii ''secret:'') inner then
        (let key = trim (drop 7 inner)
         in if key = [] then (Inl (Syntax (ascii ''empty key in `${secret:..}`'')), ctx)
         else case lookup_secret key ctx of
                (Some v, ctx) \<Rightarrow> (Inr v, ctx)
              | (None, ctx) \<Rightarrow> (Inl (UnknownSecret key), ctx))
      else case operator_split 63 inner of
        Some (name, msg) \<Rightarrow> value_or (\<lambda>m. Inl (Required name m)) name msg ctx
      | None \<Rightarrow>
          (case operator_split 45 inner of
             Some (name, d) \<Rightarrow> value_or Inr name d ctx
           | None \<Rightarrow>
               (case validate_name inner of
                  Inl e \<Rightarrow> (Inl e, ctx)
                | Inr _ \<Rightarrow>
                    (case lookup_plain inner ctx of
                       (Some v, ctx) \<Rightarrow> (Inr v, ctx)
                     | (None, ctx) \<Rightarrow> (Inr [], ctx)))))"

text \<open>The loop: what is left of the template, the byte it starts at, and the output so far.\<close>

lemma split_once_length: "split_once c s = Some (a, b) \<Longrightarrow> length b < length s"
  using length_dropWhile_le[of "\<lambda>x. x \<noteq> c" s] by (auto simp: split_once_def split: list.splits)

lemma scan_identifier_prefix: "scan_identifier s @ drop (length (scan_identifier s)) s = s"
proof (cases s)
  case (Cons c cs)
  then show ?thesis
    by (simp add: scan_identifier_def) (metis append_eq_conv_conj takeWhile_dropWhile_id)
qed (simp add: scan_identifier_def)

function expand_loop :: "nat \<Rightarrow> ustr \<Rightarrow> ustr \<Rightarrow> EnvContext \<Rightarrow> (ExpandError + ustr) \<times> EnvContext" where
  "expand_loop i rest out ctx =
     (case rest of
        [] \<Rightarrow> (Inr out, ctx)
      | c # cs \<Rightarrow>
          if c = 36 \<and> cs \<noteq> [] \<and> hd cs = 36 then expand_loop (i + 2) (tl cs) (out @ [36]) ctx
          else if c = 36 \<and> cs \<noteq> [] \<and> hd cs = 123 then
            (case split_once 125 (tl cs) of
               None \<Rightarrow> (Inl (Syntax (ascii ''unterminated `${` starting at byte '' @ decimal (i + 1))), ctx)
             | Some (inner, after) \<Rightarrow>
                 (case expand_braced inner ctx of
                    (Inl e, ctx) \<Rightarrow> (Inl e, ctx)
                  | (Inr v, ctx) \<Rightarrow> expand_loop (i + 3 + str_len inner) after (out @ v) ctx))
          else if c = 36 then
            (let name = scan_identifier cs
             in if name \<noteq> [] then
                  (case lookup_plain name ctx of
                     (v, ctx) \<Rightarrow> expand_loop (i + 1 + length name) (drop (length name) cs)
                                (out @ (case v of Some v \<Rightarrow> v | None \<Rightarrow> [])) ctx)
                else expand_loop (i + 1) cs (out @ [36]) ctx)
          else expand_loop (i + len_utf8 c) cs (out @ [c]) ctx)"
  by pat_completeness auto
termination
  by (relation "measure (\<lambda>(i, rest, out, ctx). length rest)") (auto simp: less_Suc_eq_le dest!: split_once_length)

declare expand_loop.simps [simp del]

definition expand :: "ustr \<Rightarrow> EnvContext \<Rightarrow> (ExpandError + ustr) \<times> EnvContext" where
  "expand template ctx = expand_loop 0 template [] ctx"

definition expand_with_sensitivity :: "ustr \<Rightarrow> EnvContext \<Rightarrow> (ExpandError + ustr \<times> bool) \<times> EnvContext" where
  "expand_with_sensitivity template ctx =
     (case expand template (ctx\<lparr>sensitive_read := False\<rparr>) of
        (Inl e, ctx) \<Rightarrow> (Inl e, ctx)
      | (Inr v, ctx) \<Rightarrow> (Inr (v, sensitive_read ctx), ctx))"

end
