(* ===== verification/EnvInterpProps.thy ===== *)
theory EnvInterpProps
  imports EnvInterp
begin

text \<open>
  Properties of interpolation: a template written as literals and references expands to the values
  they denote, and an expansion that reports no external read does not depend on any external
  value.
\<close>

section \<open>What lookups do to the flag\<close>

definition visible :: "ustr \<Rightarrow> EnvContext \<Rightarrow> ustr option" where
  "visible n ctx =
     (case per_pane ctx n of Some v \<Rightarrow> Some v | None \<Rightarrow> (case dotenv ctx n of Some v \<Rightarrow> Some v | None \<Rightarrow> process ctx n))"

definition external :: "ustr \<Rightarrow> EnvContext \<Rightarrow> bool" where
  "external n ctx \<longleftrightarrow> per_pane ctx n = None \<and> (dotenv ctx n \<noteq> None \<or> process ctx n \<noteq> None)"

definition flagged :: "bool \<Rightarrow> EnvContext \<Rightarrow> EnvContext" where
  "flagged b ctx = (if b then ctx\<lparr>sensitive_read := True\<rparr> else ctx)"

lemma lookup_plain_eq: "lookup_plain n ctx = (visible n ctx, flagged (external n ctx) ctx)"
  by (simp add: lookup_plain_def visible_def external_def flagged_def split: option.split)

lemma flagged_simps [simp]:
  "per_pane (flagged b ctx) = per_pane ctx" "dotenv (flagged b ctx) = dotenv ctx"
  "secrets (flagged b ctx) = secrets ctx" "process (flagged b ctx) = process ctx"
  "sensitive_read (flagged b ctx) = (b \<or> sensitive_read ctx)" "flagged False ctx = ctx"
  by (simp_all add: flagged_def)

section \<open>Templates as segments\<close>

datatype Segment =
    Lit ustr | VarRef ustr | WithDefault ustr ustr | RequiredVar ustr ustr | SecretRef ustr

definition name_ok :: "ustr \<Rightarrow> bool" where
  "name_ok n \<longleftrightarrow> validate_name n = Inr ()"

fun segment_ok :: "Segment \<Rightarrow> bool" where
  "segment_ok (Lit t) = True"
| "segment_ok (VarRef n) = name_ok n"
| "segment_ok (WithDefault n d) = (name_ok n \<and> n \<noteq> ascii ''secret'' \<and> 125 \<notin> set d)"
| "segment_ok (RequiredVar n m) = (name_ok n \<and> n \<noteq> ascii ''secret'' \<and> 125 \<notin> set m)"
| "segment_ok (SecretRef k) = (k \<noteq> [] \<and> trim k = k \<and> 125 \<notin> set k)"

fun segment_text :: "Segment \<Rightarrow> ustr" where
  "segment_text (Lit t) = concat (map (\<lambda>c. if c = 36 then [36, 36] else [c]) t)"
| "segment_text (VarRef n) = [36, 123] @ n @ [125]"
| "segment_text (WithDefault n d) = [36, 123] @ n @ [58, 45] @ d @ [125]"
| "segment_text (RequiredVar n m) = [36, 123] @ n @ [58, 63] @ m @ [125]"
| "segment_text (SecretRef k) = [36, 123] @ ascii ''secret:'' @ k @ [125]"

fun segment_value :: "EnvContext \<Rightarrow> Segment \<Rightarrow> ExpandError + ustr" where
  "segment_value ctx (Lit t) = Inr t"
| "segment_value ctx (VarRef n) = Inr (case visible n ctx of Some v \<Rightarrow> v | None \<Rightarrow> [])"
| "segment_value ctx (WithDefault n d) =
     Inr (case visible n ctx of Some (c # cs) \<Rightarrow> c # cs | _ \<Rightarrow> d)"
| "segment_value ctx (RequiredVar n m) =
     (case visible n ctx of Some (c # cs) \<Rightarrow> Inr (c # cs) | _ \<Rightarrow> Inl (Required n m))"
| "segment_value ctx (SecretRef k) = (case secrets ctx k of Some v \<Rightarrow> Inr v | None \<Rightarrow> Inl (UnknownSecret k))"

fun segment_reads :: "EnvContext \<Rightarrow> Segment \<Rightarrow> bool" where
  "segment_reads ctx (Lit t) = False"
| "segment_reads ctx (VarRef n) = external n ctx"
| "segment_reads ctx (WithDefault n d) = external n ctx"
| "segment_reads ctx (RequiredVar n m) = external n ctx"
| "segment_reads ctx (SecretRef k) = True"

text \<open>The value of a template: its segments' values joined, or the first error.\<close>

fun template_value :: "EnvContext \<Rightarrow> Segment list \<Rightarrow> ExpandError + ustr" where
  "template_value ctx [] = Inr []"
| "template_value ctx (s # ss) =
     (case segment_value ctx s of
        Inl e \<Rightarrow> Inl e
      | Inr v \<Rightarrow> map_sum id ((@) v) (template_value ctx ss))"

section \<open>Braced references\<close>

lemma split_once_append: "c \<notin> set a \<Longrightarrow> split_once c (a @ c # b) = Some (a, b)"
proof -
  assume a: "c \<notin> set a"
  then have "dropWhile (\<lambda>x. x \<noteq> c) (a @ c # b) = c # b" "takeWhile (\<lambda>x. x \<noteq> c) (a @ c # b) = a"
    by (induction a) auto
  then show ?thesis by (simp add: split_once_def)
qed

lemma split_once_none: "c \<notin> set a \<Longrightarrow> split_once c a = None"
proof -
  assume "c \<notin> set a"
  then have "dropWhile (\<lambda>x. x \<noteq> c) a = []" by (induction a) auto
  then show ?thesis by (simp add: split_once_def del: dropWhile_eq_Nil_conv)
qed

lemma name_chars: "name_ok n \<Longrightarrow> n \<noteq> [] \<and> list_all ident_char n"
  by (auto simp: name_ok_def validate_name_def ident_char_def split: list.splits if_splits)

lemma name_no_special: "name_ok n \<Longrightarrow> 58 \<notin> set n \<and> 125 \<notin> set n"
  using name_chars[of n] by (auto simp: list_all_iff ident_char_def ident_start_def)

lemma starts_secret_take: "starts_with (ascii ''secret:'') s \<longleftrightarrow> take 7 s = ascii ''secret'' @ [58]"
proof -
  have "length (ascii ''secret:'') = 7" "ascii ''secret:'' = ascii ''secret'' @ [58]" by (simp_all add: ascii_def)
  then show ?thesis by (simp only: starts_with_def)
qed

lemma starts_secret: "58 \<notin> set n \<Longrightarrow> starts_with (ascii ''secret:'') (n @ 58 # r) \<longleftrightarrow> n = ascii ''secret''"
proof -
  assume n: "58 \<notin> set n"
  have "n = ascii ''secret''" if s: "take 7 (n @ 58 # r) = ascii ''secret'' @ [58]"
  proof -
    have "split_once 58 (n @ 58 # r) = split_once 58 ((ascii ''secret'' @ [58]) @ drop 7 (n @ 58 # r))"
      using s by (metis append_take_drop_id)
    then show ?thesis
      using split_once_append[OF n, of r] split_once_append[of 58 "ascii ''secret''" "drop 7 (n @ 58 # r)"]
      by (simp add: ascii_def)
  qed
  moreover have "take 7 (ascii ''secret'' @ 58 # r) = ascii ''secret'' @ [58]" by (simp add: ascii_def)
  ultimately show ?thesis unfolding starts_secret_take by blast
qed

lemma starts_secret_name: "58 \<notin> set n \<Longrightarrow> \<not> starts_with (ascii ''secret:'') n"
proof
  assume n: "58 \<notin> set n" "starts_with (ascii ''secret:'') n"
  then have "58 \<in> set (take 7 n)" unfolding starts_secret_take by simp
  then show False using n(1) by (auto dest: in_set_takeD)
qed

lemma expand_braced_plain:
  assumes "name_ok n"
  shows "expand_braced n ctx = (Inr (case visible n ctx of Some v \<Rightarrow> v | None \<Rightarrow> []), flagged (external n ctx) ctx)"
  using name_no_special[OF assms] assms
  by (simp add: expand_braced_def starts_secret_name operator_split_def split_once_none name_ok_def
      lookup_plain_eq split: option.split)

lemma expand_braced_default:
  assumes "name_ok n" "n \<noteq> ascii ''secret''"
  shows "expand_braced (n @ [58, 45] @ d) ctx =
    (Inr (case visible n ctx of Some (c # cs) \<Rightarrow> c # cs | _ \<Rightarrow> d), flagged (external n ctx) ctx)"
  using name_no_special[OF assms(1)] assms
  by (simp add: expand_braced_def starts_secret operator_split_def split_once_append name_ok_def value_or_def
      lookup_plain_eq split: option.split list.split)

lemma expand_braced_required:
  assumes "name_ok n" "n \<noteq> ascii ''secret''"
  shows "expand_braced (n @ [58, 63] @ m) ctx =
    (case visible n ctx of Some (c # cs) \<Rightarrow> Inr (c # cs) | _ \<Rightarrow> Inl (Required n m), flagged (external n ctx) ctx)"
  using name_no_special[OF assms(1)] assms
  by (simp add: expand_braced_def starts_secret operator_split_def split_once_append name_ok_def value_or_def
      lookup_plain_eq split: option.split list.split)

lemma expand_braced_secret:
  assumes "k \<noteq> []" "trim k = k"
  shows "expand_braced (ascii ''secret:'' @ k) ctx =
    (case secrets ctx k of Some v \<Rightarrow> Inr v | None \<Rightarrow> Inl (UnknownSecret k), flagged True ctx)"
  using assms by (simp add: expand_braced_def starts_with_def lookup_secret_def flagged_def ascii_def split: option.split)

section \<open>The loop over segments\<close>

lemmas expand_loop_Nil = expand_loop.simps[where rest = "[]", simplified]
lemmas expand_loop_Cons = expand_loop.simps[where rest = "c # cs" for c cs, simplified]

lemma expand_loop_brace:
  assumes "125 \<notin> set inner"
  shows "expand_loop i ([36, 123] @ inner @ [125] @ rest) out ctx =
    (case expand_braced inner ctx of
       (Inl e, ctx) \<Rightarrow> (Inl e, ctx)
     | (Inr v, ctx) \<Rightarrow> expand_loop (i + 3 + str_len inner) rest (out @ v) ctx)"
  using split_once_append[OF assms, of rest] by (subst expand_loop.simps) simp

lemma expand_loop_literal:
  "\<exists>j. expand_loop i (segment_text (Lit t) @ rest) out ctx = expand_loop j rest (out @ t) ctx"
proof (induction t arbitrary: i out)
  case (Cons c t)
  have "\<exists>j. expand_loop i (segment_text (Lit (c # t)) @ rest) out ctx =
      expand_loop j (segment_text (Lit t) @ rest) (out @ [c]) ctx"
    by (subst expand_loop.simps) auto
  then show ?case using Cons[of _ "out @ [c]"] by fastforce
qed auto

lemma expand_loop_segment:
  assumes "segment_ok s"
  shows "\<exists>j. expand_loop i (segment_text s @ rest) out ctx =
    (case segment_value ctx s of
       Inl e \<Rightarrow> (Inl e, flagged (segment_reads ctx s) ctx)
     | Inr v \<Rightarrow> expand_loop j rest (out @ v) (flagged (segment_reads ctx s) ctx))"
proof (cases s)
  case (Lit t)
  then show ?thesis using expand_loop_literal[of i t rest out ctx] by simp
next
  case (VarRef n)
  then show ?thesis using assms expand_loop_brace[of n i rest out ctx] name_no_special[of n]
    by (auto simp: expand_braced_plain)
next
  case (WithDefault n d)
  then show ?thesis using assms expand_loop_brace[of "n @ [58, 45] @ d" i rest out ctx] name_no_special[of n]
    by (auto simp: expand_braced_default[simplified])
next
  case (RequiredVar n m)
  then show ?thesis using assms expand_loop_brace[of "n @ [58, 63] @ m" i rest out ctx] name_no_special[of n]
    by (auto simp: expand_braced_required[simplified] split: option.split list.split)
next
  case (SecretRef k)
  then show ?thesis
    using assms expand_loop_brace[of "ascii ''secret:'' @ k" i rest out ctx] expand_braced_secret[of k ctx]
    by (auto simp: ascii_def split: option.split)
qed

lemma flagged_same:
  "visible n (flagged b ctx) = visible n ctx" "external n (flagged b ctx) = external n ctx"
  "segment_value (flagged b ctx) s = segment_value ctx s" "segment_reads (flagged b ctx) s = segment_reads ctx s"
proof -
  show v: "visible n (flagged b ctx) = visible n ctx" "external n (flagged b ctx) = external n ctx" for n
    by (simp_all add: visible_def external_def cong: option.case_cong)
  show "segment_value (flagged b ctx) s = segment_value ctx s" "segment_reads (flagged b ctx) s = segment_reads ctx s"
    by (cases s; simp add: v)+
qed

lemma template_value_flagged [simp]: "template_value (flagged b ctx) ss = template_value ctx ss"
  by (induction ss) (auto simp: flagged_same split: sum.split)

lemma expand_loop_segments:
  assumes "list_all segment_ok ss"
  shows "fst (expand_loop i (concat (map segment_text ss)) out ctx) = map_sum id ((@) out) (template_value ctx ss)"
  using assms
proof (induction ss arbitrary: i out ctx)
  case Nil
  then show ?case by (subst expand_loop.simps) simp
next
  case (Cons s ss)
  obtain j where "expand_loop i (segment_text s @ concat (map segment_text ss)) out ctx =
    (case segment_value ctx s of
       Inl e \<Rightarrow> (Inl e, flagged (segment_reads ctx s) ctx)
     | Inr v \<Rightarrow> expand_loop j (concat (map segment_text ss)) (out @ v) (flagged (segment_reads ctx s) ctx))"
    using expand_loop_segment[of s i _ out ctx] Cons.prems by fastforce
  then show ?case using Cons.IH[of j] Cons.prems
    by (cases "template_value ctx ss") (auto split: sum.split)
qed

section \<open>External values do not flow\<close>

text \<open>Two contexts a template cannot tell apart unless it reads an external value: the same
  overrides, and the same external variables set, with any values; any secrets.\<close>

definition same_shape :: "EnvContext \<Rightarrow> EnvContext \<Rightarrow> bool" where
  "same_shape ctx ctx' \<longleftrightarrow> per_pane ctx' = per_pane ctx \<and>
     (\<forall>n. external n ctx' = external n ctx)"

lemma external_sensitive: "external n (ctx\<lparr>sensitive_read := b\<rparr>) = external n ctx"
  by (simp add: external_def)

lemma same_shape_visible: "same_shape ctx ctx' \<Longrightarrow> \<not> external n ctx \<Longrightarrow> visible n ctx' = visible n ctx"
proof -
  assume s: "same_shape ctx ctx'" "\<not> external n ctx"
  then have "per_pane ctx' n = per_pane ctx n" "\<not> external n ctx'" by (simp_all add: same_shape_def)
  then show ?thesis using s(2) by (auto simp: visible_def external_def split: option.splits)
qed

lemma value_or_flow:
  assumes "value_or f n a ctx = (r, c)"
  shows "\<exists>b. c = flagged b ctx \<and> (\<not> b \<longrightarrow> same_shape ctx ctx' \<longrightarrow> value_or f n a ctx' = (r, ctx'))"
proof (cases "validate_name n")
  case (Inl e)
  then show ?thesis using assms by (auto simp: value_or_def intro!: exI[of _ False])
next
  case (Inr u)
  have "c = flagged (external n ctx) ctx"
    using assms Inr by (auto simp: value_or_def lookup_plain_eq split: option.splits list.splits)
  moreover have "value_or f n a ctx' = (r, ctx')" if "\<not> external n ctx" "same_shape ctx ctx'"
    using assms Inr that same_shape_visible[of ctx ctx' n] 
    by (auto simp: value_or_def lookup_plain_eq same_shape_def split: option.splits list.splits)
  ultimately show ?thesis by blast
qed

lemma expand_braced_flow:
  assumes "expand_braced inner ctx = (r, c)"
  shows "\<exists>b. c = flagged b ctx \<and> (\<not> b \<longrightarrow> same_shape ctx ctx' \<longrightarrow> expand_braced inner ctx' = (r, ctx'))"
proof (cases "starts_with (ascii ''secret:'') inner")
  case True
  show ?thesis
  proof (cases "trim (drop 7 inner) = []")
    case True
    then show ?thesis using assms \<open>starts_with _ _\<close>
      by (auto simp: expand_braced_def intro!: exI[of _ False])
  next
    case False
    then have "c = flagged True ctx" using assms True
      by (auto simp: expand_braced_def lookup_secret_def flagged_def Let_def split: option.splits)
    then show ?thesis by blast
  qed
next
  case plain: False
  show ?thesis
  proof (cases "\<exists>op. op \<in> {63, 45} \<and> operator_split op inner \<noteq> None")
    case True
    then obtain f n a where "expand_braced inner = value_or f n a"
    proof (cases "operator_split 63 inner")
      case None
      then obtain n a where "operator_split 45 inner = Some (n, a)" using True by auto
      then show ?thesis using that[of Inr n a] plain None by (simp add: expand_braced_def fun_eq_iff)
    next
      case (Some p)
      then show ?thesis using that[of "\<lambda>m. Inl (Required (fst p) m)" "fst p" "snd p"] plain
        by (simp add: expand_braced_def fun_eq_iff case_prod_beta)
    qed
    then show ?thesis using assms value_or_flow[of f n a ctx r c ctx'] by simp
  next
    case False
    then have o: "operator_split 63 inner = None" "operator_split 45 inner = None" by blast+
    show ?thesis
    proof (cases "validate_name inner")
      case (Inl e)
      then show ?thesis using assms plain o by (auto simp: expand_braced_def intro!: exI[of _ False])
    next
      case (Inr u)
      then have "c = flagged (external inner ctx) ctx" using assms plain o
        by (auto simp: expand_braced_def lookup_plain_eq split: option.splits)
      moreover have "expand_braced inner ctx' = (r, ctx')" if "\<not> external inner ctx" "same_shape ctx ctx'"
        using assms Inr plain o that same_shape_visible[of ctx ctx' inner]
        by (auto simp: expand_braced_def lookup_plain_eq same_shape_def split: option.splits)
      ultimately show ?thesis by blast
    qed
  qed
qed

lemma expand_loop_flow:
  assumes "same_shape ctx ctx'"
  shows "expand_loop i rest out ctx = (r, c) \<Longrightarrow> (sensitive_read ctx \<longrightarrow> sensitive_read c) \<and>
    (\<not> sensitive_read c \<longrightarrow> c = ctx \<and> expand_loop i rest out ctx' = (r, ctx'))"
  using assms
proof (induction i rest out ctx arbitrary: r c rule: expand_loop.induct)
  case (1 i rest out ctx)
  show ?case
  proof (cases rest)
    case Nil
    then show ?thesis using 1(6) by (auto simp: expand_loop_Nil)
  next
    case (Cons x cs)
    consider (dollars) "x = 36" "cs \<noteq> []" "hd cs = 36" | (brace) "x = 36" "cs \<noteq> []" "hd cs = 123"
      | (name) "x = 36" "\<not> (cs \<noteq> [] \<and> (hd cs = 36 \<or> hd cs = 123))" "scan_identifier cs \<noteq> []"
      | (lone) "x = 36" "\<not> (cs \<noteq> [] \<and> (hd cs = 36 \<or> hd cs = 123))" "scan_identifier cs = []"
      | (char) "x \<noteq> 36" by blast
    then show ?thesis
    proof cases
      case brace
      show ?thesis
      proof (cases "split_once 125 (tl cs)")
        case None
        then show ?thesis using 1(6) Cons brace by (auto simp: expand_loop_Cons)
      next
        case (Some p)
        obtain inner after where p: "p = (inner, after)" by (cases p)
        obtain q d where e: "expand_braced inner ctx = (q, d)" by (cases "expand_braced inner ctx")
        obtain b where b: "d = flagged b ctx" "\<not> b \<Longrightarrow> expand_braced inner ctx' = (q, ctx')"
          using expand_braced_flow[OF e, of ctx'] 1(7) by blast
        show ?thesis
        proof (cases q)
          case (Inl err)
          then show ?thesis using 1(6) Cons brace Some p e b
            by (cases b) (auto simp: expand_loop_Cons)
        next
          case (Inr v)
          have shape: "same_shape d ctx'" using 1(7) b(1)
            by (auto simp: same_shape_def external_def)
          have r: "expand_loop (i + 3 + str_len inner) after (out @ v) d = (r, c)"
            using 1(6) Cons brace Some p e Inr by (simp add: expand_loop_Cons)
          have IH: "(sensitive_read d \<longrightarrow> sensitive_read c) \<and>
            (\<not> sensitive_read c \<longrightarrow> c = d \<and> expand_loop (i + 3 + str_len inner) after (out @ v) ctx' = (r, ctx'))"
            using 1(2)[OF Cons _ _ Some p[symmetric] e[symmetric] Inr r shape] brace by auto
          then show ?thesis using b Cons brace Some p e Inr
            by (cases b) (auto simp: expand_loop_Cons)
        qed
      qed
    next
      case name
      define n where "n = scan_identifier cs"
      have cs: "cs \<noteq> []" "hd cs \<noteq> 36" "hd cs \<noteq> 123" using name by (auto simp: scan_identifier_def)
      have shape: "same_shape (flagged (external n ctx) ctx) ctx'"
        using 1(7) by (auto simp: same_shape_def external_def)
      have r: "expand_loop (i + 1 + length n) (drop (length n) cs)
          (out @ (case visible n ctx of Some v \<Rightarrow> v | None \<Rightarrow> [])) (flagged (external n ctx) ctx) = (r, c)"
        using 1(6) Cons name cs by (simp add: expand_loop_Cons n_def[symmetric] Let_def lookup_plain_eq)
      have IH: "(sensitive_read (flagged (external n ctx) ctx) \<longrightarrow> sensitive_read c) \<and>
         (\<not> sensitive_read c \<longrightarrow> c = flagged (external n ctx) ctx \<and>
            expand_loop (i + 1 + length n) (drop (length n) cs)
              (out @ (case visible n ctx of Some v \<Rightarrow> v | None \<Rightarrow> [])) ctx' = (r, ctx'))"
        using 1(3)[OF Cons _ _ _ n_def _ lookup_plain_eq[symmetric] r shape] name by (auto simp: n_def)
      have "external n ctx' = external n ctx" using 1(7) by (simp add: same_shape_def)
      then have "expand_loop i rest out ctx' = expand_loop (i + 1 + length n) (drop (length n) cs)
          (out @ (case visible n ctx of Some v \<Rightarrow> v | None \<Rightarrow> [])) ctx'" if "\<not> external n ctx"
        using Cons name cs that same_shape_visible[OF 1(7), of n]
        by (simp add: expand_loop_Cons n_def[symmetric] Let_def lookup_plain_eq)
      then show ?thesis using IH by (cases "external n ctx") auto
    next
      case dollars
      have step: "expand_loop i rest out d = expand_loop (i + 2) (tl cs) (out @ [36]) d" for d
        using Cons dollars by (simp add: expand_loop_Cons)
      have "expand_loop (i + 2) (tl cs) (out @ [36]) ctx = (r, c)" using 1(6) step by simp
      from 1(1)[OF Cons _ this 1(7)] dollars show ?thesis unfolding step by simp
    next
      case lone
      have step: "expand_loop i rest out d = expand_loop (i + 1) cs (out @ [36]) d" for d
        using Cons lone by (auto simp: expand_loop_Cons Let_def)
      have "expand_loop (i + 1) cs (out @ [36]) ctx = (r, c)" using 1(6) step by simp
      from 1(4)[OF Cons _ _ _ refl _ this 1(7)] lone show ?thesis unfolding step by auto
    next
      case char
      have step: "expand_loop i rest out d = expand_loop (i + len_utf8 x) cs (out @ [x]) d" for d
        using Cons char by (simp add: expand_loop_Cons)
      have "expand_loop (i + len_utf8 x) cs (out @ [x]) ctx = (r, c)" using 1(6) step by simp
      from 1(5)[OF Cons _ _ _ this 1(7)] char show ?thesis unfolding step by auto
    qed
  qed
qed

section \<open>Properties\<close>

text \<open>C29. Templates mean what they say. A template written as literal text with its dollar signs doubled
  and references \<open>${VAR}\<close>, \<open>${VAR:-default}\<close>, \<open>${VAR:?message}\<close>, \<open>${secret:KEY}\<close> expands to the
  literals and the values of the references in order, by the precedence of the layers (overrides,
  then the local file, then the process), with empty values counted as unset by the operators, and
  stops with the first reference's error.\<close>

theorem expand_segments:
  assumes "list_all segment_ok ss"
  shows "fst (expand (concat (map segment_text ss)) ctx) = template_value ctx ss"
proof -
  have "map_sum id ((@) []) r = r" for r :: "ExpandError + ustr" by (cases r) auto
  then show ?thesis using expand_loop_segments[OF assms, of 0 "[]" ctx] by (simp add: expand_def)
qed

definition demo_context :: EnvContext where
  "demo_context = with_pane [[65] \<mapsto> []] (build_with_process [[66] \<mapsto> [120]] [[75] \<mapsto> [115]] [[66] \<mapsto> [121]])"

lemma expand_segments_witness:
  "fst (expand (ascii ''$$${B}${A:-d}${secret:K}'') demo_context) = Inr (ascii ''$xds'')"
proof -
  let ?ss = "[Lit [36], VarRef [66], WithDefault [65] [100], SecretRef [75]]"
  have "list_all segment_ok ?ss" by code_simp
  from expand_segments[OF this, of demo_context] show ?thesis
    by (simp add: ascii_def demo_context_def with_pane_def build_with_process_def visible_def)
qed

text \<open>C30. An expansion that reports no sensitive read does not depend on external values. If expanding a template
  gives a value with the flag unset, then with any other secrets and any other values of the same
  variables in the local file and the process environment it gives the same value, again with the
  flag unset; so what is written to disk under the flag carries none of them.\<close>

theorem expand_insensitive:
  assumes "expand_with_sensitivity template ctx = (Inr (v, False), c)" "same_shape ctx ctx'"
  shows "\<exists>c'. expand_with_sensitivity template ctx' = (Inr (v, False), c')"
proof -
  obtain d where e: "expand template (ctx\<lparr>sensitive_read := False\<rparr>) = (Inr v, d)" "\<not> sensitive_read d"
    using assms(1) by (auto simp: expand_with_sensitivity_def split: prod.splits sum.splits)
  have "same_shape (ctx\<lparr>sensitive_read := False\<rparr>) (ctx'\<lparr>sensitive_read := False\<rparr>)"
    using assms(2) by (simp add: same_shape_def external_sensitive)
  from expand_loop_flow[OF this, of 0 template "[]" "Inr v" d] e
  show ?thesis by (auto simp: expand_def expand_with_sensitivity_def)
qed

lemma expand_insensitive_witness:
  "\<exists>c'. expand_with_sensitivity (ascii ''a$$${A:-d}$ZZ'')
     (demo_context\<lparr>secrets := Map.empty, process := [[66] \<mapsto> [33]]\<rparr>) = (Inr (ascii ''a$d'', False), c')"
proof -
  obtain c where "expand_with_sensitivity (ascii ''a$$${A:-d}$ZZ'') demo_context = (Inr (ascii ''a$d'', False), c)"
    by (cases "expand_with_sensitivity (ascii ''a$$${A:-d}$ZZ'') demo_context")
      (simp add: ascii_def expand_with_sensitivity_def expand_def expand_loop.simps split_once_def expand_braced_def
        starts_with_def operator_split_def validate_name_def value_or_def lookup_plain_eq visible_def external_def
        flagged_def demo_context_def with_pane_def build_with_process_def scan_identifier_def ident_start_def ident_char_def)
  moreover have "same_shape demo_context (demo_context\<lparr>secrets := Map.empty, process := [[66] \<mapsto> [33]]\<rparr>)"
    by (simp add: same_shape_def external_def demo_context_def with_pane_def build_with_process_def)
  ultimately show ?thesis by (rule expand_insensitive)
qed

end
