(* ===== verification/TermState.thy ===== *)
theory TermState
  imports Utf8
begin

text \<open>
  The per-pane terminal state of \<open>src/src/terminal_state.rs\<close>: DECSET modes, the Kitty keyboard
  stacks, the OSC 52 policy and its cached decision, the theme palette. The pane output
  interceptor (theory Intercept) updates it while it reads the child's output.
  An \<open>Instant\<close> is a natural number.
\<close>

section \<open>Mouse mode\<close>

datatype MouseProtocol = Off | Press | X10 | Btn | Any

datatype MouseEncoding = X10Encoding | Utf8 | Urxvt | Sgr

record MouseMode =
  protocol :: MouseProtocol
  encoding :: MouseEncoding

section \<open>The Kitty keyboard stack\<close>

text \<open>The flags are a \<open>u8\<close>; the vector is in the order of the code, its last element the active
  entry.\<close>

type_synonym KittyKbdFlags = byte
type_synonym KittyKbdStack = "KittyKbdFlags list"

definition DISAMBIGUATE :: byte where "DISAMBIGUATE = 1"
definition REPORT_EVENTS :: byte where "REPORT_EVENTS = 2"
definition REPORT_ALL_AS_ESCAPES :: byte where "REPORT_ALL_AS_ESCAPES = 8"
definition KITTY_ALL :: byte where "KITTY_ALL = 31"

definition flag_bits :: "KittyKbdFlags \<Rightarrow> byte" where
  "flag_bits f = f AND KITTY_ALL"

definition kitty_active :: "KittyKbdStack \<Rightarrow> KittyKbdFlags" where
  "kitty_active st = (if st = [] then 0 else List.last st)"

definition MAX_DEPTH :: nat where "MAX_DEPTH = 32"

definition kitty_push :: "KittyKbdFlags \<Rightarrow> KittyKbdStack \<Rightarrow> KittyKbdStack" where
  "kitty_push f st = (if MAX_DEPTH \<le> length st then drop 1 st else st) @ [f]"

fun kitty_pop_loop :: "nat \<Rightarrow> KittyKbdStack \<Rightarrow> KittyKbdStack" where
  "kitty_pop_loop 0 st = st"
| "kitty_pop_loop (Suc n) st = (if st = [] then st else kitty_pop_loop n (butlast st))"

definition kitty_pop :: "nat \<Rightarrow> KittyKbdStack \<Rightarrow> KittyKbdStack" where
  "kitty_pop n st = kitty_pop_loop (max n 1) st"

definition kitty_modify_top :: "KittyKbdFlags \<Rightarrow> nat \<Rightarrow> KittyKbdStack \<Rightarrow> KittyKbdStack" where
  "kitty_modify_top flags mode st =
     (if mode < 1 \<or> 3 < mode then st
      else let st = (if st = [] then [0] else st);
               f = List.last st
           in butlast st @
              [if mode = 1 then flags else if mode = 2 then f OR flags else f AND NOT flags])"

section \<open>Clipboard policy\<close>

datatype Osc52SetPolicy = SetAllow | SetConfirm | SetDeny

datatype Osc52GetPolicy = GetAllow | GetDeny

record ClipboardPolicy =
  set_policy :: Osc52SetPolicy
  get_policy :: Osc52GetPolicy
  max_bytes :: nat

definition default_policy :: ClipboardPolicy where
  "default_policy = \<lparr>set_policy = SetConfirm, get_policy = GetDeny, max_bytes = 1024 * 1024\<rparr>"

datatype Osc52Decision = Pending | Allowed | Denied

section \<open>Colours\<close>

record Rgb =
  red :: byte
  green :: byte
  blue :: byte

text \<open>Lower-case hexadecimal with two digits, \<open>format!("{:02x}", b)\<close>.\<close>

definition hex_digit :: "nat \<Rightarrow> nat" where
  "hex_digit n = (if n < 10 then 48 + n else 87 + n)"

definition hex2 :: "byte \<Rightarrow> ustr" where
  "hex2 b = [hex_digit (unat b div 16), hex_digit (unat b mod 16)]"

definition to_xterm_rgb_str :: "Rgb \<Rightarrow> ustr" where
  "to_xterm_rgb_str c =
     ascii ''rgb:'' @ hex2 (red c) @ hex2 (red c) @ ascii ''/'' @ hex2 (green c) @ hex2 (green c) @
     ascii ''/'' @ hex2 (blue c) @ hex2 (blue c)"

text \<open>The palette array has 256 entries.\<close>

record ThemePalette =
  fg :: "Rgb option"
  bg :: "Rgb option"
  cursor :: "Rgb option"
  palette :: "Rgb option list"

definition default_palette :: ThemePalette where
  "default_palette = \<lparr>fg = None, bg = None, cursor = None, palette = replicate 256 None\<rparr>"

definition palette_active :: "ThemePalette \<Rightarrow> bool" where
  "palette_active p \<longleftrightarrow> fg p \<noteq> None \<or> bg p \<noteq> None \<or> cursor p \<noteq> None \<or> list_ex (\<lambda>c. c \<noteq> None) (palette p)"

section \<open>The pane state\<close>

record PaneTerminalState =
  title :: ustr
  bracketed_paste :: bool
  focus_reporting :: bool
  mouse_mode :: MouseMode
  kitty_kbd :: KittyKbdStack
  inactive_kitty_kbd :: KittyKbdStack
  alternate_screen :: bool
  sync_opened_at :: "nat option"
  reported_cwd :: "(ustr \<times> nat) option"
  osc52_decision :: Osc52Decision
  osc52_pending_confirm :: "byte list list"

definition default_state :: PaneTerminalState where
  "default_state =
     \<lparr>title = [], bracketed_paste = False, focus_reporting = False,
      mouse_mode = \<lparr>protocol = Off, encoding = X10Encoding\<rparr>, kitty_kbd = [], inactive_kitty_kbd = [],
      alternate_screen = False, sync_opened_at = None, reported_cwd = None,
      osc52_decision = Pending, osc52_pending_confirm = []\<rparr>"

definition set_alternate_screen :: "bool \<Rightarrow> PaneTerminalState \<Rightarrow> PaneTerminalState" where
  "set_alternate_screen alt s =
     (if alternate_screen s \<noteq> alt
      then s\<lparr>kitty_kbd := inactive_kitty_kbd s, inactive_kitty_kbd := kitty_kbd s, alternate_screen := alt\<rparr>
      else s)"

definition reset_terminal_modes :: "PaneTerminalState \<Rightarrow> PaneTerminalState" where
  "reset_terminal_modes s =
     default_state\<lparr>osc52_decision := osc52_decision s,
       osc52_pending_confirm := osc52_pending_confirm s, title := title s\<rparr>"

definition reset_state :: "PaneTerminalState \<Rightarrow> PaneTerminalState" where
  "reset_state s = default_state"

section \<open>Facts\<close>

text \<open>Popping more entries than there are empties the stack.\<close>

lemma kitty_pop_take: "kitty_pop n st = take (length st - max n 1) st"
proof -
  have "kitty_pop_loop m st = take (length st - m) st" for m
    by (induction m st rule: kitty_pop_loop.induct) (auto simp: butlast_conv_take min_def)
  then show ?thesis by (simp add: kitty_pop_def)
qed

lemma kitty_push_depth: "length st \<le> MAX_DEPTH \<Longrightarrow> length (kitty_push f st) \<le> MAX_DEPTH"
  by (auto simp: kitty_push_def MAX_DEPTH_def)

lemma kitty_pop_depth: "length st \<le> MAX_DEPTH \<Longrightarrow> length (kitty_pop n st) \<le> MAX_DEPTH"
  by (simp add: kitty_pop_take)

lemma kitty_modify_depth: "length st \<le> MAX_DEPTH \<Longrightarrow> length (kitty_modify_top f m st) \<le> MAX_DEPTH"
  by (auto simp: kitty_modify_top_def MAX_DEPTH_def Let_def)

text \<open>The bounded stack forgets its oldest entry: what a program pushed last is what it pops.\<close>

lemma kitty_pop_push: "kitty_pop 1 (kitty_push f st) = (if MAX_DEPTH \<le> length st then drop 1 st else st)"
  by (auto simp: kitty_pop_take kitty_push_def)

lemma kitty_active_push [simp]: "kitty_active (kitty_push f st) = f"
  by (simp add: kitty_active_def kitty_push_def)

end
