(* ===== verification/Intercept.thy ===== *)
theory Intercept
  imports TermState
begin

text \<open>
  The pane output interceptor of \<open>src/src/pane.rs\<close>: the byte machine that runs over everything a
  child prints before the terminal emulator sees it. It tracks DECSET modes, answers Kitty
  keyboard and colour queries, gates OSC 52 clipboard access and passes on only bounded display
  sequences.

  Bytes written back to the child are collected in \<open>writer\<close>. \<open>clock n\<close> is the answer of
  \<open>Instant::now\<close> at the \<open>n\<close>-th place where the run could read the time; \<open>hostname\<close> is what
  \<open>gethostname\<close> puts in the buffer before the first zero byte, if it succeeds.
\<close>

section \<open>State\<close>

datatype ControlMode = Ground | Escape | EscapeIntermediate | Csi | Osc | String | StringEscape

record ControlParser =
  mode :: ControlMode
  buffer :: "byte list"
  overflow :: bool

record InterceptEnv =
  policy :: ClipboardPolicy
  theme :: ThemePalette
  clock :: "nat \<Rightarrow> nat"
  hostname :: "byte list option"

record InterceptCtx =
  state :: PaneTerminalState
  osc52_pending :: "byte list list"
  parser :: ControlParser
  writer :: "byte list"
  ticks :: nat

text \<open>The interceptor's part of a freshly spawned pane.\<close>

definition new_pane_ctx :: InterceptCtx where
  "new_pane_ctx =
     \<lparr>state = default_state, osc52_pending = [], parser = \<lparr>mode = Ground, buffer = [], overflow = False\<rparr>,
      writer = [], ticks = 0\<rparr>"

definition OSC_PAYLOAD_MAX :: nat where "OSC_PAYLOAD_MAX = 1024 * 1024"
definition OSC_QUEUE_MAX :: nat where "OSC_QUEUE_MAX = 8"
definition OSC_QUEUE_BYTES_MAX :: nat where "OSC_QUEUE_BYTES_MAX = 2 * 1024 * 1024"

text \<open>A byte string literal, \<open>b"..."\<close>.\<close>

definition bytes :: "string \<Rightarrow> byte list" where
  "bytes s = map of_char s"

definition strip_prefix :: "'a list \<Rightarrow> 'a list \<Rightarrow> 'a list option" where
  "strip_prefix p s = (if take (length p) s = p then Some (drop (length p) s) else None)"

definition is_digit :: "byte \<Rightarrow> bool" where
  "is_digit b \<longleftrightarrow> 48 \<le> unat b \<and> unat b \<le> 57"

definition is_alnum :: "byte \<Rightarrow> bool" where
  "is_alnum b \<longleftrightarrow> is_digit b \<or> (65 \<le> unat b \<and> unat b \<le> 90) \<or> (97 \<le> unat b \<and> unat b \<le> 122)"

text \<open>\<open>char::is_control\<close>: the general category Cc.\<close>

definition is_control :: "nat \<Rightarrow> bool" where
  "is_control c \<longleftrightarrow> c < 32 \<or> (127 \<le> c \<and> c < 160)"

text \<open>\<open>splitn(2, |b| b == c)\<close>: the part before the first separator, and the rest if there is one.\<close>

definition splitn2 :: "'a \<Rightarrow> 'a list \<Rightarrow> 'a list \<times> 'a list option" where
  "splitn2 c s = (takeWhile (\<lambda>x. x \<noteq> c) s,
     case dropWhile (\<lambda>x. x \<noteq> c) s of [] \<Rightarrow> None | _ # rest \<Rightarrow> Some rest)"

section \<open>Numbers\<close>

definition parse_u32 :: "byte list \<Rightarrow> nat option" where
  "parse_u32 s = (if s = [] then None else parse_digits (2 ^ 32) 0 (map unat s))"

definition parse_default :: "byte list \<Rightarrow> nat \<Rightarrow> nat option" where
  "parse_default s d = (if s = [] then Some d else parse_u32 s)"

definition hex_val :: "byte \<Rightarrow> byte option" where
  "hex_val b =
     (if 48 \<le> unat b \<and> unat b \<le> 57 then Some (b - 48)
      else if 97 \<le> unat b \<and> unat b \<le> 102 then Some (b - 97 + 10)
      else if 65 \<le> unat b \<and> unat b \<le> 70 then Some (b - 65 + 10)
      else None)"

section \<open>DECSET tracking\<close>

definition set_protocol :: "MouseProtocol \<Rightarrow> bool \<Rightarrow> PaneTerminalState \<Rightarrow> PaneTerminalState" where
  "set_protocol p on s =
     (if on then s\<lparr>mouse_mode := (mouse_mode s)\<lparr>protocol := p\<rparr>\<rparr>
      else if protocol (mouse_mode s) = p then s\<lparr>mouse_mode := (mouse_mode s)\<lparr>protocol := Off\<rparr>\<rparr>
      else s)"

definition set_encoding :: "MouseEncoding \<Rightarrow> bool \<Rightarrow> PaneTerminalState \<Rightarrow> PaneTerminalState" where
  "set_encoding e on s =
     (if on then s\<lparr>mouse_mode := (mouse_mode s)\<lparr>encoding := e\<rparr>\<rparr>
      else if encoding (mouse_mode s) = e then s\<lparr>mouse_mode := (mouse_mode s)\<lparr>encoding := X10Encoding\<rparr>\<rparr>
      else s)"

text \<open>\<open>now\<close>: the time, read only where a synchronized update opens.\<close>

definition apply_decset :: "nat \<Rightarrow> nat \<Rightarrow> bool \<Rightarrow> PaneTerminalState \<Rightarrow> PaneTerminalState" where
  "apply_decset now num on s =
     (if num = 47 \<or> num = 1047 \<or> num = 1049 then set_alternate_screen on s
      else if num = 2026 then
        (if on then s\<lparr>sync_opened_at := (case sync_opened_at s of Some t \<Rightarrow> Some t | None \<Rightarrow> Some now)\<rparr>
         else s\<lparr>sync_opened_at := None\<rparr>)
      else if num = 9 then set_protocol Press on s
      else if num = 2004 then s\<lparr>bracketed_paste := on\<rparr>
      else if num = 1004 then s\<lparr>focus_reporting := on\<rparr>
      else if num = 1000 then set_protocol X10 on s
      else if num = 1002 then set_protocol Btn on s
      else if num = 1003 then set_protocol Any on s
      else if num = 1005 then set_encoding Utf8 on s
      else if num = 1006 then set_encoding Sgr on s
      else if num = 1015 then set_encoding Urxvt on s
      else s)"

fun dec_mode_loop ::
  "(nat \<Rightarrow> nat) \<Rightarrow> byte \<Rightarrow> byte list list \<Rightarrow> nat \<times> PaneTerminalState \<Rightarrow> (nat \<times> PaneTerminalState) \<times> byte list" where
  "dec_mode_loop clk final [] (n, s) = ((n, s), [])"
| "dec_mode_loop clk final (param # params) (n, s) =
     (let m = parse_u32 param;
          clear = (if m = Some 1047 \<and> final = 108 \<and> alternate_screen s then [27] @ bytes ''[2J'' else []);
          s = (case m of Some k \<Rightarrow> apply_decset (clk n) k (final = 104) s | None \<Rightarrow> s);
          put = [27] @ bytes ''[?'' @ (if m = Some 1047 then bytes ''47'' else param) @ [final];
          (r, out) = dec_mode_loop clk final params (n + 1, s)
      in (r, clear @ put @ out))"

text \<open>The answer is \<open>None\<close> where the code returns false: the sequence is not a DEC mode change.\<close>

definition intercept_dec_modes ::
  "(nat \<Rightarrow> nat) \<Rightarrow> byte list \<Rightarrow> byte \<Rightarrow> nat \<times> PaneTerminalState \<Rightarrow> ((nat \<times> PaneTerminalState) \<times> byte list) option" where
  "intercept_dec_modes clk body final ns =
     (case strip_prefix (bytes ''?'') body of
        None \<Rightarrow> None
      | Some params \<Rightarrow>
          if (final \<noteq> 104 \<and> final \<noteq> 108) \<or> \<not> list_all (\<lambda>b. is_digit b \<or> b = 59) params then None
          else Some (dec_mode_loop clk final (split_on 59 params) ns))"

section \<open>The Kitty keyboard protocol\<close>

definition KITTY_SUPPORTED :: byte where
  "KITTY_SUPPORTED = DISAMBIGUATE OR REPORT_EVENTS OR REPORT_ALL_AS_ESCAPES"

definition reply :: "byte list \<Rightarrow> InterceptCtx \<Rightarrow> InterceptCtx" where
  "reply bs ctx = ctx\<lparr>writer := writer ctx @ bs\<rparr>"

definition map_kitty :: "(KittyKbdStack \<Rightarrow> KittyKbdStack) \<Rightarrow> InterceptCtx \<Rightarrow> InterceptCtx" where
  "map_kitty f ctx = ctx\<lparr>state := (state ctx)\<lparr>kitty_kbd := f (kitty_kbd (state ctx))\<rparr>\<rparr>"

definition handle_csi_u :: "byte list \<Rightarrow> InterceptCtx \<Rightarrow> InterceptCtx" where
  "handle_csi_u body ctx =
     (case body of
        [] \<Rightarrow> ctx
      | sigil # rest \<Rightarrow>
          if sigil = 62 then
            (case parse_default rest 0 of
               None \<Rightarrow> ctx
             | Some flags \<Rightarrow> map_kitty (kitty_push (of_nat flags AND KITTY_SUPPORTED)) ctx)
          else if sigil = 60 then
            (case parse_default rest 1 of None \<Rightarrow> ctx | Some n \<Rightarrow> map_kitty (kitty_pop n) ctx)
          else if sigil = 61 then
            (let parts = split_on 59 rest
             in case parse_default (parts ! 0) 0 of
                  None \<Rightarrow> ctx
                | Some flags \<Rightarrow>
                    (case parse_default (if 1 < length parts then parts ! 1 else []) 1 of
                       None \<Rightarrow> ctx
                     | Some md \<Rightarrow>
                         if 256 \<le> md \<or> 2 < length parts then ctx
                         else map_kitty (kitty_modify_top (of_nat flags AND KITTY_SUPPORTED) md) ctx))
          else if sigil = 63 \<and> rest = [] then
            reply ([27] @ bytes ''[?'' @
                   map of_nat (decimal (unat (flag_bits (kitty_active (kitty_kbd (state ctx)))))) @ bytes ''u'') ctx
          else ctx)"

section \<open>OSC 52\<close>

definition enqueue_osc :: "byte list \<Rightarrow> byte list list \<Rightarrow> byte list list" where
  "enqueue_osc envelope queue =
     (let n = foldl (\<lambda>acc item. min usize_max (acc + length item)) 0 queue
      in if length queue < OSC_QUEUE_MAX \<and> length envelope \<le> OSC_QUEUE_BYTES_MAX - n
         then queue @ [envelope] else queue)"

definition envelope :: "byte list \<Rightarrow> byte list" where
  "envelope payload = [27, 93] @ payload @ [7]"

definition effective_policy :: "ClipboardPolicy \<Rightarrow> Osc52Decision \<Rightarrow> Osc52SetPolicy" where
  "effective_policy p d =
     (if set_policy p = SetDeny \<or> d = Denied then SetDeny
      else if d = Allowed then SetAllow
      else set_policy p)"

definition handle_osc52 :: "ClipboardPolicy \<Rightarrow> byte list \<Rightarrow> byte list \<Rightarrow> InterceptCtx \<Rightarrow> InterceptCtx" where
  "handle_osc52 p full rest ctx =
     (case splitn2 59 rest of
        (_, None) \<Rightarrow> ctx
      | (selection, Some data) \<Rightarrow>
          if \<not> list_all (\<lambda>b. b \<in> set (bytes ''cpqs01234567'')) selection then ctx
          else if data = bytes ''?'' then
            (case get_policy p of
               GetAllow \<Rightarrow> ctx\<lparr>osc52_pending := enqueue_osc (envelope full) (osc52_pending ctx)\<rparr>
             | GetDeny \<Rightarrow> ctx)
          else if min (max_bytes p) OSC_PAYLOAD_MAX < length data then ctx
          else if \<not> list_all (\<lambda>b. is_alnum b \<or> b \<in> set (bytes ''+/='')) data then ctx
          else
            (case effective_policy p (osc52_decision (state ctx)) of
               SetAllow \<Rightarrow> ctx\<lparr>osc52_pending := enqueue_osc (envelope full) (osc52_pending ctx)\<rparr>
             | SetDeny \<Rightarrow> ctx
             | SetConfirm \<Rightarrow>
                 ctx\<lparr>state := (state ctx)\<lparr>osc52_pending_confirm :=
                   enqueue_osc (envelope full) (osc52_pending_confirm (state ctx))\<rparr>\<rparr>))"

section \<open>OSC 7\<close>

fun percent_bytes :: "byte list \<Rightarrow> byte list" where
  "percent_bytes [] = []"
| "percent_bytes (b # bs) =
     (case bs of
        h # l # rest \<Rightarrow>
          (if b = 37 then
             (case (hex_val h, hex_val l) of
                (Some x, Some y) \<Rightarrow> (x * 16 + y) # percent_bytes rest
              | _ \<Rightarrow> b # percent_bytes bs)
           else b # percent_bytes bs)
      | _ \<Rightarrow> b # percent_bytes bs)"

definition percent_decode :: "ustr \<Rightarrow> ustr" where
  "percent_decode s = decode_lossy (percent_bytes (concat (map encode_utf8 s)))"

definition eq_ignore_ascii_case :: "ustr \<Rightarrow> ustr \<Rightarrow> bool" where
  "eq_ignore_ascii_case a b \<longleftrightarrow>
     map (\<lambda>c. if 65 \<le> c \<and> c \<le> 90 then c + 32 else c) a = map (\<lambda>c. if 65 \<le> c \<and> c \<le> 90 then c + 32 else c) b"

definition local_osc7_host :: "byte list option \<Rightarrow> ustr \<Rightarrow> bool" where
  "local_osc7_host name host \<longleftrightarrow>
     host = [] \<or> eq_ignore_ascii_case host (ascii ''localhost'') \<or>
     (case name of
        None \<Rightarrow> False
      | Some bs \<Rightarrow> (case decode_utf8 bs of Some local \<Rightarrow> eq_ignore_ascii_case host local | None \<Rightarrow> False))"

definition handle_osc7 :: "InterceptEnv \<Rightarrow> byte list \<Rightarrow> InterceptCtx \<Rightarrow> InterceptCtx" where
  "handle_osc7 env rest ctx =
     (case decode_utf8 rest of
        None \<Rightarrow> ctx
      | Some s \<Rightarrow>
          (case strip_prefix (ascii ''file://'') s of
             None \<Rightarrow> ctx
           | Some after_scheme \<Rightarrow>
               if 47 \<notin> set after_scheme then ctx
               else if \<not> local_osc7_host (hostname env) (takeWhile (\<lambda>c. c \<noteq> 47) after_scheme) then ctx
               else
                 (let decoded = percent_decode (dropWhile (\<lambda>c. c \<noteq> 47) after_scheme)
                  in if take 1 decoded \<noteq> [47] \<or> list_ex is_control decoded then ctx
                     else ctx\<lparr>state := (state ctx)\<lparr>reported_cwd := Some (decoded, clock env (ticks ctx))\<rparr>,
                              ticks := ticks ctx + 1\<rparr>)))"

section \<open>Colour queries\<close>

datatype ColorSlot = Fg | Bg | Cursor

definition handle_osc_color :: "ThemePalette \<Rightarrow> ColorSlot \<Rightarrow> byte list \<Rightarrow> InterceptCtx \<Rightarrow> InterceptCtx" where
  "handle_osc_color pal slot rest ctx =
     (if rest \<noteq> bytes ''?'' then ctx
      else if \<not> palette_active pal then ctx
      else
        (case (case slot of Fg \<Rightarrow> fg pal | Bg \<Rightarrow> bg pal | Cursor \<Rightarrow> cursor pal) of
           None \<Rightarrow> ctx
         | Some rgb \<Rightarrow>
             let osc_num = (case slot of Fg \<Rightarrow> 10 | Bg \<Rightarrow> 11 | Cursor \<Rightarrow> 12)
             in reply ([27, 93] @ map of_nat (decimal osc_num) @ bytes '';'' @
                       map of_nat (to_xterm_rgb_str rgb) @ [7]) ctx))"

definition handle_osc4 :: "ThemePalette \<Rightarrow> byte list \<Rightarrow> InterceptCtx \<Rightarrow> InterceptCtx" where
  "handle_osc4 pal rest ctx =
     (let (idx_bytes, spec) = splitn2 59 rest
      in if spec \<noteq> Some (bytes ''?'') then ctx
         else if \<not> palette_active pal then ctx
         else
           (case parse_u32 idx_bytes of
              None \<Rightarrow> ctx
            | Some idx \<Rightarrow>
                if \<not> idx < 256 then ctx
                else
                  (case palette pal ! idx of
                     None \<Rightarrow> ctx
                   | Some rgb \<Rightarrow>
                       reply ([27, 93] @ bytes ''4;'' @ map of_nat (decimal idx) @ bytes '';'' @
                              map of_nat (to_xterm_rgb_str rgb) @ [7]) ctx)))"

section \<open>OSC dispatch\<close>

definition osc_title :: "byte list \<Rightarrow> InterceptCtx \<Rightarrow> InterceptCtx" where
  "osc_title t ctx =
     (if length t \<le> 8192 then
        (case decode_utf8 t of
           Some s \<Rightarrow> ctx\<lparr>state := (state ctx)\<lparr>title := filter (\<lambda>c. \<not> is_control c) s\<rparr>\<rparr>
         | None \<Rightarrow> ctx)
      else ctx)"

definition handle_osc :: "InterceptEnv \<Rightarrow> byte list \<Rightarrow> InterceptCtx \<Rightarrow> InterceptCtx" where
  "handle_osc env payload ctx =
     (case (case strip_prefix (bytes ''0;'') payload of
              Some t \<Rightarrow> Some t | None \<Rightarrow> strip_prefix (bytes ''2;'') payload) of
        Some t \<Rightarrow> osc_title t ctx
      | None \<Rightarrow>
     (case strip_prefix (bytes ''52;'') payload of
        Some rest \<Rightarrow> handle_osc52 (policy env) payload rest ctx
      | None \<Rightarrow>
     (case strip_prefix (bytes ''7;'') payload of
        Some rest \<Rightarrow> handle_osc7 env rest ctx
      | None \<Rightarrow>
     (case strip_prefix (bytes ''10;'') payload of
        Some rest \<Rightarrow> handle_osc_color (theme env) Fg rest ctx
      | None \<Rightarrow>
     (case strip_prefix (bytes ''11;'') payload of
        Some rest \<Rightarrow> handle_osc_color (theme env) Bg rest ctx
      | None \<Rightarrow>
     (case strip_prefix (bytes ''12;'') payload of
        Some rest \<Rightarrow> handle_osc_color (theme env) Cursor rest ctx
      | None \<Rightarrow>
     (case strip_prefix (bytes ''4;'') payload of
        Some rest \<Rightarrow> handle_osc4 (theme env) rest ctx
      | None \<Rightarrow> ctx)))))))"

text \<open>The titles that the emulator draws are passed on.\<close>

definition forwarded_osc :: "byte list \<Rightarrow> byte list" where
  "forwarded_osc payload =
     (if length payload \<le> 8192 \<and>
         list_ex (\<lambda>p. strip_prefix p payload \<noteq> None) [bytes ''0;'', bytes ''1;'', bytes ''2;'']
      then [27, 93] @ payload @ [7] else [])"

section \<open>The byte machine\<close>

definition enter :: "ControlMode \<Rightarrow> InterceptCtx \<Rightarrow> InterceptCtx" where
  "enter m ctx = ctx\<lparr>parser := (parser ctx)\<lparr>mode := m\<rparr>\<rparr>"

text \<open>Leaving a sequence clears the buffer and the overflow flag.\<close>

definition finish :: "ControlMode \<Rightarrow> InterceptCtx \<Rightarrow> InterceptCtx" where
  "finish m ctx = ctx\<lparr>parser := \<lparr>mode = m, buffer = [], overflow = False\<rparr>\<rparr>"

definition escape_byte :: "byte \<Rightarrow> InterceptCtx \<Rightarrow> InterceptCtx \<times> byte list" where
  "escape_byte b ctx =
     (let n = unat b
      in if n = 91 then (finish Csi ctx, [])
         else if n = 93 then (finish Osc ctx, [])
         else if n = 80 \<or> n = 88 \<or> n = 94 \<or> n = 95 then (finish String ctx, [])
         else if n = 27 then (finish Escape ctx, [])
         else if 32 \<le> n \<and> n \<le> 47 then (finish EscapeIntermediate ctx, [27, b])
         else if n \<le> 31 then (finish Escape ctx, [b])
         else if 48 \<le> n \<and> n \<le> 126 then
           (finish Ground (if n = 99 then ctx\<lparr>state := reset_terminal_modes (state ctx)\<rparr> else ctx), [27, b])
         else (finish Escape ctx, []))"

definition csi_final :: "InterceptEnv \<Rightarrow> byte \<Rightarrow> InterceptCtx \<Rightarrow> InterceptCtx \<times> byte list" where
  "csi_final env b ctx =
     (let body = buffer (parser ctx)
      in if overflow (parser ctx) then (finish Ground ctx, [])
         else
           (let ctx = (if b = 117 then handle_csi_u body ctx else ctx)
            in case intercept_dec_modes (clock env) body b (ticks ctx, state ctx) of
                 Some ((n, s), out) \<Rightarrow> (finish Ground (ctx\<lparr>state := s, ticks := n\<rparr>), out)
               | None \<Rightarrow> (finish Ground ctx, [27, 91] @ body @ [b])))"

definition csi_byte :: "InterceptEnv \<Rightarrow> byte \<Rightarrow> InterceptCtx \<Rightarrow> InterceptCtx \<times> byte list" where
  "csi_byte env b ctx =
     (let n = unat b; p = parser ctx
      in if n = 27 then (ctx\<lparr>parser := p\<lparr>buffer := [], mode := Escape\<rparr>\<rparr>, [])
         else if 64 \<le> n \<and> n \<le> 126 then csi_final env b ctx
         else if n \<le> 31 then (ctx, [b])
         else if n = 127 then (ctx, [])
         else if 32 \<le> n \<and> n \<le> 63 \<and> \<not> overflow p \<and> length (buffer p) < 256 then
           (ctx\<lparr>parser := p\<lparr>buffer := buffer p @ [b]\<rparr>\<rparr>, [])
         else (ctx\<lparr>parser := p\<lparr>overflow := True\<rparr>\<rparr>, []))"

definition osc_end :: "InterceptEnv \<Rightarrow> ControlMode \<Rightarrow> InterceptCtx \<Rightarrow> InterceptCtx \<times> byte list" where
  "osc_end env m ctx =
     (if overflow (parser ctx) then (finish m ctx, [])
      else let payload = buffer (parser ctx)
           in (finish m (handle_osc env payload ctx), forwarded_osc payload))"

definition osc_byte :: "InterceptEnv \<Rightarrow> byte \<Rightarrow> InterceptCtx \<Rightarrow> InterceptCtx \<times> byte list" where
  "osc_byte env b ctx =
     (let n = unat b; p = parser ctx
      in if n = 7 then osc_end env Ground ctx
         else if n = 27 then osc_end env Escape ctx
         else if n \<le> 31 then (ctx, [])
         else if \<not> overflow p \<and> length (buffer p) < OSC_PAYLOAD_MAX then
           (ctx\<lparr>parser := p\<lparr>buffer := buffer p @ [b]\<rparr>\<rparr>, [])
         else (ctx\<lparr>parser := p\<lparr>overflow := True, buffer := []\<rparr>\<rparr>, []))"

definition intercept_byte :: "InterceptEnv \<Rightarrow> byte \<Rightarrow> InterceptCtx \<Rightarrow> InterceptCtx \<times> byte list" where
  "intercept_byte env b ctx =
     (let n = unat b
      in if (n = 24 \<or> n = 26) \<and> mode (parser ctx) \<noteq> Ground then (finish Ground ctx, [b])
         else
           (case mode (parser ctx) of
              Ground \<Rightarrow> if n = 27 then (enter Escape ctx, []) else (ctx, [b])
            | Escape \<Rightarrow> escape_byte b ctx
            | EscapeIntermediate \<Rightarrow>
                if n = 27 then (enter Escape ctx, [24])
                else (if 48 \<le> n \<and> n \<le> 126 then enter Ground ctx else ctx, [b])
            | Csi \<Rightarrow> csi_byte env b ctx
            | Osc \<Rightarrow> osc_byte env b ctx
            | String \<Rightarrow>
                (if n = 27 then enter StringEscape ctx else if n = 156 then enter Ground ctx else ctx, [])
            | StringEscape \<Rightarrow> (enter (if n = 92 then Ground else String) ctx, [])))"

fun intercept_chunk :: "InterceptEnv \<Rightarrow> byte list \<Rightarrow> InterceptCtx \<Rightarrow> InterceptCtx \<times> byte list" where
  "intercept_chunk env [] ctx = (ctx, [])"
| "intercept_chunk env (b # bs) ctx =
     (let (ctx, out) = intercept_byte env b ctx; (ctx, rest) = intercept_chunk env bs ctx
      in (ctx, out @ rest))"

end
