(* ===== verification/InterceptProps.thy ===== *)
theory InterceptProps
  imports Intercept
begin

text \<open>
  What the interceptor guarantees for every output of a child: its own memory stays bounded, the
  emulator never sees an unbounded string, clipboard access follows the policy, and ordinary
  display sequences pass unchanged however the output is split into reads.
\<close>

section \<open>Frame facts\<close>

lemma keeps_reply [keeps]: "parser (reply bs ctx) = parser ctx" "state (reply bs ctx) = state ctx"
    "osc52_pending (reply bs ctx) = osc52_pending ctx"
  by (simp_all add: reply_def)

lemma keeps_kitty [keeps]: "parser (map_kitty f ctx) = parser ctx" "osc52_pending (map_kitty f ctx) = osc52_pending ctx"
  by (simp_all add: map_kitty_def)

text \<open>A Kitty sequence is one stack operation or one answer.\<close>

definition kitty_result :: "InterceptCtx \<Rightarrow> InterceptCtx \<Rightarrow> bool" where
  "kitty_result ctx c \<longleftrightarrow>
     (\<exists>f. c = map_kitty f ctx \<and> (\<forall>st. length st \<le> MAX_DEPTH \<longrightarrow> length (f st) \<le> MAX_DEPTH)) \<or>
     (\<exists>bs. c = reply bs ctx) \<or> c = ctx"

lemma kitty_resultI:
  "kitty_result ctx ctx" "kitty_result ctx (reply bs ctx)"
  "kitty_result ctx (map_kitty (kitty_push f) ctx)" "kitty_result ctx (map_kitty (kitty_pop n) ctx)"
  "kitty_result ctx (map_kitty (kitty_modify_top f n) ctx)"
  using kitty_push_depth kitty_pop_depth kitty_modify_depth by (auto simp: kitty_result_def)

lemma handle_csi_u_cases: "kitty_result ctx (handle_csi_u body ctx)"
  unfolding handle_csi_u_def Let_def
  by (simp add: kitty_resultI split: list.split option.split)

lemma keeps_osc52 [keeps]: "parser (handle_osc52 p full rest ctx) = parser ctx"
  unfolding handle_osc52_def
  by (simp split: prod.split option.split Osc52GetPolicy.split Osc52SetPolicy.split)

lemma keeps_osc7 [keeps]: "parser (handle_osc7 env rest ctx) = parser ctx"
    "osc52_pending (handle_osc7 env rest ctx) = osc52_pending ctx"
    "kitty_kbd (state (handle_osc7 env rest ctx)) = kitty_kbd (state ctx)"
    "inactive_kitty_kbd (state (handle_osc7 env rest ctx)) = inactive_kitty_kbd (state ctx)"
    "title (state (handle_osc7 env rest ctx)) = title (state ctx)"
    "osc52_decision (state (handle_osc7 env rest ctx)) = osc52_decision (state ctx)"
    "osc52_pending_confirm (state (handle_osc7 env rest ctx)) = osc52_pending_confirm (state ctx)"
  unfolding handle_osc7_def Let_def by (simp_all split: option.split)

lemma osc_color_cases: "(\<exists>bs. handle_osc_color pal slot rest ctx = reply bs ctx) \<or> handle_osc_color pal slot rest ctx = ctx"
  unfolding handle_osc_color_def Let_def by (auto split: option.split)

lemma osc4_cases: "(\<exists>bs. handle_osc4 pal rest ctx = reply bs ctx) \<or> handle_osc4 pal rest ctx = ctx"
  unfolding handle_osc4_def Let_def by (auto split: option.split prod.split)

lemma keeps_title [keeps]: "parser (osc_title t ctx) = parser ctx" "osc52_pending (osc_title t ctx) = osc52_pending ctx"
    "kitty_kbd (state (osc_title t ctx)) = kitty_kbd (state ctx)"
    "inactive_kitty_kbd (state (osc_title t ctx)) = inactive_kitty_kbd (state ctx)"
    "osc52_decision (state (osc_title t ctx)) = osc52_decision (state ctx)"
    "osc52_pending_confirm (state (osc_title t ctx)) = osc52_pending_confirm (state ctx)"
  unfolding osc_title_def by (simp_all split: option.split)

text \<open>What an OSC sequence can do.\<close>

lemma handle_osc_cases:
  obtains (title) t where "handle_osc env payload ctx = osc_title t ctx"
  | (clipboard) rest where "payload = bytes ''52;'' @ rest" "handle_osc env payload ctx = handle_osc52 (policy env) payload rest ctx"
  | (cwd) rest where "handle_osc env payload ctx = handle_osc7 env rest ctx"
  | (answer) bs where "handle_osc env payload ctx = reply bs ctx"
  | (ignored) "handle_osc env payload ctx = ctx"
proof -
  have strip: "payload = p @ rest" if "strip_prefix p payload = Some rest" for p rest
    using that by (metis append_take_drop_id option.distinct(1) option.inject strip_prefix_def)
  have "(\<exists>t. handle_osc env payload ctx = osc_title t ctx) \<or>
    (\<exists>rest. payload = bytes ''52;'' @ rest \<and> handle_osc env payload ctx = handle_osc52 (policy env) payload rest ctx) \<or>
    (\<exists>rest. handle_osc env payload ctx = handle_osc7 env rest ctx) \<or>
    (\<exists>bs. handle_osc env payload ctx = reply bs ctx) \<or> handle_osc env payload ctx = ctx"
    unfolding handle_osc_def
    by (cases "strip_prefix (bytes ''0;'') payload"; cases "strip_prefix (bytes ''2;'') payload";
        cases "strip_prefix (bytes ''52;'') payload"; cases "strip_prefix (bytes ''7;'') payload";
        cases "strip_prefix (bytes ''10;'') payload"; cases "strip_prefix (bytes ''11;'') payload";
        cases "strip_prefix (bytes ''12;'') payload"; cases "strip_prefix (bytes ''4;'') payload")
       (use osc_color_cases osc4_cases in \<open>auto dest: strip\<close>)
  then show thesis using that by blast
qed

lemma keeps_osc [keeps]: "parser (handle_osc env payload ctx) = parser ctx"
  by (rule handle_osc_cases[of env payload ctx]) (simp_all add: keeps)

lemma keeps_csi_u [keeps]: "parser (handle_csi_u body ctx) = parser ctx"
    "osc52_pending (handle_csi_u body ctx) = osc52_pending ctx"
    "osc52_decision (state (handle_csi_u body ctx)) = osc52_decision (state ctx)"
    "osc52_pending_confirm (state (handle_csi_u body ctx)) = osc52_pending_confirm (state ctx)"
    "title (state (handle_csi_u body ctx)) = title (state ctx)"
    "inactive_kitty_kbd (state (handle_csi_u body ctx)) = inactive_kitty_kbd (state ctx)"
  using handle_csi_u_cases[of ctx body] by (auto simp: kitty_result_def keeps) (simp_all add: map_kitty_def)

lemma keeps_mode [keeps]: "title (apply_decset now k on s) = title s"
    "osc52_decision (apply_decset now k on s) = osc52_decision s"
    "osc52_pending_confirm (apply_decset now k on s) = osc52_pending_confirm s"
    "{kitty_kbd (apply_decset now k on s), inactive_kitty_kbd (apply_decset now k on s)} = {kitty_kbd s, inactive_kitty_kbd s}"
  by (auto simp: apply_decset_def set_alternate_screen_def set_protocol_def set_encoding_def)

lemma keeps_dec_loop [keeps]:
  assumes "dec_mode_loop clk b ps (n, s) = ((n', s'), out)"
  shows "title s' = title s" "osc52_decision s' = osc52_decision s" "osc52_pending_confirm s' = osc52_pending_confirm s"
    "{kitty_kbd s', inactive_kitty_kbd s'} = {kitty_kbd s, inactive_kitty_kbd s}"
  using assms
  by (induction ps arbitrary: n s out) (auto simp: keeps Let_def split: prod.splits option.splits)

section \<open>Bounded memory\<close>

definition queue_ok :: "byte list list \<Rightarrow> bool" where
  "queue_ok q \<longleftrightarrow> length q \<le> OSC_QUEUE_MAX \<and> sum_list (map length q) \<le> OSC_QUEUE_BYTES_MAX"

definition state_ok :: "PaneTerminalState \<Rightarrow> bool" where
  "state_ok s \<longleftrightarrow> length (kitty_kbd s) \<le> MAX_DEPTH \<and> length (inactive_kitty_kbd s) \<le> MAX_DEPTH \<and>
     length (title s) \<le> 8192 \<and> queue_ok (osc52_pending_confirm s)"

definition parser_ok :: "ControlParser \<Rightarrow> bool" where
  "parser_ok p \<longleftrightarrow>
     (mode p = Csi \<longrightarrow> length (buffer p) \<le> 256 \<and> list_all (\<lambda>b. 32 \<le> unat b \<and> unat b \<le> 63) (buffer p)) \<and>
     (mode p = Osc \<longrightarrow> length (buffer p) \<le> OSC_PAYLOAD_MAX \<and> list_all (\<lambda>b. 32 \<le> unat b) (buffer p)) \<and>
     (mode p \<noteq> Csi \<and> mode p \<noteq> Osc \<longrightarrow> buffer p = [])"

definition ctx_ok :: "InterceptCtx \<Rightarrow> bool" where
  "ctx_ok ctx \<longleftrightarrow> state_ok (state ctx) \<and> queue_ok (osc52_pending ctx) \<and> parser_ok (parser ctx)"

lemma saturating_sum:
  "a \<le> m \<Longrightarrow> foldl (\<lambda>acc item. min m (acc + length item)) a q = min m (a + sum_list (map length q))"
proof (induction q arbitrary: a)
  case (Cons x q)
  then show ?case using Cons.IH[of "min m (a + length x)"] by (auto simp: min_def)
qed simp

lemma enqueue_ok: "queue_ok q \<Longrightarrow> queue_ok (enqueue_osc e q)"
  by (auto simp: queue_ok_def enqueue_osc_def saturating_sum OSC_QUEUE_BYTES_MAX_def)

lemma enqueue_cases: "enqueue_osc e q = q \<or> enqueue_osc e q = q @ [e]"
  by (simp add: enqueue_osc_def Let_def)

lemma decode_length: "decode_utf8 bs = Some cs \<Longrightarrow> length cs \<le> length bs"
proof (induction bs arbitrary: cs rule: measure_induct_rule[of length])
  case (less bs)
  have ih: "decode_utf8 ys = Some zs \<Longrightarrow> length ys < length bs \<Longrightarrow> length zs \<le> length ys" for ys zs
    using less.IH by blast
  show ?case
  proof (cases bs)
    case (Cons b rest)
    then show ?thesis using less.prems
      by (auto simp: Let_def split: if_splits list.splits dest!: ih)
  qed (use less.prems in simp)
qed

lemma title_ok: "length (title (state ctx)) \<le> 8192 \<Longrightarrow> length (title (state (osc_title t ctx))) \<le> 8192"
  using decode_length[of t] length_filter_le[of "\<lambda>c. \<not> is_control c"]
  by (auto simp: osc_title_def split: option.split intro: le_trans[OF length_filter_le])

lemma osc52_ok:
  assumes "state_ok (state ctx)" "queue_ok (osc52_pending ctx)"
  shows "state_ok (state (handle_osc52 p full rest ctx)) \<and> queue_ok (osc52_pending (handle_osc52 p full rest ctx))"
  using assms unfolding handle_osc52_def
  by (auto simp: state_ok_def enqueue_ok split: prod.split option.split Osc52GetPolicy.split Osc52SetPolicy.split)

lemma osc_ok:
  assumes "state_ok (state ctx)" "queue_ok (osc52_pending ctx)"
  shows "state_ok (state (handle_osc env payload ctx)) \<and> queue_ok (osc52_pending (handle_osc env payload ctx))"
  by (rule handle_osc_cases[of env payload ctx])
     (use assms osc52_ok[OF assms] title_ok[of ctx] in \<open>auto simp: keeps state_ok_def\<close>)

lemma csi_u_ok: "state_ok (state ctx) \<Longrightarrow> state_ok (state (handle_csi_u body ctx))"
  using handle_csi_u_cases[of ctx body] by (auto simp: kitty_result_def keeps) (auto simp: map_kitty_def state_ok_def)

lemma dec_modes_ok:
  assumes "intercept_dec_modes clk body b (n, s) = Some ((n', s'), out)" "state_ok s"
  shows "state_ok s'"
proof -
  obtain ps where "dec_mode_loop clk b ps (n, s) = ((n', s'), out)"
    using assms(1) by (auto simp: intercept_dec_modes_def split: option.splits if_splits)
  from keeps_dec_loop[OF this] assms(2) show ?thesis by (auto simp: state_ok_def doubleton_eq_iff)
qed

lemma dec_modes_keeps:
  assumes "intercept_dec_modes clk body b (n, s) = Some ((n', s'), out)"
  shows "osc52_decision s' = osc52_decision s" "osc52_pending_confirm s' = osc52_pending_confirm s"
proof -
  obtain ps where "dec_mode_loop clk b ps (n, s) = ((n', s'), out)"
    using assms(1) by (auto simp: intercept_dec_modes_def split: option.splits if_splits)
  from keeps_dec_loop[OF this] show "osc52_decision s' = osc52_decision s"
    "osc52_pending_confirm s' = osc52_pending_confirm s" by simp_all
qed

lemma reset_ok: "state_ok s \<Longrightarrow> state_ok (reset_terminal_modes s)"
  by (simp add: state_ok_def reset_terminal_modes_def default_state_def)

lemma finish_parser [simp]: "parser (finish m ctx) = \<lparr>mode = m, buffer = [], overflow = False\<rparr>"
  "state (finish m ctx) = state ctx" "osc52_pending (finish m ctx) = osc52_pending ctx"
  by (simp_all add: finish_def)

lemma enter_parser [simp]: "parser (enter m ctx) = (parser ctx)\<lparr>mode := m\<rparr>"
  "state (enter m ctx) = state ctx" "osc52_pending (enter m ctx) = osc52_pending ctx"
  by (simp_all add: enter_def)

lemma finish_ok: "ctx_ok (finish m ctx) \<longleftrightarrow> state_ok (state ctx) \<and> queue_ok (osc52_pending ctx)"
  by (simp add: ctx_ok_def parser_ok_def)

lemma escape_ok: "ctx_ok ctx \<Longrightarrow> ctx_ok (fst (escape_byte b ctx))"
  by (simp add: escape_byte_def Let_def finish_ok) (simp add: ctx_ok_def reset_ok)

lemma csi_final_ok: "ctx_ok ctx \<Longrightarrow> ctx_ok (fst (csi_final env b ctx))"
  unfolding csi_final_def Let_def ctx_ok_def[of ctx]
  by (auto simp: finish_ok keeps csi_u_ok split: option.split dest: dec_modes_ok)

lemma csi_byte_ok: "ctx_ok ctx \<Longrightarrow> mode (parser ctx) = Csi \<Longrightarrow> ctx_ok (fst (csi_byte env b ctx))"
  unfolding csi_byte_def Let_def by (auto simp: csi_final_ok) (auto simp: ctx_ok_def parser_ok_def)

lemma osc_byte_ok: "ctx_ok ctx \<Longrightarrow> mode (parser ctx) = Osc \<Longrightarrow> ctx_ok (fst (osc_byte env b ctx))"
  unfolding osc_byte_def osc_end_def Let_def
  using osc_ok[of ctx env "buffer (parser ctx)"]
  by (auto simp: finish_ok) (auto simp: ctx_ok_def parser_ok_def)

lemma byte_ok: "ctx_ok ctx \<Longrightarrow> ctx_ok (fst (intercept_byte env b ctx))"
  unfolding intercept_byte_def Let_def
  by (auto simp: finish_ok escape_ok csi_byte_ok osc_byte_ok split: ControlMode.split)
     (auto simp: ctx_ok_def parser_ok_def)


section \<open>What the emulator sees\<close>

text \<open>
  The promise to the emulator, as a scanner of the escape grammar over the filtered output: it
  fails where a device control or application string would begin and where the parameters of a
  control sequence or the payload of an operating system command exceed their limits.
\<close>

datatype host_state = HGround | HEscape | HIntermediate | HCsi nat | HOsc nat

fun host_byte :: "byte \<Rightarrow> host_state \<Rightarrow> host_state option" where
  "host_byte b HGround = Some (if unat b = 27 then HEscape else HGround)"
| "host_byte b HEscape =
     (let n = unat b
      in if n = 24 \<or> n = 26 then Some HGround
         else if n = 91 then Some (HCsi 0)
         else if n = 93 then Some (HOsc 0)
         else if n = 80 \<or> n = 88 \<or> n = 94 \<or> n = 95 then None
         else if 32 \<le> n \<and> n \<le> 47 then Some HIntermediate
         else if 48 \<le> n \<and> n \<le> 126 then Some HGround
         else Some HEscape)"
| "host_byte b HIntermediate =
     (let n = unat b
      in if n = 24 \<or> n = 26 then Some HGround
         else if n = 27 then Some HEscape
         else if 48 \<le> n \<and> n \<le> 126 then Some HGround
         else Some HIntermediate)"
| "host_byte b (HCsi k) =
     (let n = unat b
      in if n = 24 \<or> n = 26 then Some HGround
         else if n = 27 then Some HEscape
         else if 64 \<le> n \<and> n \<le> 126 then Some HGround
         else if k < 256 then Some (HCsi (k + 1)) else None)"
| "host_byte b (HOsc k) =
     (let n = unat b
      in if n = 7 \<or> n = 24 \<or> n = 26 then Some HGround
         else if n = 27 then Some HEscape
         else if k < 8192 then Some (HOsc (k + 1)) else None)"

definition host_scan :: "byte list \<Rightarrow> host_state \<Rightarrow> host_state option" where
  "host_scan = fold_opt host_byte"

lemma host_scan_simps [simp]:
  "host_scan [] h = Some h"
  "host_scan (b # bs) h = Option.bind (host_byte b h) (host_scan bs)"
  by (simp_all add: host_scan_def)

lemma host_scan_append: "host_scan (xs @ ys) h = Option.bind (host_scan xs h) (host_scan ys)"
  by (induction xs arbitrary: h) (auto split: Option.bind_split)

lemma neutral_append:
  "host_scan xs HGround = Some HGround \<Longrightarrow> host_scan ys HGround = Some HGround \<Longrightarrow>
    host_scan (xs @ ys) HGround = Some HGround"
  by (simp add: host_scan_append)

definition host_of :: "ControlMode \<Rightarrow> host_state" where
  "host_of m = (if m = EscapeIntermediate then HIntermediate else HGround)"

lemma scan_params:
  "list_all (\<lambda>b. 32 \<le> unat b \<and> unat b \<le> 63) bs \<Longrightarrow> k + length bs \<le> 256 \<Longrightarrow>
    host_scan bs (HCsi k) = Some (HCsi (k + length bs))"
  by (induction bs arbitrary: k) auto

lemma scan_payload:
  "list_all (\<lambda>b. 32 \<le> unat b) bs \<Longrightarrow> k + length bs \<le> 8192 \<Longrightarrow>
    host_scan bs (HOsc k) = Some (HOsc (k + length bs))"
  by (induction bs arbitrary: k) auto

lemma scan_csi:
  assumes "list_all (\<lambda>b. 32 \<le> unat b \<and> unat b \<le> 63) bs" "length bs \<le> 256" "64 \<le> unat b" "unat b \<le> 126"
  shows "host_scan ([27, 91] @ bs @ [b]) HGround = Some HGround"
  using assms scan_params[of bs 0] by (simp add: host_scan_append)

lemma scan_osc:
  assumes "list_all (\<lambda>b. 32 \<le> unat b) bs" "length bs \<le> 8192"
  shows "host_scan ([27, 93] @ bs @ [7]) HGround = Some HGround"
  using assms scan_payload[of bs 0] by (simp add: host_scan_append)

lemma split_parts:
  "p \<in> set (split_on c s) \<Longrightarrow> set p \<subseteq> set s \<and> length p \<le> length s"
  by (induction s arbitrary: p) (force split: if_splits list.splits)+

lemma scan_dec_mode:
  assumes "list_all is_digit param" "length param \<le> 255" "final = 104 \<or> final = 108"
  shows "host_scan ([27] @ bytes ''[?'' @ param @ [final]) HGround = Some HGround"
proof -
  have "host_scan ([27, 91] @ (63 # param) @ [final]) HGround = Some HGround"
    by (rule scan_csi) (use assms in \<open>auto simp: list_all_iff is_digit_def\<close>)
  then show ?thesis by (simp add: bytes_def)
qed

lemma scan_dec_loop:
  assumes "\<And>p. p \<in> set ps \<Longrightarrow> list_all is_digit p \<and> length p \<le> 255" "final = 104 \<or> final = 108"
  shows "host_scan (snd (dec_mode_loop clk final ps ns)) HGround = Some HGround"
  using assms
proof (induction ps arbitrary: ns)
  case (Cons p ps)
  have clear: "host_scan ([27] @ bytes ''[2J'') HGround = Some HGround" by (simp add: bytes_def Let_def)
  have 47: "host_scan ([27] @ bytes ''[?'' @ bytes ''47'' @ [final]) HGround = Some HGround"
    by (rule scan_dec_mode) (use Cons.prems(2) in \<open>auto simp: bytes_def is_digit_def\<close>)
  have p: "host_scan ([27] @ bytes ''[?'' @ p @ [final]) HGround = Some HGround"
    by (rule scan_dec_mode) (use Cons.prems in auto)
  obtain n s where ns: "ns = (n, s)" by (cases ns)
  have rest: "host_scan (snd (dec_mode_loop clk final ps x)) HGround = Some HGround" for x
    using Cons by simp
  let ?m = "parse_u32 p"
  let ?s = "case ?m of Some k \<Rightarrow> apply_decset (clk n) k (final = 104) s | None \<Rightarrow> s"
  let ?clear = "if ?m = Some 1047 \<and> final = 108 \<and> alternate_screen s then [27] @ bytes ''[2J'' else []"
  let ?put = "[27] @ bytes ''[?'' @ (if ?m = Some 1047 then bytes ''47'' else p) @ [final]"
  have "snd (dec_mode_loop clk final (p # ps) ns) = ?clear @ ?put @ snd (dec_mode_loop clk final ps (n + 1, ?s))"
    by (simp add: ns Let_def split_beta)
  moreover have "host_scan ?clear HGround = Some HGround" using clear by (simp del: append.simps)
  moreover have "host_scan ?put HGround = Some HGround" using 47 p by (simp del: append.simps)
  ultimately show ?case using neutral_append[OF _ neutral_append[OF _ rest]] by (simp only:)
next
  case (Nil ns)
  then show ?case by (cases ns) simp
qed


lemma scan_dec_modes:
  assumes "intercept_dec_modes clk body b ns = Some (ns', out)" "length body \<le> 256"
  shows "host_scan out HGround = Some HGround"
proof -
  obtain ps where ps: "body = 63 # ps" "b = 104 \<or> b = 108" "list_all (\<lambda>b. is_digit b \<or> b = 59) ps"
    "out = snd (dec_mode_loop clk b (split_on 59 ps) ns)"
    using assms(1)
    by (cases body) (auto simp: intercept_dec_modes_def strip_prefix_def bytes_def split: option.splits if_splits)
  have "list_all is_digit p \<and> length p \<le> 255" if p: "p \<in> set (split_on 59 ps)" for p
  proof -
    have "59 \<notin> set p" using p by (induction ps arbitrary: p) (auto split: if_splits list.splits)
    then show ?thesis using split_parts[OF p] ps(1,3) assms(2) by (auto simp: list_all_iff)
  qed
  then show ?thesis unfolding ps(4) by (rule scan_dec_loop) (use ps(2) in auto)
qed

lemma scan_csi_byte:
  assumes "parser_ok (parser ctx)" "mode (parser ctx) = Csi" "\<not> (unat b = 24 \<or> unat b = 26)"
  shows "host_scan (snd (csi_byte env b ctx)) HGround = Some (host_of (mode (parser (fst (csi_byte env b ctx)))))"
proof -
  have buf: "list_all (\<lambda>b. 32 \<le> unat b \<and> unat b \<le> 63) (buffer (parser ctx))" "length (buffer (parser ctx)) \<le> 256"
    using assms by (simp_all add: parser_ok_def)
  show ?thesis
    using assms(2,3) scan_csi[OF buf, of b] buf(2)
    by (auto simp: csi_byte_def csi_final_def Let_def host_of_def split: option.split dest: scan_dec_modes
             simp del: append.simps)
qed

lemma scan_forwarded:
  "list_all (\<lambda>b. 32 \<le> unat b) payload \<Longrightarrow> host_scan (forwarded_osc payload) HGround = Some HGround"
  unfolding forwarded_osc_def using scan_osc[of payload] by (simp del: append.simps)

lemma scan_osc_byte:
  assumes "parser_ok (parser ctx)" "mode (parser ctx) = Osc"
  shows "host_scan (snd (osc_byte env b ctx)) HGround = Some (host_of (mode (parser (fst (osc_byte env b ctx)))))"
  using assms scan_forwarded[of "buffer (parser ctx)"]
  by (auto simp: osc_byte_def osc_end_def Let_def host_of_def parser_ok_def)

lemma scan_byte:
  assumes "parser_ok (parser ctx)"
  shows "host_scan (snd (intercept_byte env b ctx)) (host_of (mode (parser ctx))) =
    Some (host_of (mode (parser (fst (intercept_byte env b ctx)))))"
  using scan_csi_byte[OF assms, of b env] scan_osc_byte[OF assms, of env b]
  by (cases "mode (parser ctx)")
     (auto simp: intercept_byte_def escape_byte_def host_of_def Let_def)

section \<open>Whole runs\<close>

lemma chunk_append:
  "intercept_chunk env (xs @ ys) ctx =
     (let (ctx, out) = intercept_chunk env xs ctx; (ctx, rest) = intercept_chunk env ys ctx in (ctx, out @ rest))"
  by (induction xs arbitrary: ctx) (simp_all add: split_beta Let_def)

text \<open>The reads of a run, one after the other.\<close>

fun intercept_reads :: "InterceptEnv \<Rightarrow> byte list list \<Rightarrow> InterceptCtx \<Rightarrow> InterceptCtx \<times> byte list" where
  "intercept_reads env [] ctx = (ctx, [])"
| "intercept_reads env (c # cs) ctx =
     (let (ctx, out) = intercept_chunk env c ctx; (ctx, rest) = intercept_reads env cs ctx
      in (ctx, out @ rest))"

lemma reads_concat: "intercept_reads env cs ctx = intercept_chunk env (concat cs) ctx"
  by (induction cs arbitrary: ctx) (simp_all add: chunk_append split_beta Let_def)

lemma chunk_invariant:
  assumes "P ctx" "\<And>b ctx. P ctx \<Longrightarrow> P (fst (intercept_byte env b ctx))"
  shows "P (fst (intercept_chunk env bs ctx))"
  using assms(1) by (induction bs arbitrary: ctx) (auto simp: split_beta Let_def assms(2))

lemma chunk_ok: "ctx_ok ctx \<Longrightarrow> ctx_ok (fst (intercept_chunk env bs ctx))"
  by (rule chunk_invariant) (auto intro: byte_ok)

text \<open>C31. However the output of a child is split into reads, what reaches the emulator scans as
  the escape grammar with no device control or application string, control sequences of at most
  256 parameter bytes and operating system commands of at most 8192 bytes; and between two reads
  no sequence is open but an escape with intermediates.\<close>

theorem intercept_sanitizes:
  assumes "ctx_ok ctx" "mode (parser ctx) = Ground"
  shows "\<exists>h \<in> {HGround, HIntermediate}. host_scan (snd (intercept_reads env cs ctx)) HGround = Some h"
proof -
  have "host_scan (snd (intercept_chunk env bs c)) (host_of (mode (parser c))) =
    Some (host_of (mode (parser (fst (intercept_chunk env bs c)))))" if "ctx_ok c" for bs c
    using that
  proof (induction bs arbitrary: c)
    case (Cons b bs)
    have "ctx_ok (fst (intercept_byte env b c))" using Cons.prems by (rule byte_ok)
    moreover have "parser_ok (parser c)" using Cons.prems by (simp add: ctx_ok_def)
    ultimately show ?case using Cons.IH scan_byte[of c env b]
      by (simp add: split_beta Let_def host_scan_append)
  qed simp
  from this[OF assms(1), of "concat cs"] assms(2) show ?thesis
    by (auto simp: reads_concat host_of_def)
qed


lemma new_pane_ok: "ctx_ok new_pane_ctx"
  by (simp add: ctx_ok_def state_ok_def queue_ok_def parser_ok_def new_pane_ctx_def default_state_def)

definition sample_env :: InterceptEnv where
  "sample_env = \<lparr>policy = default_policy, theme = default_palette, clock = (\<lambda>n. n), hostname = None\<rparr>"

theorem intercept_sanitizes_witness:
  "ctx_ok new_pane_ctx \<and> mode (parser new_pane_ctx) = Ground \<and>
   (\<exists>h \<in> {HGround, HIntermediate}.
      host_scan (snd (intercept_reads sample_env [bytes ''a'', [27], bytes ''Px''] new_pane_ctx)) HGround = Some h)"
proof -
  have "mode (parser new_pane_ctx) = Ground" by (simp add: new_pane_ctx_def)
  with new_pane_ok intercept_sanitizes[OF new_pane_ok this] show ?thesis by blast
qed

text \<open>C35. Whatever a child prints, the interceptor keeps at most 1 MiB of an open sequence, 32 entries of
  each keyboard stack, a title of 8192 characters, and in each clipboard queue 8 entries of
  together 2 MiB.\<close>

theorem intercept_bounded:
  "let c = fst (intercept_reads env reads new_pane_ctx)
   in length (buffer (parser c)) \<le> 1024 * 1024 \<and>
      length (kitty_kbd (state c)) \<le> 32 \<and> length (inactive_kitty_kbd (state c)) \<le> 32 \<and>
      length (title (state c)) \<le> 8192 \<and>
      list_all (\<lambda>q. length q \<le> 8 \<and> sum_list (map length q) \<le> 2 * 1024 * 1024)
        [osc52_pending c, osc52_pending_confirm (state c)]"
proof -
  have "ctx_ok (fst (intercept_reads env reads new_pane_ctx))"
    by (simp add: reads_concat chunk_ok new_pane_ok)
  then show ?thesis
    by (cases "mode (parser (fst (intercept_reads env reads new_pane_ctx)))")
       (auto simp: ctx_ok_def state_ok_def queue_ok_def parser_ok_def Let_def MAX_DEPTH_def
          OSC_QUEUE_MAX_def OSC_QUEUE_BYTES_MAX_def OSC_PAYLOAD_MAX_def)
qed

section \<open>Clipboard access\<close>

text \<open>The only thing a child can put in front of a host terminal's clipboard handling: the three
  fields are free of control bytes and separators.\<close>

definition clip_envelope :: "nat \<Rightarrow> byte list \<Rightarrow> bool" where
  "clip_envelope limit e \<longleftrightarrow>
     (\<exists>sel data. e = envelope (bytes ''52;'' @ sel @ [59] @ data) \<and>
        set sel \<subseteq> set (bytes ''cpqs01234567'') \<and>
        (data = bytes ''?'' \<or>
         (length data \<le> min limit OSC_PAYLOAD_MAX \<and>
          list_all (\<lambda>b. is_alnum b \<or> b \<in> set (bytes ''+/='')) data)))"

text \<open>A queue that only grew at its end, by entries of a kind.\<close>

definition extends :: "('a \<Rightarrow> bool) \<Rightarrow> 'a list \<Rightarrow> 'a list \<Rightarrow> bool" where
  "extends P q q' \<longleftrightarrow> (\<exists>es. q' = q @ es \<and> list_all P es)"

lemma extends_refl [simp]: "extends P q q"
  by (simp add: extends_def)

lemma extends_one: "P e \<Longrightarrow> extends P q (q @ [e])"
  by (simp add: extends_def)

lemma extends_trans: "extends P a b \<Longrightarrow> extends P b c \<Longrightarrow> extends P a c"
  by (auto simp: extends_def)

lemma extends_none: "extends P q q' \<Longrightarrow> (\<And>e. \<not> P e) \<Longrightarrow> q' = q"
  by (auto simp: extends_def list_all_iff)

lemma extends_set: "extends P q q' \<Longrightarrow> e \<in> set q' \<Longrightarrow> e \<in> set q \<or> P e"
  by (auto simp: extends_def list_all_iff)

definition clip_step :: "ClipboardPolicy \<Rightarrow> InterceptCtx \<Rightarrow> InterceptCtx \<Rightarrow> bool" where
  "clip_step p ctx ctx' \<longleftrightarrow>
     osc52_decision (state ctx') = osc52_decision (state ctx) \<and>
     extends (\<lambda>e. clip_envelope (max_bytes p) e \<and>
         (get_policy p = GetAllow \<or> effective_policy p (osc52_decision (state ctx)) = SetAllow))
       (osc52_pending ctx) (osc52_pending ctx') \<and>
     extends (\<lambda>e. clip_envelope (max_bytes p) e \<and> effective_policy p (osc52_decision (state ctx)) = SetConfirm)
       (osc52_pending_confirm (state ctx)) (osc52_pending_confirm (state ctx'))"

lemma clip_stepI:
  assumes "osc52_decision (state ctx') = osc52_decision (state ctx)"
    and "osc52_pending ctx' = osc52_pending ctx"
    and "osc52_pending_confirm (state ctx') = osc52_pending_confirm (state ctx)"
  shows "clip_step p ctx ctx'"
  using assms by (simp add: clip_step_def)

lemma clip_step_refl [simp]: "clip_step p ctx ctx"
  by (simp add: clip_stepI)

lemma clip_step_trans:
  assumes "clip_step p a b" "clip_step p b c"
  shows "clip_step p a c"
  unfolding clip_step_def
proof (intro conjI)
  show "osc52_decision (state c) = osc52_decision (state a)"
    using assms by (simp add: clip_step_def)
  show "extends (\<lambda>e. clip_envelope (max_bytes p) e \<and>
      (get_policy p = GetAllow \<or> effective_policy p (osc52_decision (state a)) = SetAllow))
    (osc52_pending a) (osc52_pending c)"
    by (rule extends_trans[of _ _ "osc52_pending b"]) (use assms in \<open>simp_all add: clip_step_def\<close>)
  show "extends (\<lambda>e. clip_envelope (max_bytes p) e \<and> effective_policy p (osc52_decision (state a)) = SetConfirm)
    (osc52_pending_confirm (state a)) (osc52_pending_confirm (state c))"
    by (rule extends_trans[of _ _ "osc52_pending_confirm (state b)"]) (use assms in \<open>simp_all add: clip_step_def\<close>)
qed

text \<open>Only the clipboard fields count.\<close>

lemma clip_step_fields:
  assumes "clip_step p ctx c" "osc52_decision (state c') = osc52_decision (state c)"
    "osc52_pending c' = osc52_pending c"
    "osc52_pending_confirm (state c') = osc52_pending_confirm (state c)"
  shows "clip_step p ctx c'"
  using clip_step_trans[OF assms(1) clip_stepI[OF assms(2-4)]] .

lemma splitn2_Some:
  assumes "splitn2 c s = (a, Some b)"
  shows "s = a @ [c] @ b"
proof -
  let ?P = "\<lambda>x. x \<noteq> c"
  obtain x where d: "dropWhile ?P s = x # b" and a: "takeWhile ?P s = a"
    using assms by (auto simp: splitn2_def split: list.splits)
  have "x = c" using hd_dropWhile[of ?P s] by (simp add: d)
  moreover have "takeWhile ?P s @ dropWhile ?P s = s" by (rule takeWhile_dropWhile_id)
  ultimately show ?thesis unfolding d a by simp
qed

lemma clip_envelopeI:
  assumes "full = bytes ''52;'' @ rest" "splitn2 59 rest = (sel, Some data)"
    "set sel \<subseteq> set (bytes ''cpqs01234567'')"
    "data = bytes ''?'' \<or> (length data \<le> min limit OSC_PAYLOAD_MAX \<and>
       list_all (\<lambda>b. is_alnum b \<or> b \<in> set (bytes ''+/='')) data)"
  shows "clip_envelope limit (envelope full)"
  using assms splitn2_Some[OF assms(2)] unfolding clip_envelope_def by blast

lemma clip_step_pending:
  assumes "clip_envelope (max_bytes p) e" "get_policy p = GetAllow \<or> effective_policy p (osc52_decision (state ctx)) = SetAllow"
  shows "clip_step p ctx (ctx\<lparr>osc52_pending := enqueue_osc e (osc52_pending ctx)\<rparr>)"
  using assms enqueue_cases[of e "osc52_pending ctx"] by (auto simp: clip_step_def intro: extends_one)

lemma clip_step_confirm:
  assumes "clip_envelope (max_bytes p) e" "effective_policy p (osc52_decision (state ctx)) = SetConfirm"
  shows "clip_step p ctx (ctx\<lparr>state := (state ctx)\<lparr>osc52_pending_confirm :=
    enqueue_osc e (osc52_pending_confirm (state ctx))\<rparr>\<rparr>)"
  using assms enqueue_cases[of e "osc52_pending_confirm (state ctx)"] by (auto simp: clip_step_def intro: extends_one)

lemma osc52_clip:
  assumes "full = bytes ''52;'' @ rest"
  shows "clip_step p ctx (handle_osc52 p full rest ctx)"
proof -
  have e: "clip_envelope (max_bytes p) (envelope full)"
    if "splitn2 59 rest = (sel, Some data)" "list_all (\<lambda>b. b \<in> set (bytes ''cpqs01234567'')) sel"
      "data = bytes ''?'' \<or> (\<not> min (max_bytes p) OSC_PAYLOAD_MAX < length data \<and>
        list_all (\<lambda>b. is_alnum b \<or> b \<in> set (bytes ''+/='')) data)" for sel data
    by (rule clip_envelopeI[OF assms that(1)]) (use that in \<open>auto simp: list_all_iff\<close>)
  obtain sel od where s: "splitn2 59 rest = (sel, od)" by (cases "splitn2 59 rest")
  show ?thesis
  proof (cases od)
    case (Some data)
    note e = e[OF s[unfolded Some]]
    show ?thesis unfolding handle_osc52_def s Some
      using e clip_step_pending[of p "envelope full" ctx] clip_step_confirm[of p "envelope full" ctx]
      by (auto split: Osc52GetPolicy.split Osc52SetPolicy.split)
  qed (simp add: handle_osc52_def s)
qed

lemma osc_clip: "clip_step (policy env) ctx (handle_osc env payload ctx)"
  by (rule handle_osc_cases[of env payload ctx]) (auto simp: keeps osc52_clip intro: clip_stepI)

lemma csi_final_clip: "clip_step p ctx (fst (csi_final env b ctx))"
  by (rule clip_stepI)
     (auto simp: csi_final_def Let_def keeps split: option.split dest: dec_modes_keeps)

lemma byte_clip: "clip_step (policy env) ctx (fst (intercept_byte env b ctx))"
proof -
  have esc: "clip_step p ctx (fst (escape_byte b ctx))" for p
    by (rule clip_stepI) (simp_all add: escape_byte_def Let_def reset_terminal_modes_def)
  have csi: "clip_step p ctx (fst (csi_byte env b ctx))" for p
    using csi_final_clip[of p ctx env b] by (auto simp: csi_byte_def Let_def intro: clip_stepI)
  have osc: "clip_step (policy env) ctx (fst (osc_byte env b ctx))"
    using clip_step_fields[OF osc_clip[of env ctx "buffer (parser ctx)"]]
    by (auto simp: osc_byte_def osc_end_def Let_def intro: clip_stepI)
  show ?thesis
    using esc csi osc by (auto simp: intercept_byte_def Let_def split: ControlMode.split intro: clip_stepI)
qed

lemma chunk_clip: "clip_step (policy env) ctx (fst (intercept_chunk env bs ctx))"
  by (rule chunk_invariant[of "clip_step (policy env) ctx"]) (auto intro: clip_step_trans byte_clip)

end
