(* ===== verification/ClipboardGate.thy ===== *)
theory ClipboardGate
  imports InterceptProps Keys
begin

text \<open>
  The consent prompt for OSC 52 clipboard writes, across panes: the part of the server loop
  (\<open>src/src/server/mod.rs\<close>) that reads panes, forwards their accepted sequences to the clients and
  opens a prompt, and the part of the key handler (\<open>src/src/server/input_modes.rs\<close>) that
  answers it. The panes are a hash map; the list here is in any order.
\<close>

section \<open>State and steps\<close>

record Osc52ConfirmState =
  pane_id :: nat
  byte_count :: nat
  queued_payloads :: "byte list list"

text \<open>\<open>forwarded\<close> records what was written to the clients, with the pane it came from.\<close>

record Gate =
  panes :: "(nat \<times> InterceptCtx) list"
  osc52_confirm :: "Osc52ConfirmState option"
  forwarded :: "(nat \<times> byte list) list"

definition map_pane :: "nat \<Rightarrow> (InterceptCtx \<Rightarrow> InterceptCtx) \<Rightarrow> Gate \<Rightarrow> Gate" where
  "map_pane pid f g = g\<lparr>panes := map (\<lambda>(k, c). (k, if k = pid then f c else c)) (panes g)\<rparr>"

text \<open>The reads of one \<open>read_output\<close>.\<close>

definition read_pane :: "(nat \<Rightarrow> InterceptEnv) \<Rightarrow> nat \<Rightarrow> byte list list \<Rightarrow> Gate \<Rightarrow> Gate" where
  "read_pane env pid chunks = map_pane pid (\<lambda>c. fst (intercept_reads (env pid) chunks c))"

definition take_osc52 :: "nat \<Rightarrow> Gate \<Rightarrow> Gate" where
  "take_osc52 pid g =
     (case map_of (panes g) pid of
        None \<Rightarrow> g
      | Some c \<Rightarrow>
          (map_pane pid (\<lambda>c. c\<lparr>osc52_pending := []\<rparr>) g)
            \<lparr>forwarded := forwarded g @ map (Pair pid) (osc52_pending c)\<rparr>)"

definition set_confirm :: "byte list list \<Rightarrow> InterceptCtx \<Rightarrow> InterceptCtx" where
  "set_confirm q c = c\<lparr>state := (state c)\<lparr>osc52_pending_confirm := q\<rparr>\<rparr>"

definition set_osc52_decision :: "Osc52Decision \<Rightarrow> InterceptCtx \<Rightarrow> InterceptCtx" where
  "set_osc52_decision d c = c\<lparr>state := (state c)\<lparr>osc52_decision := d\<rparr>\<rparr>"

fun drain_loop :: "nat list \<Rightarrow> Gate \<Rightarrow> Gate" where
  "drain_loop [] g = g"
| "drain_loop (pid # pids) g =
     (case map_of (panes g) pid of
        None \<Rightarrow> drain_loop pids g
      | Some c \<Rightarrow>
          let pending = osc52_pending_confirm (state c);
              g = map_pane pid (set_confirm []) g
          in if pending \<noteq> [] then
               g\<lparr>osc52_confirm := Some \<lparr>pane_id = pid, byte_count = sum_list (map length pending),
                   queued_payloads = pending\<rparr>\<rparr>
             else drain_loop pids g)"

definition drain :: "Gate \<Rightarrow> Gate" where
  "drain g = (if osc52_confirm g = None then drain_loop (sort (map fst (panes g))) g else g)"

definition requeue_osc52_pending_confirm :: "byte list list \<Rightarrow> InterceptCtx \<Rightarrow> InterceptCtx" where
  "requeue_osc52_pending_confirm payloads c =
     set_confirm (fold enqueue_osc (payloads @ osc52_pending_confirm (state c)) []) c"

text \<open>The keys of the prompt; without a prompt the key is for the other modes.\<close>

definition accepts :: "KeyCode \<Rightarrow> bool" where
  "accepts k \<longleftrightarrow> k = Char 121 \<or> k = Char 89"

definition rejects :: "KeyCode \<Rightarrow> bool" where
  "rejects k \<longleftrightarrow> k = Char 110 \<or> k = Char 78"

definition prompt_key :: "KeyCode \<Rightarrow> Gate \<Rightarrow> Gate" where
  "prompt_key k g =
     (case osc52_confirm g of
        None \<Rightarrow> g
      | Some st \<Rightarrow>
          if accepts k then
            (map_pane (pane_id st)
               (\<lambda>c. (set_osc52_decision Allowed c)\<lparr>osc52_pending := osc52_pending c @ queued_payloads st\<rparr>) g)
              \<lparr>osc52_confirm := None\<rparr>
          else if rejects k then
            (map_pane (pane_id st) (set_osc52_decision Denied) g)\<lparr>osc52_confirm := None\<rparr>
          else if k = Esc then
            (map_pane (pane_id st) (requeue_osc52_pending_confirm (queued_payloads st)) g)\<lparr>osc52_confirm := None\<rparr>
          else g)"

text \<open>Panes of other tabs are read but not forwarded; those of the active tab are both.\<close>

datatype gate_event = ReadInactive nat "byte list list" | ReadActive nat "byte list list" | Drain | PromptKey KeyCode

fun gate_step :: "(nat \<Rightarrow> InterceptEnv) \<Rightarrow> gate_event \<Rightarrow> Gate \<Rightarrow> Gate" where
  "gate_step env (ReadInactive pid chunks) g = read_pane env pid chunks g"
| "gate_step env (ReadActive pid chunks) g = take_osc52 pid (read_pane env pid chunks g)"
| "gate_step env Drain g = drain g"
| "gate_step env (PromptKey k) g = prompt_key k g"

definition gate_run :: "(nat \<Rightarrow> InterceptEnv) \<Rightarrow> gate_event list \<Rightarrow> Gate \<Rightarrow> Gate" where
  "gate_run env = fold (gate_step env)"

section \<open>Consent\<close>


text \<open>What holds of a pane as long as nobody consented.\<close>

definition quiet_pane :: "InterceptCtx \<Rightarrow> bool" where
  "quiet_pane c \<longleftrightarrow> osc52_decision (state c) \<noteq> Allowed \<and> osc52_pending c = []"

definition quiet :: "nat \<Rightarrow> Gate \<Rightarrow> bool" where
  "quiet pid g \<longleftrightarrow> (\<forall>c. (pid, c) \<in> set (panes g) \<longrightarrow> quiet_pane c) \<and> pid \<notin> fst ` set (forwarded g)"


lemma quiet_prompt [simp]: "quiet pid (g\<lparr>osc52_confirm := x\<rparr>) = quiet pid g"
  by (simp add: quiet_def)







text \<open>A server whose panes have just been spawned.\<close>

definition fresh_gate :: "nat list \<Rightarrow> Gate" where
  "fresh_gate pids = \<lparr>panes = map (\<lambda>k. (k, new_pane_ctx)) pids, osc52_confirm = None, forwarded = []\<rparr>"




text \<open>A pane that sets the clipboard to the letter A, the prompt, a yes, and the next tick.\<close>

definition set_A :: "byte list" where
  "set_A = [27, 93] @ bytes ''52;c;QQ=='' @ [7]"




section \<open>Prompts that come back\<close>








text \<open>A payload that arrives while the prompt is open outlives the user's no: the pane is asked about
  again, and a yes then lifts the denial.\<close>

definition denied_run :: "gate_event list" where
  "denied_run = [ReadActive 3 [set_A], Drain, ReadActive 3 [set_A], PromptKey (Char 110), Drain]"

lemma denied_prompts_again:
  "map_of (panes (gate_run (\<lambda>_. sample_env) (take 4 denied_run) (fresh_gate [2, 3]))) 3 \<noteq> None \<and>
   osc52_decision (state (the (map_of (panes (gate_run (\<lambda>_. sample_env) denied_run (fresh_gate [2, 3]))) 3))) = Denied \<and>
   map_option pane_id (osc52_confirm (gate_run (\<lambda>_. sample_env) denied_run (fresh_gate [2, 3]))) = Some 3 \<and>
   forwarded (gate_run (\<lambda>_. sample_env) (denied_run @ [PromptKey (Char 121), ReadActive 3 []]) (fresh_gate [2, 3])) =
     [(3, set_A)]"
  by code_simp


end
