(* ===== verification/InterceptDisplay.thy ===== *)
theory InterceptDisplay
  imports InterceptProps
begin

text \<open>
  The interceptor on well-formed display output: a grammar of text, escape and control sequences
  and DEC mode changes, what each is meant to become and to do, and the theorem that the byte
  machine does that however the bytes are split into reads.
\<close>

section \<open>The grammar\<close>

datatype display = Plain "byte list" | EscSeq byte | CsiSeq "byte list" byte | DecModes "nat list" bool

definition final_byte :: "bool \<Rightarrow> byte" where
  "final_byte on = (if on then 104 else 108)"

fun spell :: "display \<Rightarrow> byte list" where
  "spell (Plain bs) = bs"
| "spell (EscSeq b) = [27, b]"
| "spell (CsiSeq ps b) = [27, 91] @ ps @ [b]"
| "spell (DecModes ns on) = [27, 91, 63] @ join_params (map digits ns) @ [final_byte on]"

fun display_ok :: "display \<Rightarrow> bool" where
  "display_ok (Plain bs) \<longleftrightarrow> 27 \<notin> set bs"
| "display_ok (EscSeq b) \<longleftrightarrow> 48 \<le> unat b \<and> unat b \<le> 126 \<and> unat b \<notin> {80, 88, 91, 93, 94, 95, 99}"
| "display_ok (CsiSeq ps b) \<longleftrightarrow>
     list_all (\<lambda>p. 32 \<le> unat p \<and> unat p \<le> 63) ps \<and> length ps \<le> 256 \<and>
     64 \<le> unat b \<and> unat b \<le> 126 \<and> b \<noteq> 117 \<and> \<not> (take 1 ps = [63] \<and> (b = 104 \<or> b = 108))"
| "display_ok (DecModes ns on) \<longleftrightarrow>
     ns \<noteq> [] \<and> (\<forall>n \<in> set ns. n < 2 ^ 32) \<and> length (join_params (map digits ns)) \<le> 255"

text \<open>What a list of mode numbers does: each takes effect and is passed on in a sequence of its own,
  1047 as 47, after the clearing that leaving the alternate screen by 1047 implies.\<close>

fun modes_effect :: "(nat \<Rightarrow> nat) \<Rightarrow> bool \<Rightarrow> nat list \<Rightarrow> nat \<times> PaneTerminalState \<Rightarrow> (nat \<times> PaneTerminalState) \<times> byte list" where
  "modes_effect clk on [] ns = (ns, [])"
| "modes_effect clk on (m # ms) (n, s) =
     (let (r, out) = modes_effect clk on ms (n + 1, apply_decset (clk n) m on s)
      in (r, (if m = 1047 \<and> \<not> on \<and> alternate_screen s then [27, 91, 50, 74] else []) @
             [27, 91, 63] @ digits (if m = 1047 then 47 else m) @ [final_byte on] @ out))"

fun display_effect :: "InterceptEnv \<Rightarrow> display \<Rightarrow> InterceptCtx \<Rightarrow> InterceptCtx \<times> byte list" where
  "display_effect env (DecModes ns on) ctx =
     (let ((n, s), out) = modes_effect (clock env) on ns (ticks ctx, state ctx)
      in (ctx\<lparr>state := s, ticks := n\<rparr>, out))"
| "display_effect env d ctx = (ctx, spell d)"

fun displays_effect :: "InterceptEnv \<Rightarrow> display list \<Rightarrow> InterceptCtx \<Rightarrow> InterceptCtx \<times> byte list" where
  "displays_effect env [] ctx = (ctx, [])"
| "displays_effect env (d # ds) ctx =
     (let (ctx, out) = display_effect env d ctx; (ctx, rest) = displays_effect env ds ctx
      in (ctx, out @ rest))"

definition idle :: "InterceptCtx \<Rightarrow> bool" where
  "idle ctx \<longleftrightarrow> parser ctx = \<lparr>mode = Ground, buffer = [], overflow = False\<rparr>"

section \<open>Numbers and separators\<close>

lemma parse_param: "n < 2 ^ 32 \<Longrightarrow> parse_u32 (digits n) = Some n"
  using digits_value_digits[of n] by (simp add: parse_u32_def digits_value_def)

lemma join_digits:
  "b \<in> set (join_params (map digits ns)) \<Longrightarrow> b = 59 \<or> (48 \<le> unat b \<and> unat b \<le> 57)"
  using join_bytes[of b "map digits ns"] digits_ok[of b] by (auto simp: ascii_digit_def)

section \<open>Control sequences\<close>

lemma csi_params:
  assumes "list_all (\<lambda>p. 32 \<le> unat p \<and> unat p \<le> 63) ps" "length buf + length ps \<le> 256"
    "parser ctx = \<lparr>mode = Csi, buffer = buf, overflow = False\<rparr>"
  shows "intercept_chunk env ps ctx = (ctx\<lparr>parser := \<lparr>mode = Csi, buffer = buf @ ps, overflow = False\<rparr>\<rparr>, [])"
  using assms
proof (induction ps arbitrary: buf ctx)
  case (Cons b ps)
  let ?ctx = "ctx\<lparr>parser := \<lparr>mode = Csi, buffer = buf @ [b], overflow = False\<rparr>\<rparr>"
  have "intercept_byte env b ctx = (?ctx, [])"
    using Cons.prems by (auto simp: intercept_byte_def csi_byte_def Let_def)
  moreover have "intercept_chunk env ps ?ctx = (?ctx\<lparr>parser := \<lparr>mode = Csi, buffer = (buf @ [b]) @ ps, overflow = False\<rparr>\<rparr>, [])"
    by (rule Cons.IH) (use Cons.prems in auto)
  ultimately show ?case by simp
qed simp

lemma csi_sequence:
  assumes "list_all (\<lambda>p. 32 \<le> unat p \<and> unat p \<le> 63) ps" "length ps \<le> 256" "idle ctx"
    "64 \<le> unat b" "unat b \<le> 126"
  shows "intercept_chunk env ([27, 91] @ ps @ [b]) ctx =
    csi_final env b (ctx\<lparr>parser := \<lparr>mode = Csi, buffer = ps, overflow = False\<rparr>\<rparr>)"
proof -
  have start: "intercept_chunk env [27, 91] ctx = (ctx\<lparr>parser := \<lparr>mode = Csi, buffer = [], overflow = False\<rparr>\<rparr>, [])"
    using assms(3) by (simp add: idle_def intercept_byte_def enter_def escape_byte_def finish_def Let_def)
  show ?thesis
    unfolding chunk_append start
    by (simp only: Let_def split_beta fst_conv snd_conv csi_params[OF assms(1), of "[]"])
       (use assms(1,2,4,5) csi_params[of ps "[]"] in
         \<open>simp add: intercept_byte_def csi_byte_def Let_def split_beta\<close>)
qed

lemma dec_loop_effect:
  "(\<forall>n \<in> set ns. n < 2 ^ 32) \<Longrightarrow>
    dec_mode_loop clk (final_byte on) (map digits ns) (k, s) = modes_effect clk on ns (k, s)"
proof (induction ns arbitrary: k s)
  case (Cons n ns)
  have "bytes ''47'' = digits 47" by code_simp
  then show ?case using Cons
    by (auto simp: parse_param Let_def split_beta final_byte_def bytes_def[of "''[2J''"] bytes_def[of "''[?''"])
qed simp

lemma display_step:
  assumes "display_ok d" "idle ctx"
  shows "intercept_chunk env (spell d) ctx = display_effect env d ctx \<and> idle (fst (display_effect env d ctx))"
proof (cases d)
  case (Plain bs)
  have "intercept_chunk env bs ctx = (ctx, bs)" if "27 \<notin> set bs"
    using that assms(2)
  proof (induction bs)
    case (Cons b bs)
    have "b \<noteq> 27" using Cons.prems(1) by auto
    then have "unat b \<noteq> 27" unfolding word_unat_eq_iff by simp
    then show ?case using Cons by (simp add: intercept_byte_def idle_def Let_def)
  qed simp
  with Plain assms show ?thesis by simp
next
  case (EscSeq b)
  with assms show ?thesis
    by (auto simp: idle_def intercept_byte_def enter_def escape_byte_def finish_def Let_def)
next
  case (CsiSeq ps b)
  let ?c = "ctx\<lparr>parser := \<lparr>mode = Csi, buffer = ps, overflow = False\<rparr>\<rparr>"
  have "intercept_dec_modes (clock env) ps b x = None" for x
    using assms(1) CsiSeq by (auto simp: intercept_dec_modes_def strip_prefix_def bytes_def split: option.split)
  then have "csi_final env b ?c = (ctx, [27, 91] @ ps @ [b])"
    using assms CsiSeq by (simp add: csi_final_def finish_def idle_def)
  with csi_sequence[of ps ctx b env] assms CsiSeq show ?thesis by simp
next
  case (DecModes ns on)
  let ?body = "63 # join_params (map digits ns)"
  let ?c = "ctx\<lparr>parser := \<lparr>mode = Csi, buffer = ?body, overflow = False\<rparr>\<rparr>"
  have ok: "ns \<noteq> []" "\<forall>n \<in> set ns. n < 2 ^ 32" "length ?body \<le> 256" using assms(1) DecModes by simp_all
  have digits: "list_all (\<lambda>b. is_digit b \<or> b = 59) (join_params (map digits ns))"
    using join_digits[of _ ns] by (auto simp: list_all_iff is_digit_def)
  have split: "split_on 59 (join_params (map digits ns)) = map digits ns"
    by (rule split_join) (use ok(1) in \<open>auto dest: digits_ok simp: ascii_digit_def\<close>)
  have "intercept_dec_modes (clock env) ?body (final_byte on) (k, s) =
    Some (modes_effect (clock env) on ns (k, s))" for k s
    using digits split dec_loop_effect[OF ok(2)]
    by (simp add: intercept_dec_modes_def strip_prefix_def bytes_def final_byte_def)
  then have "csi_final env (final_byte on) ?c = display_effect env d ctx"
    using assms(2) DecModes
    by (simp add: csi_final_def finish_def idle_def split_beta final_byte_def)
  moreover have "list_all (\<lambda>p. 32 \<le> unat p \<and> unat p \<le> 63) ?body"
    using join_digits[of _ ns] by (force simp: list_all_iff)
  ultimately show ?thesis
    using csi_sequence[of ?body ctx "final_byte on" env] assms(2) ok(3) DecModes
    by (simp add: idle_def final_byte_def split_beta)
qed

text \<open>C32. Plain text, escape sequences and control sequences reach the emulator byte for byte, and every
  DEC mode of a list takes effect and is passed on by itself, wherever the reads split the
  output.\<close>

theorem intercept_displays:
  assumes "list_all display_ok ds" "idle ctx" "concat reads = concat (map spell ds)"
  shows "intercept_reads env reads ctx = displays_effect env ds ctx"
proof -
  have "intercept_chunk env (concat (map spell ds)) ctx = displays_effect env ds ctx"
    using assms(1,2)
  proof (induction ds arbitrary: ctx)
    case (Cons d ds)
    then show ?case using display_step[of d ctx env] by (simp add: chunk_append split_beta Let_def)
  qed simp
  then show ?thesis by (simp add: reads_concat assms(3))
qed

definition demo :: "display list" where
  "demo = [Plain (bytes ''hi''), CsiSeq (bytes ''1;31'') 109, DecModes [1049, 2004] True]"

theorem intercept_displays_witness:
  "list_all display_ok demo \<and> idle new_pane_ctx \<and>
   snd (intercept_reads sample_env [take 4 (concat (map spell demo)), drop 4 (concat (map spell demo))] new_pane_ctx) =
     bytes ''hi'' @ [27] @ bytes ''[1;31m'' @ [27] @ bytes ''[?1049h'' @ [27] @ bytes ''[?2004h''"
proof -
  have ok: "list_all display_ok demo" "idle new_pane_ctx" by code_simp+
  have "snd (displays_effect sample_env demo new_pane_ctx) =
      bytes ''hi'' @ [27] @ bytes ''[1;31m'' @ [27] @ bytes ''[?1049h'' @ [27] @ bytes ''[?2004h''"
    by (simp add: demo_def digits_def decimal.simps bytes_def final_byte_def split_beta Let_def new_pane_ctx_def)
  with ok intercept_displays[OF ok,
      of "[take 4 (concat (map spell demo)), drop 4 (concat (map spell demo))]" sample_env]
  show ?thesis by simp
qed

end
