(* ===== verification/KeyEncode.thy ===== *)
theory KeyEncode
  imports TermState Keys
begin

text \<open>
  How keys are sent to the child of a pane: \<open>encode_key_for_child\<close> of \<open>src/src/pane.rs\<close>, with the
  legacy encodings and the Kitty keyboard protocol at the levels the child has pushed.
\<close>

section \<open>Key numbers\<close>





section \<open>Legacy sequences\<close>








section \<open>The Kitty sequence\<close>





section \<open>Reading a Kitty sequence\<close>











section \<open>Every key can be told apart\<close>














end
