(* ===== verification/MouseReport.thy ===== *)
theory MouseReport
  imports TermState Keys
begin

text \<open>
  Mouse reports to the child of a pane: \<open>encode_mouse_event\<close> and \<open>encode_mouse_report\<close> of
  \<open>src/src/pane.rs\<close>. The coordinates are \<open>u16\<close> values relative to the pane.
\<close>

datatype MouseButton = LeftButton | RightButton | MiddleButton

datatype MouseEventKind =
    Down MouseButton | Up MouseButton | Drag MouseButton | Moved | ScrollDown | ScrollUp | ScrollLeft | ScrollRight

record MouseEvent =
  event_kind :: MouseEventKind
  event_column :: nat
  event_row :: nat
  event_modifiers :: "Modifier set"

fun button_code :: "MouseButton \<Rightarrow> nat" where
  "button_code LeftButton = 0"
| "button_code MiddleButton = 1"
| "button_code RightButton = 2"

text \<open>The button number and whether it is a release; \<open>None\<close> where the protocol reports nothing.\<close>

definition mouse_button :: "MouseProtocol \<Rightarrow> MouseEventKind \<Rightarrow> (nat \<times> bool) option" where
  "mouse_button p k =
     (if p = Off then None
      else case k of
        Down b \<Rightarrow> Some (button_code b, False)
      | _ \<Rightarrow>
        if p = Press then None
        else case k of
          Up b \<Rightarrow> Some (button_code b, True)
        | Drag b \<Rightarrow> if p = Btn \<or> p = Any then Some (32 + button_code b, False) else None
        | Moved \<Rightarrow> if p = Any then Some (35, False) else None
        | ScrollUp \<Rightarrow> Some (64, False)
        | ScrollDown \<Rightarrow> Some (65, False)
        | ScrollLeft \<Rightarrow> Some (66, False)
        | ScrollRight \<Rightarrow> Some (67, False)
        | _ \<Rightarrow> None)"

definition modifier_bits :: "Modifier set \<Rightarrow> nat" where
  "modifier_bits ms =
     (of_bool (SHIFT \<in> ms) * 4) OR (of_bool (ALT \<in> ms) * 8) OR (of_bool (CONTROL \<in> ms) * 16)"

definition legacy_code :: "nat \<Rightarrow> bool \<Rightarrow> nat" where
  "legacy_code button release = (if release then (button AND 28) OR 3 else button)"

definition encode_mouse_report :: "MouseEncoding \<Rightarrow> nat \<Rightarrow> nat \<Rightarrow> nat \<Rightarrow> bool \<Rightarrow> byte list option" where
  "encode_mouse_report enc button col row release =
     (let x = col + 1; y = row + 1; c = legacy_code button release + 32
      in if 255 < button then None
         else case enc of
           Sgr \<Rightarrow>
             Some ([27, 91, 60] @ join_params [digits button, digits x, digits y] @ [if release then 109 else 77])
         | Urxvt \<Rightarrow> Some ([27, 91] @ join_params [digits c, digits x, digits y] @ [77])
         | Utf8 \<Rightarrow>
             if x \<le> 2015 \<and> y \<le> 2015
             then Some ([27, 91, 77] @ encode_utf8 c @ encode_utf8 (x + 32) @ encode_utf8 (y + 32)) else None
         | X10Encoding \<Rightarrow>
             if x \<le> 223 \<and> y \<le> 223 \<and> c \<le> 255
             then Some [27, 91, 77, of_nat c, of_nat (x + 32), of_nat (y + 32)] else None)"

definition encode_mouse_event :: "MouseMode \<Rightarrow> MouseEvent \<Rightarrow> byte list option" where
  "encode_mouse_event md e =
     (case mouse_button (protocol md) (event_kind e) of
        None \<Rightarrow> None
      | Some (button, release) \<Rightarrow>
          encode_mouse_report (encoding md)
            (if protocol md \<noteq> Press then button OR modifier_bits (event_modifiers e) else button)
            (event_column e) (event_row e) release)"

section \<open>Reading a report\<close>

text \<open>A program's reader: button code, zero-based column and row; the SGR encoding also tells a release
  apart, elsewhere it is the code 3 in the two low bits.\<close>

definition decode_params :: "byte list \<Rightarrow> (nat \<times> nat \<times> nat) option" where
  "decode_params bs =
     (case map digits_value (split_on 59 bs) of
        [Some b, Some x, Some y] \<Rightarrow> Some (b, x - 1, y - 1)
      | _ \<Rightarrow> None)"

definition decode_report :: "MouseEncoding \<Rightarrow> byte list \<Rightarrow> ((nat \<times> nat \<times> nat) \<times> bool) option" where
  "decode_report enc bs =
     (case enc of
        Sgr \<Rightarrow> map_option (\<lambda>p. (p, List.last bs = 109)) (decode_params (butlast (drop 3 bs)))
      | Urxvt \<Rightarrow> map_option (\<lambda>(b, x, y). ((b - 32, x, y), False)) (decode_params (butlast (drop 2 bs)))
      | Utf8 \<Rightarrow>
          (case decode_utf8 (drop 3 bs) of
             Some [b, x, y] \<Rightarrow> Some ((b - 32, x - 33, y - 33), False)
           | _ \<Rightarrow> None)
      | X10Encoding \<Rightarrow>
          (case map unat (drop 3 bs) of
             [b, x, y] \<Rightarrow> Some ((b - 32, x - 33, y - 33), False)
           | _ \<Rightarrow> None))"

lemma decode_three:
  assumes "b < 2 ^ 32" "x < 2 ^ 32" "y < 2 ^ 32"
  shows "decode_params (join_params [digits b, digits x, digits y]) = Some (b, x - 1, y - 1)"
proof -
  have "split_on 59 (join_params [digits b, digits x, digits y]) = [digits b, digits x, digits y]"
    by (rule split_join) (auto dest: digits_ok simp: ascii_digit_def)
  then show ?thesis
    using assms by (simp add: decode_params_def digits_value_digits del: join_params.simps)
qed

lemma legacy_code_bound: "button \<le> 255 \<Longrightarrow> legacy_code button release \<le> 255"
proof -
  have "int button AND 28 \<le> 28" by (rule AND_upper2) simp
  then have "(int button AND 28) OR 3 < 2 ^ 5" by (intro OR_upper) simp_all
  moreover have "int ((button AND 28) OR 3) = (int button AND 28) OR 3" by (simp add: of_nat_and_eq of_nat_or_eq)
  ultimately have "int ((button AND 28) OR 3) < 2 ^ 5" by (simp only:)
  then have "(button AND 28) OR 3 \<le> 255" by simp
  then show "button \<le> 255 \<Longrightarrow> legacy_code button release \<le> 255" by (simp add: legacy_code_def)
qed

text \<open>C39. A mouse report is either not sent or says what happened: in every encoding the program reads back
  the button code and the exact column and row, so a coordinate beyond what the encoding can
  carry is never sent wrapped around.\<close>

theorem mouse_report_decodes:
  assumes "encode_mouse_report enc button col row release = Some bs" "col < 65536" "row < 65536"
  shows "decode_report enc bs =
    Some ((if enc = Sgr then button else legacy_code button release, col, row), enc = Sgr \<and> release)"
proof -
  have b: "button \<le> 255" using assms(1) by (auto simp: encode_mouse_report_def Let_def split: if_splits)
  have c: "legacy_code button release \<le> 255" by (rule legacy_code_bound[OF b])
  show ?thesis
  proof (cases enc)
    case Sgr
    have "decode_params (join_params [digits button, digits (col + 1), digits (row + 1)]) = Some (button, col, row)"
      using decode_three[of button "col + 1" "row + 1"] assms(2,3) b by simp
    with Sgr b assms(1) show ?thesis
      by (auto simp: encode_mouse_report_def decode_report_def Let_def butlast_append simp del: join_params.simps
          split: if_splits)
  next
    case Urxvt
    have "decode_params (join_params [digits (legacy_code button release + 32), digits (col + 1), digits (row + 1)]) =
      Some (legacy_code button release + 32, col, row)"
      using decode_three[of "legacy_code button release + 32" "col + 1" "row + 1"] assms(2,3) c by simp
    with Urxvt b assms(1) show ?thesis
      by (auto simp: encode_mouse_report_def decode_report_def Let_def butlast_append simp del: join_params.simps)
  next
    case Utf8
    then have xy: "col \<le> 2014" "row \<le> 2014" using assms(1) b
      by (auto simp: encode_mouse_report_def Let_def split: if_splits)
    have s: "scalar (legacy_code button release + 32)" "scalar (col + 33)" "scalar (row + 33)"
      using xy c by (auto simp: scalar_def)
    have "decode_utf8 (encode_utf8 (legacy_code button release + 32) @ encode_utf8 (col + 33) @ encode_utf8 (row + 33)) =
      Some [legacy_code button release + 32, col + 33, row + 33]"
      using decode_encode[of "[legacy_code button release + 32, col + 33, row + 33]"] s by simp
    with Utf8 xy b assms(1) show ?thesis
      by (auto simp: encode_mouse_report_def decode_report_def Let_def add.commute)
  next
    case X10Encoding
    then show ?thesis using assms(1) b
      by (auto simp: encode_mouse_report_def decode_report_def Let_def split: if_splits
          simp del: of_nat_add of_nat_Suc)
  qed
qed

theorem mouse_report_decodes_witness:
  "decode_report X10Encoding [27, 91, 77, 35, 43, 53] = Some ((3, 10, 20), False)"
  using mouse_report_decodes[of X10Encoding 2 10 20 True "[27, 91, 77, 35, 43, 53]"]
  by (simp add: encode_mouse_report_def legacy_code_def Let_def)

end
