(* ===== verification/PtyWriter.thy ===== *)
theory PtyWriter
  imports Utf8 "HOL-Library.Sublist"
begin

text \<open>
  The queue in front of a pane's pseudo terminal, \<open>BufferedPtyWriter\<close> of \<open>src/src/pane.rs\<close>: writes
  never block, what the operating system does not take stays queued up to a limit. The answers
  of the operating system are given in advance, one for each call; a run that needs more
  answers than there are has not returned, which is \<^const>\<open>None\<close>.
\<close>

datatype 'e os_write = Wrote nat | OsInterrupted | OsWouldBlock | OsFails 'e

datatype 'e pty_error = WriteZero | QueueFull | OsError 'e

text \<open>\<open>sent\<close> and \<open>accepted\<close> are what the operating system took and what the callers were told was
  written; \<open>flush_answers\<close> are those of the inner writer's flush.\<close>

record 'e PtyWriter =
  pending :: "byte list"
  sent :: "byte list"
  accepted :: "byte list"
  answers :: "'e os_write list"
  flush_answers :: "'e option list"

fun no_failure :: "'e os_write \<Rightarrow> bool" where
  "no_failure (OsFails e) = False"
| "no_failure _ = True"

definition PTY_INPUT_MAX :: nat where "PTY_INPUT_MAX = 1024 * 1024"

datatype 'e loop_exit = Emptied | Blocked | Failed "'e pty_error"

text \<open>A write takes a prefix of the first slice of the ring buffer, and so of the queue.\<close>

fun flush_loop ::
  "'e os_write list \<Rightarrow> byte list \<Rightarrow> byte list \<Rightarrow> ('e loop_exit \<times> byte list \<times> byte list \<times> 'e os_write list) option" where
  "flush_loop [] queue out = (if queue = [] then Some (Emptied, queue, out, []) else None)"
| "flush_loop (a # as) queue out =
     (if queue = [] then Some (Emptied, queue, out, a # as)
      else case a of
        Wrote n \<Rightarrow>
          if n = 0 then Some (Failed WriteZero, queue, out, as)
          else flush_loop as (drop n queue) (out @ take n queue)
      | OsInterrupted \<Rightarrow> flush_loop as queue out
      | OsWouldBlock \<Rightarrow> Some (Blocked, queue, out, as)
      | OsFails e \<Rightarrow> Some (Failed (OsError e), [], out, as))"

definition pty_flush :: "'e PtyWriter \<Rightarrow> ('e pty_error option \<times> 'e PtyWriter) option" where
  "pty_flush w =
     (case flush_loop (answers w) (pending w) (sent w) of
        None \<Rightarrow> None
      | Some (r, queue, out, as) \<Rightarrow>
          let w = w\<lparr>pending := queue, sent := out, answers := as\<rparr>
          in case r of
               Emptied \<Rightarrow>
                 (case flush_answers w of
                    [] \<Rightarrow> None
                  | f # fs \<Rightarrow> Some (map_option OsError f, w\<lparr>flush_answers := fs\<rparr>))
             | Blocked \<Rightarrow> Some (None, w)
             | Failed e \<Rightarrow> Some (Some e, w))"

definition pty_write :: "byte list \<Rightarrow> 'e PtyWriter \<Rightarrow> ('e pty_error option \<times> 'e PtyWriter) option" where
  "pty_write bs w =
     (case pty_flush w of
        None \<Rightarrow> None
      | Some (Some e, w) \<Rightarrow> Some (Some e, w)
      | Some (None, w) \<Rightarrow>
          if PTY_INPUT_MAX - length (pending w) < length bs then Some (Some QueueFull, w)
          else Some (None, w\<lparr>pending := pending w @ bs, accepted := accepted w @ bs\<rparr>))"

datatype pty_call = WriteCall "byte list" | FlushCall

fun pty_step :: "pty_call \<Rightarrow> 'e PtyWriter \<Rightarrow> 'e PtyWriter option" where
  "pty_step (WriteCall bs) w = map_option snd (pty_write bs w)"
| "pty_step FlushCall w = map_option snd (pty_flush w)"

definition new_writer :: "'e os_write list \<Rightarrow> 'e option list \<Rightarrow> 'e PtyWriter" where
  "new_writer as fs = \<lparr>pending = [], sent = [], accepted = [], answers = as, flush_answers = fs\<rparr>"

section \<open>First in, first out\<close>

text \<open>What the loop does to the bytes: it moves a prefix of the queue out; only a failure loses the rest.\<close>

lemma flush_loop_bytes:
  "flush_loop as queue out = Some (r, queue', out', as') \<Longrightarrow>
    (\<exists>k. out' = out @ take k queue \<and> (queue' = drop k queue \<or> queue' = [])) \<and>
    (list_all no_failure as \<longrightarrow> out' @ queue' = out @ queue) \<and> (\<exists>used. as = used @ as')"
proof (induction as arbitrary: queue out)
  case (Cons a as)
  show ?case
  proof (cases "queue = []")
    case False
    show ?thesis
    proof (cases a)
      case (Wrote n)
      show ?thesis
      proof (cases "n = 0")
        case True
        with Wrote False Cons.prems show ?thesis by (auto intro: exI[of _ 0] exI[of _ "[Wrote 0]"])
      next
        case n: False
        then have rec: "flush_loop as (drop n queue) (out @ take n queue) = Some (r, queue', out', as')"
          using Wrote False Cons.prems by simp
        from Cons.IH[OF rec] obtain k used where k: "out' = (out @ take n queue) @ take k (drop n queue)"
            "queue' = drop k (drop n queue) \<or> queue' = []" "as = used @ as'"
            "list_all no_failure as \<longrightarrow> out' @ queue' = out @ queue"
          by auto
        have "out' = out @ take (n + k) queue" using k(1) by (simp add: take_add)
        moreover have "queue' = drop (n + k) queue \<or> queue' = []" using k(2) by (simp add: add.commute)
        moreover have "a # as = (a # used) @ as'" using k(3) by simp
        ultimately show ?thesis using k(4) by (metis list.pred_inject(2))
      qed
    next
      case OsInterrupted
      then have "flush_loop as queue out = Some (r, queue', out', as')" using False Cons.prems by simp
      from Cons.IH[OF this] show ?thesis by (metis append_Cons list.pred_inject(2))
    next
      case OsWouldBlock
      with False Cons.prems show ?thesis by (auto intro: exI[of _ 0] exI[of _ "[OsWouldBlock]"])
    next
      case (OsFails e)
      with False Cons.prems show ?thesis by (auto intro: exI[of _ 0] exI[of _ "[OsFails e]"])
    qed
  qed (use Cons.prems in auto)
qed (auto split: if_splits)

definition writer_ok :: "bool \<Rightarrow> 'e PtyWriter \<Rightarrow> bool" where
  "writer_ok clean w \<longleftrightarrow>
     length (pending w) \<le> PTY_INPUT_MAX \<and> subseq (sent w @ pending w) (accepted w) \<and>
     (clean \<longrightarrow> list_all no_failure (answers w) \<and> sent w @ pending w = accepted w)"

lemma flush_keeps:
  assumes "writer_ok clean w" "pty_flush w = Some (r, w')"
  shows "writer_ok clean w'"
proof -
  obtain x queue out as where l: "flush_loop (answers w) (pending w) (sent w) = Some (x, queue, out, as)"
    using assms(2) by (auto simp: pty_flush_def split: option.splits)
  have w': "pending w' = queue" "sent w' = out" "answers w' = as" "accepted w' = accepted w"
    using assms(2) by (auto simp: pty_flush_def l Let_def split: loop_exit.splits list.splits)
  from flush_loop_bytes[OF l] obtain k used where k: "out = sent w @ take k (pending w)"
      "queue = drop k (pending w) \<or> queue = []" "answers w = used @ as"
      "list_all no_failure (answers w) \<longrightarrow> out @ queue = sent w @ pending w"
    by blast
  have "subseq (out @ queue) (sent w @ pending w)"
    using k(1,2) by (metis append.assoc append_Nil2 append_take_drop_id list_emb_append_mono subseq_order.order_refl
        subseq_drop_many list_emb_Nil)
  then have "subseq (out @ queue) (accepted w)"
    using assms(1) by (meson subseq_order.order_trans writer_ok_def)
  moreover have "length queue \<le> PTY_INPUT_MAX"
    using k(2) assms(1) by (auto simp: writer_ok_def)
  ultimately show ?thesis using assms(1) k(3,4) by (auto simp: writer_ok_def w')
qed

lemma step_keeps:
  assumes "writer_ok clean w" "pty_step c w = Some w'"
  shows "writer_ok clean w'"
proof (cases c)
  case FlushCall
  then show ?thesis using assms flush_keeps[OF assms(1)] by auto
next
  case (WriteCall bs)
  then obtain r where "pty_write bs w = Some (r, w')" using assms(2) by auto
  then obtain e v where v: "pty_flush w = Some (e, v)"
    "w' = v \<or> (length bs \<le> PTY_INPUT_MAX - length (pending v) \<and>
      w' = v\<lparr>pending := pending v @ bs, accepted := accepted v @ bs\<rparr>)"
    by (auto simp: pty_write_def split: option.splits if_splits)
  have ok: "writer_ok clean v" by (rule flush_keeps[OF assms(1) v(1)])
  have "subseq (sent v @ pending v @ bs) (accepted v @ bs)"
    using list_emb_append_mono[of "(=)" "sent v @ pending v" "accepted v" bs bs] ok
    by (simp add: writer_ok_def)
  with v(2) ok show ?thesis by (auto simp: writer_ok_def)
qed

text \<open>C37. Whatever the operating system answers, the queue never holds more than a megabyte, what the
  pane's terminal receives is in the order of the accepted writes with nothing twice, and
  unless the operating system reported a failure nothing is missing: the bytes sent and those
  still queued are exactly the accepted ones.\<close>

theorem pty_writer_fifo:
  assumes "fold_opt pty_step calls (new_writer as fs) = Some w"
  shows "length (pending w) \<le> PTY_INPUT_MAX \<and> subseq (sent w @ pending w) (accepted w) \<and>
    (list_all no_failure as \<longrightarrow> sent w @ pending w = accepted w)"
proof -
  have run: "writer_ok clean w" if "fold_opt pty_step calls v = Some w" "writer_ok clean v" for v clean
    using that by (induction calls arbitrary: v) (auto simp: bind_eq_Some_conv intro: step_keeps)
  have "writer_ok (list_all no_failure as) (new_writer as fs)"
    by (simp add: writer_ok_def new_writer_def)
  from run[OF assms this] show ?thesis by (simp add: writer_ok_def)
qed

theorem pty_writer_fifo_witness:
  "\<exists>w. fold_opt pty_step [WriteCall [1, 2, 3], WriteCall [4], FlushCall]
      (new_writer [Wrote 2, OsWouldBlock, OsInterrupted, Wrote 1, OsWouldBlock :: unit os_write] [None]) = Some w \<and>
    sent w = [1, 2, 3] \<and> pending w = [4] \<and> sent w @ pending w = accepted w"
proof -
  let ?run = "fold_opt pty_step [WriteCall [1, 2, 3], WriteCall [4], FlushCall]
      (new_writer [Wrote 2, OsWouldBlock, OsInterrupted, Wrote 1, OsWouldBlock :: unit os_write] [None])"
  obtain w where w: "?run = Some w" "sent w = [1, 2, 3]" "pending w = [4]"
    by (simp add: new_writer_def pty_write_def pty_flush_def PTY_INPUT_MAX_def)
  from pty_writer_fifo[OF w(1)] w show ?thesis by auto
qed

text \<open>C40. A flush returns after at most as many write calls as there are bytes queued, not counting the
  interrupted ones.\<close>

theorem flush_returns:
  assumes "length (pending w) \<le> length (filter (\<lambda>a. a \<noteq> OsInterrupted) (answers w))" "flush_answers w \<noteq> []"
  shows "\<exists>r w'. pty_flush w = Some (r, w')"
proof -
  have "\<exists>x. flush_loop as queue out = Some x"
    if "length queue \<le> length (filter (\<lambda>a. a \<noteq> OsInterrupted) as)" for as :: "'a os_write list" and queue out
    using that
  proof (induction as arbitrary: queue out)
    case (Cons a as)
    then show ?case by (cases a) auto
  qed simp
  from this[OF assms(1), of "sent w"] assms(2) show ?thesis
    by (auto simp: pty_flush_def Let_def split: loop_exit.split list.split)
qed

theorem flush_returns_witness:
  "\<exists>r w'. pty_flush (new_writer [OsInterrupted, Wrote 1, Wrote 5 :: unit os_write] [None]\<lparr>pending := [7, 8]\<rparr>) = Some (r, w')"
  using flush_returns[of "new_writer [OsInterrupted, Wrote 1, Wrote 5 :: unit os_write] [None]\<lparr>pending := [7, 8]\<rparr>"]
  by (simp add: new_writer_def)

end
