(* ===== verification/PaneDump.thy ===== *)
theory PaneDump
  imports CopySession
begin

text \<open>
  \<open>Pane::dump_text\<close> of \<open>src/src/pane.rs\<close>: the text of a pane with its history, collected by moving
  the view of the terminal through the history in steps of a screen, and the estimates that
  bound the history by a byte budget. \<^const>\<open>None\<close> is a panic or a loop that does not end.
\<close>

section \<open>Reading out a pane\<close>

text \<open>\<open>Screen::rows\<close>: the text of every visible row in a window of columns.\<close>

definition screen_rows :: "nat \<Rightarrow> nat \<Rightarrow> Screen \<Rightarrow> ustr list option" where
  "screen_rows start width s =
     do { rows \<leftarrow> visible_rows (cur_grid s);
          collect_options (map (\<lambda>r. row_write_contents start width False r []) rows) }"

text \<open>The walk from the oldest rows down, a screen at a time. The fuel is the offset: with at least one
  row on the screen every turn makes it smaller.\<close>

fun dump_loop :: "nat \<Rightarrow> nat \<Rightarrow> nat \<Rightarrow> nat \<Rightarrow> Pane \<Rightarrow> ustr list \<Rightarrow> (Pane \<times> ustr list) option" where
  "dump_loop fuel rows cols off p lines =
     (if off = 0 then Some (p, lines)
      else case fuel of
        0 \<Rightarrow> None
      | Suc fuel \<Rightarrow>
          do { p \<leftarrow> pane_set_scrollback off p;
               texts \<leftarrow> screen_rows 0 cols (p_screen p);
               dump_loop fuel rows cols (off - rows) p (lines @ take (min off rows) texts) })"

declare dump_loop.simps [simp del]

definition dump_text :: "bool \<Rightarrow> Pane \<Rightarrow> (ustr list \<times> Pane) option" where
  "dump_text include_scrollback p =
     do { let saved_offset = scrollback_offset (cur_grid (p_screen p));
          let (rows, cols) = screen_size (p_screen p);
          (p, lines) \<leftarrow>
            (if include_scrollback then
               do { p \<leftarrow> pane_set_scrollback (usize_max div 2) p;
                    let max_scrollback = scrollback_offset (cur_grid (p_screen p));
                    p \<leftarrow> pane_set_scrollback 0 p;
                    dump_loop max_scrollback rows cols max_scrollback p [] }
             else Some (p, []));
          p \<leftarrow> pane_set_scrollback 0 p;
          texts \<leftarrow> screen_rows 0 cols (p_screen p);
          p \<leftarrow> pane_set_scrollback saved_offset p;
          Some (lines @ texts, p) }"

section \<open>The byte budget of the history\<close>

text \<open>\<open>cell_size\<close> is \<open>size_of::<vt100::Cell>()\<close>.\<close>

definition compute_eviction :: "nat \<Rightarrow> nat \<Rightarrow> nat \<Rightarrow> nat" where
  "compute_eviction budget estimate cols =
     (if budget = 0 \<or> estimate \<le> budget then 0
      else max 1 ((estimate - budget) div max 1 (min usize_max (cols * 4))))"

definition budgeted_scrollback_lines :: "nat \<Rightarrow> nat \<Rightarrow> nat \<Rightarrow> nat \<Rightarrow> nat" where
  "budgeted_scrollback_lines cell_size requested cols budget =
     (if budget = 0 then requested
      else min requested (budget div max 1 (min usize_max ((cols * cell_size + 64) * 2))))"

section \<open>Moving the view\<close>

definition scrolled :: "nat \<Rightarrow> Pane \<Rightarrow> Pane" where
  "scrolled n p = p\<lparr>p_screen :=
     (if has_mode MODE_ALTERNATE_SCREEN (p_screen p)
      then (p_screen p)\<lparr>alternate_grid := set_scrollback n (alternate_grid (p_screen p))\<rparr>
      else (p_screen p)\<lparr>grid := set_scrollback n (grid (p_screen p))\<rparr>)\<rparr>"

lemma pane_set_scrollback_scrolled: "pane_set_scrollback n p = Some (scrolled n p)"
  by (simp add: pane_set_scrollback_def screen_set_scrollback_def on_grid_def scrolled_def)

lemma mode_grid [simp]: "has_mode m (s\<lparr>alternate_grid := g\<rparr>) = has_mode m s" "has_mode m (s\<lparr>grid := g\<rparr>) = has_mode m s"
  by (simp_all add: has_mode_def)

lemma scrolled_scrolled [simp]: "scrolled a (scrolled b p) = scrolled a p"
  by (simp add: scrolled_def set_scrollback_def)

lemma cur_grid_scrolled [simp]: "cur_grid (p_screen (scrolled n p)) = set_scrollback n (cur_grid (p_screen p))"
  by (simp add: scrolled_def cur_grid_def)

lemma scrolled_same:
  assumes "scrollback_offset (cur_grid (p_screen p)) \<le> length (scrollback (cur_grid (p_screen p)))"
  shows "scrolled (scrollback_offset (cur_grid (p_screen p))) p = p"
proof -
  have "set_scrollback (scrollback_offset g) g = g" if "scrollback_offset g \<le> length (scrollback g)" for g
    using that by (simp add: set_scrollback_def min_absorb1)
  then show ?thesis using assms by (auto simp: scrolled_def cur_grid_def)
qed

text \<open>The text of the rows as the specification has it.\<close>

definition row_line :: "nat \<Rightarrow> Row \<Rightarrow> ustr" where
  "row_line cols r = row_text (take cols (cells r))"

lemma row_line_contents:
  assumes "history_ok r"
  shows "row_write_contents 0 cols False r [] = Some (row_line cols r)"
proof -
  have r: "row_ok (length (cells r)) r" "length (cells r) < u16_max"
    using assms by (simp_all add: history_ok_def row_ok_def)
  have "\<not> (0 < length (cells r) \<and> is_wide_continuation (cells r ! 0))"
    using cells_okD(3)[OF row_okD(2)[OF r(1)], of 0] by auto
  from row_write_contents_text_aux[OF r this, of cols False "[]"] show ?thesis by (simp add: row_line_def)
qed

text \<open>What is visible at an offset into the history.\<close>

lemma screen_rows_at:
  assumes "list_all history_ok (scrollback g @ grows g)" "off \<le> length (scrollback g)"
    "cur_grid (p_screen p) = g"
  shows "screen_rows 0 cols (p_screen (scrolled off p)) =
    Some (map (row_line cols) (take (length (grows g)) (drop (length (scrollback g) - off) (scrollback g)) @
      take (length (grows g) - off) (grows g)))"
proof -
  let ?rows = "take (length (grows g)) (drop (length (scrollback g) - off) (scrollback g)) @
    take (length (grows g) - off) (grows g)"
  have "length (scrollback g) - off \<le> length (scrollback g)" by simp
  then have "visible_rows (set_scrollback off g) = Some ?rows"
    using assms(2) by (simp add: visible_rows_def set_scrollback_def sub16_def min_absorb1)
  moreover have "collect_options (map (\<lambda>r. row_write_contents 0 cols False r []) ?rows) = Some (map (row_line cols) ?rows)"
    by (rule collect_options_map)
       (use assms(1) in \<open>auto simp: list_all_iff intro!: row_line_contents dest: in_set_takeD in_set_dropD\<close>)
  ultimately show ?thesis by (simp add: screen_rows_def assms(3))
qed

lemma dump_loop_lines:
  assumes "list_all history_ok (scrollback g @ grows g)" "0 < length (grows g)"
    "cur_grid (p_screen p) = set_scrollback k g" "off \<le> length (scrollback g)" "off \<le> fuel"
  shows "\<exists>q. dump_loop fuel (length (grows g)) cols off p lines =
    Some (q, lines @ map (row_line cols) (drop (length (scrollback g) - off) (scrollback g))) \<and>
    (\<forall>m. scrolled m q = scrolled m p)"
  using assms(3-5)
proof (induction fuel arbitrary: off p lines k)
  case 0
  then show ?case by (simp add: dump_loop.simps)
next
  case (Suc fuel)
  let ?R = "length (grows g)" and ?sb = "scrollback g"
  show ?case
  proof (cases "off = 0")
    case True
    then show ?thesis by (simp add: dump_loop.simps)
  next
    case False
    let ?p = "scrolled off p" and ?d = "drop (length ?sb - off) ?sb"
    have g: "cur_grid (p_screen ?p) = set_scrollback off g"
      using Suc.prems(1) by (simp add: set_scrollback_def)
    have "screen_rows 0 cols (p_screen (scrolled off p)) =
        Some (map (row_line cols) (take ?R ?d @ take (?R - off) (grows g)))"
      using screen_rows_at[of "set_scrollback k g" off p cols] assms(1) Suc.prems(1,2)
      by (simp add: set_scrollback_def)
    moreover have "take (min off ?R) (take ?R ?d @ take (?R - off) (grows g)) = take ?R ?d"
      using Suc.prems(2) by (simp add: min_def)
    ultimately have step: "dump_loop (Suc fuel) ?R cols off p lines =
        dump_loop fuel ?R cols (off - ?R) ?p (lines @ map (row_line cols) (take ?R ?d))"
      using False by (simp add: dump_loop.simps[of "Suc fuel"] pane_set_scrollback_scrolled take_map del: map_append)
    let ?B = "drop (length ?sb - (off - ?R)) ?sb"
    have "?B = drop ?R ?d"
      using Suc.prems(2) by (cases "off \<le> ?R") (simp_all add: add.commute)
    then have whole: "map (row_line cols) (take ?R ?d) @ map (row_line cols) ?B = map (row_line cols) ?d"
      by (simp only: map_append[symmetric] append_take_drop_id)
    have "off - ?R \<le> length ?sb" "off - ?R \<le> fuel"
      using Suc.prems(2,3) assms(2) False by linarith+
    then obtain q where q: "dump_loop fuel ?R cols (off - ?R) ?p (lines @ map (row_line cols) (take ?R ?d)) =
        Some (q, (lines @ map (row_line cols) (take ?R ?d)) @ map (row_line cols) ?B)"
        "\<forall>m. scrolled m q = scrolled m ?p"
      using Suc.IH[OF g, of "off - ?R" "lines @ map (row_line cols) (take ?R ?d)"] by blast
    show ?thesis unfolding step q(1) append_assoc whole using q(2) by simp
  qed
qed

text \<open>C36. Dumping a pane with its history gives every row of the history from the oldest to the newest and
  then every row of the screen, each exactly once and as the text of its cells, and leaves the
  pane as it was, the user's place in the history included.\<close>

theorem dump_text_complete:
  assumes "pane_ok p" "length (scrollback (cur_grid (p_screen p))) \<le> usize_max div 2"
  shows "dump_text include_scrollback p =
    (let g = cur_grid (p_screen p)
     in Some (map (row_line (size_cols (gsize g)))
          ((if include_scrollback then scrollback g else []) @ grows g), p))"
proof -
  let ?g = "cur_grid (p_screen p)" and ?cols = "size_cols (gsize (cur_grid (p_screen p)))"
  have g: "grid_ok ?g" "grows ?g \<noteq> []" "size_ok (gsize ?g)"
    using cur_grid_ok[THEN conjunct1] assms(1) unfolding pane_ok_def grid_ready_def grid_ok_def by blast+
  have len: "length (grows ?g) = size_rows (gsize ?g)" "scrollback_offset ?g \<le> length (scrollback ?g)"
    using g(1,2) by (auto simp: grid_ok_def)
  have ok: "list_all history_ok (scrollback ?g @ grows ?g)"
    using g(1,3) by (auto simp: grid_ok_def list_all_iff size_ok_def row_ok_def history_ok_def)
  have live: "screen_rows 0 ?cols (p_screen (scrolled 0 p)) = Some (map (row_line ?cols) (grows ?g))"
    using screen_rows_at[OF ok, of 0 p ?cols] by simp
  have size: "screen_size (p_screen p) = (length (grows ?g), ?cols)"
    using len(1) by (auto simp: screen_size_def cur_grid_def)
  obtain q where q: "dump_loop (length (scrollback ?g)) (length (grows ?g)) ?cols (length (scrollback ?g)) (scrolled 0 p) [] =
      Some (q, map (row_line ?cols) (scrollback ?g))" "\<And>m. scrolled m q = scrolled m p"
    using dump_loop_lines[OF ok, of "scrolled 0 p" 0 "length (scrollback ?g)" "length (scrollback ?g)" ?cols "[]"] g(2)
    by auto
  have probe: "scrollback_offset (set_scrollback (usize_max div 2) ?g) = length (scrollback ?g)"
    using assms(2) by (simp add: set_scrollback_def min_absorb2)
  show ?thesis
    unfolding dump_text_def Let_def size
    using q live probe scrolled_same[OF len(2)]
    by (simp add: pane_set_scrollback_scrolled)
qed

text \<open>A pane with one row on the screen and one in the history.\<close>

definition short_pane :: "Pane option" where
  "short_pane =
     do { s \<leftarrow> screen_new \<lparr>size_rows = 1, size_cols = 3\<rparr> 5;
          read_output one_wide [Print 97, Execute 13, Execute 10, Print 98]
            \<lparr>p_screen = s, scroll_offset = 0, osc52_pending = []\<rparr> }"

lemma short_pane_ok: "returns short_pane pane_ok"
proof -
  have ok: "size_ok \<lparr>size_rows = 1, size_cols = 3\<rparr>" "char_width_ok one_wide"
      "list_all event_ok [Print 97, Execute 13, Execute 10, Print 98]"
    by (simp_all add: size_ok_def char_width_ok_def one_wide_def event_ok_def scalar_def)
  obtain s where s: "screen_new \<lparr>size_rows = 1, size_cols = 3\<rparr> 5 = Some s" "screen_ok s"
    using screen_new_ok[OF ok(1), of 5] by (auto simp: returns_def)
  then show ?thesis using read_output_ok[OF _ ok(2,3), of "\<lparr>p_screen = s, scroll_offset = 0, osc52_pending = []\<rparr>"]
    by (simp add: short_pane_def pane_ok_def)
qed

lemma short_pane_rows:
  "map_option (\<lambda>p. let g = cur_grid (p_screen p)
     in (map (row_line (size_cols (gsize g))) (scrollback g), map (row_line (size_cols (gsize g))) (grows g))) short_pane =
   Some ([[97]], [[98]])"
  by code_simp

theorem dump_text_complete_witness: "\<exists>p. short_pane = Some p \<and> dump_text True p = Some ([[97], [98]], p)"
proof -
  obtain p where p: "short_pane = Some p" "pane_ok p" using short_pane_ok by (auto simp: returns_def)
  let ?g = "cur_grid (p_screen p)"
  have rows: "map (row_line (size_cols (gsize ?g))) (scrollback ?g) = [[97]]"
      "map (row_line (size_cols (gsize ?g))) (grows ?g) = [[98]]"
    using short_pane_rows by (simp_all add: p(1) Let_def)
  have "length (scrollback ?g) \<le> usize_max div 2" using arg_cong[OF rows(1), of length] by simp
  from dump_text_complete[OF p(2) this, of True] rows have "dump_text True p = Some ([[97], [98]], p)"
    by (simp add: Let_def)
  with p(1) show ?thesis by blast
qed

end
