(* ===== verification/Spec2Isabelle.thy ===== *)
theory Spec2Isabelle
  imports LayoutSpec Tabs VtHistory Handshake CopySession Commands KeymapProps EnvInterpProps ClipboardGate InterceptDisplay KeyEncode MouseReport PtyWriter PaneDump
begin

text \<open>
  Verification of the terminal multiplexer ezpn.
\<close>

end
